(* ===== verification/Prelude.thy ===== *)
theory Prelude
  imports Main
begin

text \<open>
  The shared prelude of the development: names for the machine types of the source, saturating
  arithmetic, the state-and-error combinators that stand for Rust's \<open>?\<close> on functions taking
  \<open>&mut\<close> state, and list lemmas every component uses.

  Conventions. A \<open>u64\<close> value is a \<open>nat\<close>; every operation of the source on such a value is
  saturating, and the saturation is written out (\<open>sat_add\<close>; \<open>saturating_sub\<close> is the
  truncating subtraction of \<open>nat\<close>). A \<open>Duration\<close> or an \<open>Instant\<close> is a number of
  nanoseconds. Unicode text is a list of code points (\<open>ustring\<close>); identifiers, error types and
  other strings the code only compares or stores are \<open>string\<close>s.
\<close>

section \<open>Machine types\<close>

type_synonym u64 = nat
type_synonym duration = nat
type_synonym instant = nat
type_synonym uchar = nat
type_synonym ustring = "uchar list"

definition u64_max :: nat where
  "u64_max = 2 ^ 64 - 1"

definition sat_add :: "u64 \<Rightarrow> u64 \<Rightarrow> u64" where
  "sat_add a b = min (a + b) u64_max"

definition sat_mul :: "u64 \<Rightarrow> u64 \<Rightarrow> u64" where
  "sat_mul a b = min (a * b) u64_max"

definition div_ceil :: "nat \<Rightarrow> nat \<Rightarrow> nat" where
  "div_ceil a b = (a + b - 1) div b"

definition millis :: "nat \<Rightarrow> duration" where
  "millis n = n * 1000000"

definition seconds :: "nat \<Rightarrow> duration" where
  "seconds n = n * 1000000000"

definition as_millis :: "duration \<Rightarrow> nat" where
  "as_millis d = d div 1000000"

definition as_secs :: "duration \<Rightarrow> nat" where
  "as_secs d = d div 1000000000"

text \<open>\<open>d.as_millis().try_into().unwrap_or(u64::MAX)\<close>.\<close>

definition as_millis_u64 :: "duration \<Rightarrow> u64" where
  "as_millis_u64 d = min (as_millis d) u64_max"

lemma as_millis_millis [simp]: "as_millis (millis n) = n"
  by (simp add: as_millis_def millis_def)

lemma sat_add_le [simp]: "sat_add a b \<le> u64_max"
  by (simp add: sat_add_def)

lemma sat_add_ge: "a \<le> u64_max \<Longrightarrow> a \<le> sat_add a b"
  by (simp add: sat_add_def)

lemma sat_add_mono: "b \<le> c \<Longrightarrow> sat_add a b \<le> sat_add a c"
  by (auto simp: sat_add_def)

lemma sat_add_exact: "a + b \<le> u64_max \<Longrightarrow> sat_add a b = a + b"
  by (simp add: sat_add_def)

lemma sat_add_zero: "a \<le> u64_max \<Longrightarrow> sat_add a 0 = a"
  by (simp add: sat_add_def)

text \<open>A literal of ASCII characters as a list of code points.\<close>

definition lit :: "string \<Rightarrow> ustring" where
  "lit s = map of_char s"

lemma lit_eq_iff [simp]: "lit a = lit b \<longleftrightarrow> a = b"
proof
  assume "lit a = lit b"
  then show "a = b"
    unfolding lit_def by (rule map_injective) (simp add: inj_def)
qed simp

lemma lit_simps: "lit [] = []" "lit (c # s) = of_char c # lit s"
  by (simp_all add: lit_def)

text \<open>\<open>to_string\<close> of an unsigned integer.\<close>

fun nat_str :: "nat \<Rightarrow> ustring" where
  "nat_str n = (if n < 10 then [48 + n] else nat_str (n div 10) @ [48 + n mod 10])"

declare nat_str.simps [simp del]

text \<open>The decimal digits give the number back.\<close>

definition digits_value :: "ustring \<Rightarrow> nat" where
  "digits_value s = foldl (\<lambda>v c. 10 * v + (c - 48)) 0 s"

lemma nat_str_value [simp]: "digits_value (nat_str n) = n"
proof (induction n rule: nat_str.induct)
  case (1 n)
  show ?case
  proof (cases "n < 10")
    case True
    then show ?thesis by (subst nat_str.simps) (simp add: digits_value_def)
  next
    case False
    with 1 show ?thesis by (subst nat_str.simps) (simp add: digits_value_def)
  qed
qed

text \<open>\<open>str::starts_with\<close> and \<open>str::contains\<close>.\<close>

definition starts_with :: "'a list \<Rightarrow> 'a list \<Rightarrow> bool" where
  "starts_with rest p \<longleftrightarrow> take (length p) rest = p"

fun contains :: "'a list \<Rightarrow> 'a list \<Rightarrow> bool" where
  "contains [] p = (p = [])"
| "contains (c # cs) p = (starts_with (c # cs) p \<or> contains cs p)"

definition option_ok :: "('a \<Rightarrow> bool) \<Rightarrow> 'a option \<Rightarrow> bool" where
  "option_ok p x = (case x of None \<Rightarrow> False | Some c \<Rightarrow> p c)"

text \<open>\<open>char::is_whitespace\<close> of the Rust standard library (Unicode \<open>White_Space\<close>).\<close>

definition is_whitespace :: "uchar \<Rightarrow> bool" where
  "is_whitespace c \<longleftrightarrow> 0x09 \<le> c \<and> c \<le> 0x0D \<or> c = 0x20 \<or> c = 0x85 \<or> c = 0xA0 \<or> c = 0x1680 \<or>
     0x2000 \<le> c \<and> c \<le> 0x200A \<or> c = 0x2028 \<or> c = 0x2029 \<or> c = 0x202F \<or> c = 0x205F \<or> c = 0x3000"

definition trim :: "ustring \<Rightarrow> ustring" where
  "trim s = rev (dropWhile is_whitespace (rev (dropWhile is_whitespace s)))"

definition to_ascii_lowercase :: "ustring \<Rightarrow> ustring" where
  "to_ascii_lowercase = map (\<lambda>c. if 0x41 \<le> c \<and> c \<le> 0x5A then c + 0x20 else c)"

text \<open>\<open>char::is_control\<close> (Unicode \<open>Cc\<close>) and \<open>char::len_utf8\<close>.\<close>

definition is_control :: "uchar \<Rightarrow> bool" where
  "is_control c \<longleftrightarrow> c < 0x20 \<or> 0x7F \<le> c \<and> c \<le> 0x9F"

definition len_utf8 :: "uchar \<Rightarrow> nat" where
  "len_utf8 c = (if c < 0x80 then 1 else if c < 0x800 then 2 else if c < 0x10000 then 3 else 4)"

definition utf8_length :: "ustring \<Rightarrow> nat" where
  "utf8_length s = sum_list (map len_utf8 s)"

lemma utf8_length_append [simp]: "utf8_length (a @ b) = utf8_length a + utf8_length b"
  by (simp add: utf8_length_def)

section \<open>State with errors\<close>

text \<open>
  A function of the source that takes \<open>&mut S\<close> and returns \<open>Result<A, E>\<close>: the state comes
  back in either case, since what was written before an early return stays written.
\<close>

type_synonym ('s, 'e, 'a) sm = "'s \<Rightarrow> ('e + 'a) \<times> 's"

definition sm_return :: "'a \<Rightarrow> ('s, 'e, 'a) sm" where
  "sm_return a = (\<lambda>s. (Inr a, s))"

definition sm_throw :: "'e \<Rightarrow> ('s, 'e, 'a) sm" where
  "sm_throw e = (\<lambda>s. (Inl e, s))"

definition sm_bind :: "('s, 'e, 'a) sm \<Rightarrow> ('a \<Rightarrow> ('s, 'e, 'b) sm) \<Rightarrow> ('s, 'e, 'b) sm" where
  "sm_bind m f = (\<lambda>s. case m s of (Inl e, t) \<Rightarrow> (Inl e, t) | (Inr a, t) \<Rightarrow> f a t)"

definition sm_then :: "('s, 'e, 'a) sm \<Rightarrow> ('s, 'e, 'b) sm \<Rightarrow> ('s, 'e, 'b) sm" where
  "sm_then m n = sm_bind m (\<lambda>_. n)"

definition sm_modify :: "('s \<Rightarrow> 's) \<Rightarrow> ('s, 'e, unit) sm" where
  "sm_modify f = (\<lambda>s. (Inr (), f s))"

definition sm_gets :: "('s \<Rightarrow> 'a) \<Rightarrow> ('s, 'e, 'a) sm" where
  "sm_gets f = (\<lambda>s. (Inr (f s), s))"

definition sm_when :: "bool \<Rightarrow> ('s, 'e, unit) sm \<Rightarrow> ('s, 'e, unit) sm" where
  "sm_when b m = (if b then m else sm_return ())"

fun sm_mapM :: "('b \<Rightarrow> ('s, 'e, unit) sm) \<Rightarrow> 'b list \<Rightarrow> ('s, 'e, unit) sm" where
  "sm_mapM f [] = sm_return ()"
| "sm_mapM f (x # xs) = sm_then (f x) (sm_mapM f xs)"

named_theorems sm_defs

lemmas sm_basic_defs [sm_defs] =
  sm_return_def sm_throw_def sm_bind_def sm_then_def sm_modify_def sm_gets_def sm_when_def

text \<open>
  \<open>keeps R m\<close>: every run of \<open>m\<close>, successful or not, ends in a state related to the one it
  started in. With a reflexive and transitive \<open>R\<close> it composes over the combinators; an
  invariant \<open>I\<close> is the relation \<open>\<lambda>s t. I s \<longrightarrow> I t\<close>.
\<close>

definition keeps :: "('s \<Rightarrow> 's \<Rightarrow> bool) \<Rightarrow> ('s, 'e, 'a) sm \<Rightarrow> bool" where
  "keeps R m \<longleftrightarrow> (\<forall>s. R s (snd (m s)))"

locale state_preorder =
  fixes R :: "'s \<Rightarrow> 's \<Rightarrow> bool"
  assumes refl: "R s s"
    and trans: "R s t \<Longrightarrow> R t u \<Longrightarrow> R s u"
begin

lemma keeps_return: "keeps R (sm_return a)"
  by (simp add: keeps_def sm_return_def refl)

lemma keeps_throw: "keeps R (sm_throw e)"
  by (simp add: keeps_def sm_throw_def refl)

lemma keeps_gets: "keeps R (sm_gets f)"
  by (simp add: keeps_def sm_gets_def refl)

lemma keeps_modify: "(\<And>s. R s (f s)) \<Longrightarrow> keeps R (sm_modify f)"
  by (simp add: keeps_def sm_modify_def)

lemma keeps_bind:
  assumes "keeps R m" and "\<And>a. keeps R (f a)"
  shows "keeps R (sm_bind m f)"
  unfolding keeps_def
proof
  fix s
  obtain r t where rt: "m s = (r, t)" by (cases "m s")
  with assms(1) have st: "R s t" by (metis keeps_def snd_conv)
  show "R s (snd (sm_bind m f s))"
  proof (cases r)
    case (Inl e)
    with rt st show ?thesis by (simp add: sm_bind_def)
  next
    case (Inr a)
    have "R t (snd (f a t))" using assms(2) by (simp add: keeps_def)
    with st have "R s (snd (f a t))" by (rule trans)
    with rt Inr show ?thesis by (simp add: sm_bind_def)
  qed
qed

lemma keeps_then: "keeps R m \<Longrightarrow> keeps R n \<Longrightarrow> keeps R (sm_then m n)"
  by (simp add: sm_then_def keeps_bind)

lemma keeps_when: "(b \<Longrightarrow> keeps R m) \<Longrightarrow> keeps R (sm_when b m)"
  by (simp add: sm_when_def keeps_return)

lemma keeps_if: "(b \<Longrightarrow> keeps R m) \<Longrightarrow> (\<not> b \<Longrightarrow> keeps R n) \<Longrightarrow> keeps R (if b then m else n)"
  by simp

lemma keeps_mapM: "(\<And>x. keeps R (f x)) \<Longrightarrow> keeps R (sm_mapM f xs)"
  by (induction xs) (auto intro: keeps_return keeps_then)

lemmas keeps_intros =
  keeps_return keeps_throw keeps_gets keeps_modify keeps_bind keeps_then keeps_when keeps_if
  keeps_mapM

end

lemma keepsD: "keeps R m \<Longrightarrow> m s = (r, t) \<Longrightarrow> R s t"
  by (metis keeps_def snd_conv)

section \<open>Assertions on state with errors\<close>

text \<open>\<open>valid P m Q E\<close>: from a state with \<open>P\<close>, a run of \<open>m\<close> that returns ends with \<open>Q\<close> of
  the result and the state, and one that fails ends in a state with \<open>E\<close>.\<close>

definition valid ::
    "('s \<Rightarrow> bool) \<Rightarrow> ('s, 'e, 'a) sm \<Rightarrow> ('a \<Rightarrow> 's \<Rightarrow> bool) \<Rightarrow> ('s \<Rightarrow> bool) \<Rightarrow> bool" where
  "valid P m Q E \<longleftrightarrow>
     (\<forall>s. P s \<longrightarrow> (case m s of (Inl _, t) \<Rightarrow> E t | (Inr a, t) \<Rightarrow> Q a t))"

named_theorems valid_rules

lemma valid_return [valid_rules]: "(\<And>s. P s \<Longrightarrow> Q a s) \<Longrightarrow> valid P (sm_return a) Q E"
  by (simp add: valid_def sm_return_def)

lemma valid_throw [valid_rules]: "(\<And>s. P s \<Longrightarrow> E s) \<Longrightarrow> valid P (sm_throw e) Q E"
  by (simp add: valid_def sm_throw_def)

lemma valid_gets [valid_rules]: "(\<And>s. P s \<Longrightarrow> Q (f s) s) \<Longrightarrow> valid P (sm_gets f) Q E"
  by (simp add: valid_def sm_gets_def)

lemma valid_modify [valid_rules]: "(\<And>s. P s \<Longrightarrow> Q () (f s)) \<Longrightarrow> valid P (sm_modify f) Q E"
  by (simp add: valid_def sm_modify_def)

lemma valid_bind:
  assumes "valid P m R E" and "\<And>a. valid (R a) (f a) Q E"
  shows "valid P (sm_bind m f) Q E"
  unfolding valid_def
proof (intro allI impI)
  fix s assume "P s"
  with assms(1) show "case sm_bind m f s of (Inl _, t) \<Rightarrow> E t | (Inr a, t) \<Rightarrow> Q a t"
    using assms(2) by (fastforce simp: valid_def sm_bind_def split: prod.splits sum.splits)
qed

lemma valid_then: "valid P m (\<lambda>_. R) E \<Longrightarrow> valid R n Q E \<Longrightarrow> valid P (sm_then m n) Q E"
  unfolding sm_then_def by (rule valid_bind)

lemma valid_when:
  "valid P m (\<lambda>_. Q) E \<Longrightarrow> (\<And>s. P s \<Longrightarrow> Q s) \<Longrightarrow> valid P (sm_when b m) (\<lambda>_. Q) E"
  by (simp add: sm_when_def valid_return)

lemma valid_if:
  "(b \<Longrightarrow> valid P m Q E) \<Longrightarrow> (\<not> b \<Longrightarrow> valid P n Q E) \<Longrightarrow> valid P (if b then m else n) Q E"
  by simp

lemma valid_weaken:
  "valid P' m Q' E \<Longrightarrow> (\<And>s. P s \<Longrightarrow> P' s) \<Longrightarrow> (\<And>a s. Q' a s \<Longrightarrow> Q a s) \<Longrightarrow> valid P m Q E"
  by (fastforce simp: valid_def split: prod.splits sum.splits)

lemma valid_mapM: "(\<And>x. valid P (f x) (\<lambda>_. P) P) \<Longrightarrow> valid P (sm_mapM f xs) (\<lambda>_. P) P"
proof (induction xs)
  case Nil
  show ?case unfolding sm_mapM.simps by (rule valid_return) simp
next
  case (Cons x xs)
  show ?case unfolding sm_mapM.simps by (rule valid_then [OF Cons.prems Cons.IH [OF Cons.prems]])
qed

lemma validD:
  "valid P m Q E \<Longrightarrow> P s \<Longrightarrow> m s = (Inr a, t) \<Longrightarrow> Q a t"
  "valid P m Q E \<Longrightarrow> P s \<Longrightarrow> m s = (Inl e, t) \<Longrightarrow> E t"
  by (auto simp: valid_def dest: spec [of _ s])

section \<open>Keyed rows\<close>

text \<open>
  A table of rows that carry their key, changed by a function that keeps the key: what an
  \<open>UPDATE\<close> or an edit in place does to look-ups, to the keys and to their uniqueness.
\<close>

definition map_where :: "('r \<Rightarrow> bool) \<Rightarrow> ('r \<Rightarrow> 'r) \<Rightarrow> 'r list \<Rightarrow> 'r list" where
  "map_where p f rows = map (\<lambda>r. if p r then f r else r) rows"

locale keyed_update =
  fixes key :: "'r \<Rightarrow> 'k"
    and f :: "'r \<Rightarrow> 'r"
  assumes key_kept: "key (f r) = key r"
begin

lemma keys_kept: "map key (map_where p f rows) = map key rows"
  by (simp add: map_where_def key_kept)

lemma find_kept:
  "find (\<lambda>r. key r = k) (map_where p f rows) =
     map_option (\<lambda>r. if p r then f r else r) (find (\<lambda>r. key r = k) rows)"
  by (induction rows) (auto simp: map_where_def key_kept)

end

lemma find_key: "distinct (map key rows) \<Longrightarrow> r \<in> set rows \<Longrightarrow> find (\<lambda>s. key s = key r) rows = Some r"
  by (induction rows) auto

lemma find_key_None: "find (\<lambda>s. key s = k) rows = None \<longleftrightarrow> k \<notin> set (map key rows)"
  by (auto simp: find_None_iff)

lemma find_key_Some: "find (\<lambda>s. key s = k) rows = Some r \<Longrightarrow> r \<in> set rows \<and> key r = k"
  by (auto simp: find_Some_iff)

end
