(* ===== verification/Model_Text.thy ===== *)
theory Model_Text
  imports Prelude "HOL-Library.Sublist"
begin

text \<open>
  Crate \<open>vt-model\<close>, module \<open>text\<close> (\<open>crates/vt-model/src/text.rs\<close>): how provider text is set
  the way people write it. Characters are code points. The loops of the source run over an index
  or a rest of the text; here they are recursions over the rest. \<open>norm_str\<close> is the
  specification: the same normalization on one string, with no token boundaries, and the lemmas
  show that the token-boundary-keeping \<open>normalize_pieces\<close> refines it.
\<close>

section \<open>Character classes\<close>

definition NIKHAHIT :: uchar where
  "NIKHAHIT = 0x0E4D"

definition SARA_AA :: uchar where
  "SARA_AA = 0x0E32"

definition SARA_AM :: uchar where
  "SARA_AM = 0x0E33"

definition is_thai_tone_mark :: "uchar \<Rightarrow> bool" where
  "is_thai_tone_mark c \<longleftrightarrow> 0x0E48 \<le> c \<and> c \<le> 0x0E4B"

definition is_han_or_kana :: "uchar \<Rightarrow> bool" where
  "is_han_or_kana c \<longleftrightarrow>
     0x3040 \<le> c \<and> c \<le> 0x30FF \<or> 0x3400 \<le> c \<and> c \<le> 0x9FFF \<or> 0xF900 \<le> c \<and> c \<le> 0xFAFF"

definition is_thai :: "uchar \<Rightarrow> bool" where
  "is_thai c \<longleftrightarrow> 0x0E00 \<le> c \<and> c \<le> 0x0E7F"

definition is_unspaced_script :: "uchar \<Rightarrow> bool" where
  "is_unspaced_script c \<longleftrightarrow> is_han_or_kana c \<or>
     0x0E00 \<le> c \<and> c \<le> 0x0E7F \<or> 0x0E80 \<le> c \<and> c \<le> 0x0EFF \<or>
     0x1000 \<le> c \<and> c \<le> 0x109F \<or> 0x1780 \<le> c \<and> c \<le> 0x17FF"

definition is_wide_punctuation :: "uchar \<Rightarrow> bool" where
  "is_wide_punctuation c \<longleftrightarrow>
     0x3000 \<le> c \<and> c \<le> 0x303F \<or> 0xFF01 \<le> c \<and> c \<le> 0xFF20 \<or>
     0xFF3B \<le> c \<and> c \<le> 0xFF40 \<or> 0xFF5B \<le> c \<and> c \<le> 0xFF65"

definition is_provider_space :: "uchar \<Rightarrow> bool" where
  "is_provider_space c \<longleftrightarrow> c = 0x20 \<or> c = 0x09 \<or> c = 0x00A0 \<or> c = 0x202F"

fun space_is_noise :: "uchar option \<Rightarrow> uchar option \<Rightarrow> bool" where
  "space_is_noise _ None = False"
| "space_is_noise None (Some next) = (is_han_or_kana next \<or> is_wide_punctuation next)"
| "space_is_noise (Some previous) (Some next) =
     (is_wide_punctuation previous \<or> is_wide_punctuation next)"

section \<open>Normalization over token pieces\<close>

definition first_char :: "ustring \<Rightarrow> uchar option" where
  "first_char s = (case s of [] \<Rightarrow> None | c # _ \<Rightarrow> Some c)"

text \<open>\<open>output[piece].push(c)\<close>.\<close>

definition push_piece :: "nat \<Rightarrow> ustring \<Rightarrow> ustring list \<Rightarrow> ustring list" where
  "push_piece i cs out = out[i := out ! i @ cs]"

fun push_run :: "(uchar \<times> nat) list \<Rightarrow> ustring list \<Rightarrow> ustring list" where
  "push_run [] out = out"
| "push_run ((c, i) # run) out = push_run run (push_piece i [c] out)"

text \<open>
  The loop of \<open>normalize_pieces\<close>: the characters still to read (each with the index of its
  piece), the last character written, and the pieces written so far.
\<close>

function (sequential) normalize_loop ::
    "bool \<Rightarrow> (uchar \<times> nat) list \<Rightarrow> uchar option \<Rightarrow> ustring list \<Rightarrow> ustring list" where
  "normalize_loop collapse [] previous out = out"
| "normalize_loop collapse ((character, piece) # rest) previous out =
     (let flat = (character, piece) # rest;
          at1 = first_char (map fst rest);
          at2 = first_char (map fst (drop 1 rest))
      in if character = NIKHAHIT \<and> at1 = Some SARA_AA then
           normalize_loop collapse (drop 1 rest) (Some SARA_AM) (push_piece piece [SARA_AM] out)
         else if character = NIKHAHIT \<and> at2 = Some SARA_AA \<and> is_thai_tone_mark (the at1) then
           normalize_loop collapse (drop 2 rest) (Some SARA_AM)
             (push_piece piece [the at1, SARA_AM] out)
         else if collapse \<and> is_provider_space character then
           (let run = takeWhile (\<lambda>(c, _). is_provider_space c) flat;
                after = dropWhile (\<lambda>(c, _). is_provider_space c) flat;
                next = first_char (map fst after)
            in if space_is_noise previous next then normalize_loop collapse after previous out
               else normalize_loop collapse after (Some (fst (last run))) (push_run run out))
         else normalize_loop collapse rest (Some character) (push_piece piece [character] out))"
  by pat_completeness auto
termination
  by (relation "measure (\<lambda>(_, flat, _, _). length flat)")
     (auto simp: le_imp_less_Suc length_dropWhile_le)

definition flatten_pieces :: "ustring list \<Rightarrow> (uchar \<times> nat) list" where
  "flatten_pieces pieces = concat (map (\<lambda>(i, p). map (\<lambda>c. (c, i)) p) (enumerate 0 pieces))"

definition normalize_pieces :: "ustring list \<Rightarrow> bool \<Rightarrow> ustring list" where
  "normalize_pieces pieces collapse =
     normalize_loop collapse (flatten_pieces pieces) None (map (\<lambda>_. []) pieces)"

definition normalize_provider_pieces :: "ustring list \<Rightarrow> ustring list" where
  "normalize_provider_pieces pieces = normalize_pieces pieces True"

definition compose_thai_sara_am :: "ustring \<Rightarrow> ustring" where
  "compose_thai_sara_am t =
     (if NIKHAHIT \<notin> set t then t else hd (normalize_pieces [t] False))"

definition decompose_thai_sara_am :: "ustring \<Rightarrow> ustring" where
  "decompose_thai_sara_am t =
     (if SARA_AM \<notin> set t then t
      else concat (map (\<lambda>c. if c = SARA_AM then [NIKHAHIT, SARA_AA] else [c]) t))"

definition normalize_provider_text :: "ustring \<Rightarrow> ustring" where
  "normalize_provider_text t =
     (if NIKHAHIT \<notin> set t \<and> \<not> list_ex is_provider_space t then t
      else hd (normalize_pieces [t] True))"

section \<open>Translations set for their reader\<close>

definition primary_language :: "ustring \<Rightarrow> ustring" where
  "primary_language language =
     to_ascii_lowercase (takeWhile (\<lambda>c. c \<noteq> 0x2D \<and> c \<noteq> 0x5F) (trim language))"

definition is_unspaced_language :: "ustring \<Rightarrow> bool" where
  "is_unspaced_language language \<longleftrightarrow>
     language \<in> {lit ''th'', lit ''lo'', lit ''km'', lit ''my'', lit ''zh'', lit ''yue'', lit ''ja''}"

definition last_char :: "ustring \<Rightarrow> uchar option" where
  "last_char s = (if s = [] then None else Some (last s))"

function (sequential) remove_seams_loop :: "ustring \<Rightarrow> ustring \<Rightarrow> ustring" where
  "remove_seams_loop output [] = output"
| "remove_seams_loop output (character # rest) =
     (if is_provider_space character then
        (let run = takeWhile is_provider_space (character # rest);
             after = dropWhile is_provider_space (character # rest);
             between_characters =
               option_ok is_han_or_kana (last_char output) \<and> option_ok is_han_or_kana (first_char after)
         in remove_seams_loop (if between_characters then output else output @ run) after)
      else remove_seams_loop (output @ [character]) rest)"
  by pat_completeness auto
termination
  by (relation "measure (\<lambda>(_, rest). length rest)")
     (auto simp: le_imp_less_Suc length_dropWhile_le)

definition remove_seams_between_characters :: "ustring \<Rightarrow> ustring" where
  "remove_seams_between_characters t =
     (if \<not> list_ex is_provider_space t then t else remove_seams_loop [] t)"

definition PARTICLES :: "ustring list" where
  "PARTICLES = [[0x0E04, 0x0E23, 0x0E31, 0x0E1A], [0x0E04, 0x0E48, 0x0E30], [0x0E04, 0x0E30]]"

definition drops_particle :: "ustring \<Rightarrow> ustring \<Rightarrow> ustring \<Rightarrow> bool" where
  "drops_particle output rest p \<longleftrightarrow>
     starts_with rest p \<and> \<not> option_ok is_thai (first_char (drop (length p) rest)) \<and>
     option_ok is_thai (last_char output)"

lemma PARTICLES_nonempty: "p \<in> set PARTICLES \<Longrightarrow> p \<noteq> []"
  by (auto simp: PARTICLES_def)

lemma find_in_set: "find P xs = Some x \<Longrightarrow> x \<in> set xs"
  by (auto simp: find_Some_iff)

function (sequential) drop_particles_loop :: "ustring \<Rightarrow> ustring \<Rightarrow> ustring" where
  "drop_particles_loop output [] = output"
| "drop_particles_loop output (character # rest) =
     (case find (drops_particle output (character # rest)) PARTICLES of
        Some p \<Rightarrow> drop_particles_loop output (drop (length p) (character # rest))
      | None \<Rightarrow> drop_particles_loop (output @ [character]) rest)"
  by pat_completeness auto
termination
  by (relation "measure (\<lambda>(_, rest). length rest)")
     (auto dest!: find_in_set PARTICLES_nonempty)

definition drop_thai_politeness_particles :: "ustring \<Rightarrow> ustring" where
  "drop_thai_politeness_particles t =
     (if \<not> list_ex (contains t) PARTICLES then t else drop_particles_loop [] t)"

definition polish_translation :: "ustring \<Rightarrow> ustring \<Rightarrow> ustring \<Rightarrow> ustring" where
  "polish_translation t source_language target_language =
     (let source = primary_language source_language;
          target = primary_language target_language
      in if source = target then t
         else if target \<in> {lit ''zh'', lit ''yue'', lit ''ja''} \<and> \<not> is_unspaced_language source
         then remove_seams_between_characters t
         else if target = lit ''th'' then drop_thai_politeness_particles t
         else t)"

section \<open>The specification on one string\<close>

function (sequential) norm_str :: "bool \<Rightarrow> uchar option \<Rightarrow> ustring \<Rightarrow> ustring" where
  "norm_str collapse previous [] = []"
| "norm_str collapse previous (c # rest) =
     (if c = NIKHAHIT \<and> first_char rest = Some SARA_AA then
        SARA_AM # norm_str collapse (Some SARA_AM) (drop 1 rest)
      else if c = NIKHAHIT \<and> first_char (drop 1 rest) = Some SARA_AA \<and> is_thai_tone_mark (hd rest) then
        hd rest # SARA_AM # norm_str collapse (Some SARA_AM) (drop 2 rest)
      else if collapse \<and> is_provider_space c then
        (let run = takeWhile is_provider_space (c # rest);
             after = dropWhile is_provider_space (c # rest)
         in if space_is_noise previous (first_char after) then norm_str collapse previous after
            else run @ norm_str collapse (Some (last run)) after)
      else c # norm_str collapse (Some c) rest)"
  by pat_completeness auto
termination
  by (relation "measure (\<lambda>(_, _, s). length s)") (auto simp: le_imp_less_Suc length_dropWhile_le)

declare normalize_loop.simps(2) [simp del] norm_str.simps(2) [simp del]
  remove_seams_loop.simps(2) [simp del] drop_particles_loop.simps(2) [simp del]

lemma first_char_simps [simp]:
  "first_char [] = None" "first_char (c # s) = Some c"
  by (simp_all add: first_char_def)

lemma first_char_Some: "first_char s = Some c \<longleftrightarrow> (\<exists>t. s = c # t)"
  by (cases s) auto

lemma thai_not_space:
  "\<not> is_provider_space NIKHAHIT" "\<not> is_provider_space SARA_AA" "\<not> is_provider_space SARA_AM"
  "is_thai_tone_mark c \<Longrightarrow> \<not> is_provider_space c"
  by (auto simp: is_provider_space_def NIKHAHIT_def SARA_AA_def SARA_AM_def is_thai_tone_mark_def)

lemma thai_not_wide:
  "\<not> is_wide_punctuation NIKHAHIT" "\<not> is_wide_punctuation SARA_AA" "\<not> is_wide_punctuation SARA_AM"
  "is_thai_tone_mark c \<Longrightarrow> \<not> is_wide_punctuation c"
  by (auto simp: is_wide_punctuation_def NIKHAHIT_def SARA_AA_def SARA_AM_def is_thai_tone_mark_def)

lemma thai_not_han:
  "\<not> is_han_or_kana NIKHAHIT" "\<not> is_han_or_kana SARA_AA" "\<not> is_han_or_kana SARA_AM"
  "is_thai_tone_mark c \<Longrightarrow> \<not> is_han_or_kana c"
  by (auto simp: is_han_or_kana_def NIKHAHIT_def SARA_AA_def SARA_AM_def is_thai_tone_mark_def)

lemma thai_distinct:
  "SARA_AM \<noteq> NIKHAHIT" "SARA_AM \<noteq> SARA_AA" "SARA_AA \<noteq> NIKHAHIT" "NIKHAHIT \<noteq> SARA_AA"
  "SARA_AA \<noteq> SARA_AM" "NIKHAHIT \<noteq> SARA_AM"
  "\<not> is_thai_tone_mark NIKHAHIT" "\<not> is_thai_tone_mark SARA_AA" "\<not> is_thai_tone_mark SARA_AM"
  by (auto simp: NIKHAHIT_def SARA_AA_def SARA_AM_def is_thai_tone_mark_def)

lemmas thai_facts [simp] = thai_not_space thai_not_wide thai_not_han thai_distinct

subsection \<open>The loop over pieces refines the specification\<close>

definition tail_empty :: "nat \<Rightarrow> ustring list \<Rightarrow> bool" where
  "tail_empty i out \<longleftrightarrow> (\<forall>j. i < j \<and> j < length out \<longrightarrow> out ! j = [])"

lemma tail_empty_mono: "tail_empty i out \<Longrightarrow> i \<le> j \<Longrightarrow> tail_empty j out"
  by (auto simp: tail_empty_def)

lemma tail_empty_concat: "tail_empty i out \<Longrightarrow> concat (drop (Suc i) out) = []"
  by (auto simp: tail_empty_def in_set_conv_nth)

lemma push_piece_length [simp]: "length (push_piece i cs out) = length out"
  by (simp add: push_piece_def)

lemma push_run_length [simp]: "length (push_run run out) = length out"
  by (induction run out rule: push_run.induct) auto

lemma normalize_loop_length [simp]:
  "length (normalize_loop b flat previous out) = length out"
  by (induction b flat previous out rule: normalize_loop.induct)
     (auto simp: normalize_loop.simps(2) Let_def)

lemma push_piece_tail_empty:
  "tail_empty i out \<Longrightarrow> i \<le> j \<Longrightarrow> tail_empty j (push_piece i cs out)"
  by (auto simp: tail_empty_def push_piece_def)

lemma push_piece_concat:
  assumes "i < length out" and "tail_empty i out"
  shows "concat (push_piece i cs out) = concat out @ cs"
proof -
  have out: "out = take i out @ out ! i # drop (Suc i) out"
    using assms(1) by (rule id_take_nth_drop)
  have "push_piece i cs out = take i out @ (out ! i @ cs) # drop (Suc i) out"
    using assms(1) by (simp add: push_piece_def upd_conv_take_nth_drop)
  then have "concat (push_piece i cs out) = concat (take i out) @ out ! i @ cs"
    using tail_empty_concat [OF assms(2)] by simp
  moreover have "concat out = concat (take i out) @ out ! i"
    using tail_empty_concat [OF assms(2)] by (subst out) simp
  ultimately show ?thesis by simp
qed

text \<open>What the loop needs of the unread characters: piece indexes in order, every piece from the
  next one on still empty.\<close>

definition pieces_ok :: "(uchar \<times> nat) list \<Rightarrow> ustring list \<Rightarrow> bool" where
  "pieces_ok flat out \<longleftrightarrow>
     sorted (map snd flat) \<and> (\<forall>(c, i) \<in> set flat. i < length out \<and> tail_empty i out)"

lemma pieces_ok_Nil [simp]: "pieces_ok [] out"
  by (simp add: pieces_ok_def)

lemma pieces_ok_append: "pieces_ok (xs @ ys) out \<Longrightarrow> pieces_ok ys out"
  by (auto simp: pieces_ok_def sorted_append)

lemma pieces_ok_tail: "pieces_ok (x # ys) out \<Longrightarrow> pieces_ok ys out"
  by (rule pieces_ok_append [of "[x]"]) simp

lemma pieces_ok_drop: "pieces_ok xs out \<Longrightarrow> pieces_ok (drop n xs) out"
  by (rule pieces_ok_append [of "take n xs"]) simp

lemma pieces_ok_dropWhile: "pieces_ok xs out \<Longrightarrow> pieces_ok (dropWhile p xs) out"
  by (rule pieces_ok_append [of "takeWhile p xs"]) simp

lemma pieces_ok_push:
  assumes "pieces_ok ((c, i) # rest) out"
  shows "pieces_ok rest (push_piece i cs out)" and "concat (push_piece i cs out) = concat out @ cs"
  using assms
  by (fastforce simp: pieces_ok_def intro: push_piece_tail_empty)
     (use assms in \<open>simp add: pieces_ok_def push_piece_concat\<close>)

lemma pieces_ok_push_run:
  "pieces_ok (run @ rest) out \<Longrightarrow>
     pieces_ok rest (push_run run out) \<and> concat (push_run run out) = concat out @ map fst run"
proof (induction run out rule: push_run.induct)
  case (1 out)
  then show ?case by simp
next
  case (2 c i run out)
  then show ?case
    using pieces_ok_push [of c i "run @ rest" out "[c]"] by simp
qed

lemma takeWhile_map_fst:
  "map fst (takeWhile (\<lambda>(c, _). p c) xs) = takeWhile p (map fst xs)"
  "map fst (dropWhile (\<lambda>(c, _). p c) xs) = dropWhile p (map fst xs)"
  by (induction xs) auto

text \<open>The head of a text is a decomposed SARA AM, with or without a tone mark inside.\<close>

fun composable :: "ustring \<Rightarrow> bool" where
  "composable (a # b # s) \<longleftrightarrow> a = NIKHAHIT \<and>
     (b = SARA_AA \<or> is_thai_tone_mark b \<and> first_char s = Some SARA_AA)"
| "composable _ \<longleftrightarrow> False"

lemma norm_str_am: "norm_str b p (NIKHAHIT # SARA_AA # s) = SARA_AM # norm_str b (Some SARA_AM) s"
  by (simp add: norm_str.simps(2))

lemma norm_str_tone:
  "is_thai_tone_mark t \<Longrightarrow>
     norm_str b p (NIKHAHIT # t # SARA_AA # s) = t # SARA_AM # norm_str b (Some SARA_AM) s"
  by (auto simp: norm_str.simps(2))

lemma norm_str_space:
  "is_provider_space c \<Longrightarrow> norm_str True p (c # s) =
     (if space_is_noise p (first_char (dropWhile is_provider_space s))
      then norm_str True p (dropWhile is_provider_space s)
      else c # takeWhile is_provider_space s @
        norm_str True (Some (last (c # takeWhile is_provider_space s))) (dropWhile is_provider_space s))"
  by (auto simp: norm_str.simps(2) Let_def)

lemma norm_str_plain:
  "\<not> composable (c # s) \<Longrightarrow> \<not> (b \<and> is_provider_space c) \<Longrightarrow>
     norm_str b p (c # s) = c # norm_str b (Some c) s"
  by (cases s) (auto simp: norm_str.simps(2))

lemma normalize_loop_am:
  "normalize_loop b ((NIKHAHIT, i) # (SARA_AA, j) # s) p out =
     normalize_loop b s (Some SARA_AM) (push_piece i [SARA_AM] out)"
  by (simp add: normalize_loop.simps(2))

lemma normalize_loop_tone:
  "is_thai_tone_mark t \<Longrightarrow> normalize_loop b ((NIKHAHIT, i) # (t, j) # (SARA_AA, k) # s) p out =
     normalize_loop b s (Some SARA_AM) (push_piece i [t, SARA_AM] out)"
  by (auto simp: normalize_loop.simps(2) Let_def)

lemma normalize_loop_space:
  "is_provider_space c \<Longrightarrow> normalize_loop True ((c, i) # s) p out =
     (let run = takeWhile (\<lambda>(c, _). is_provider_space c) ((c, i) # s);
          after = dropWhile (\<lambda>(c, _). is_provider_space c) ((c, i) # s)
      in if space_is_noise p (first_char (map fst after)) then normalize_loop True after p out
         else normalize_loop True after (Some (fst (last run))) (push_run run out))"
  by (auto simp: normalize_loop.simps(2) Let_def)

lemma normalize_loop_plain:
  "\<not> composable (c # map fst s) \<Longrightarrow> \<not> (b \<and> is_provider_space c) \<Longrightarrow>
     normalize_loop b ((c, i) # s) p out = normalize_loop b s (Some c) (push_piece i [c] out)"
  by (cases s; cases "tl s") (auto simp: normalize_loop.simps(2) Let_def)

text \<open>The four ways a text can go on, as one case rule.\<close>

lemma text_cases [case_names Nil am tone space plain]:
  assumes "s = [] \<Longrightarrow> P"
    and "\<And>r. s = NIKHAHIT # SARA_AA # r \<Longrightarrow> P"
    and "\<And>t r. s = NIKHAHIT # t # SARA_AA # r \<Longrightarrow> is_thai_tone_mark t \<Longrightarrow> P"
    and "\<And>c r. s = c # r \<Longrightarrow> b \<Longrightarrow> is_provider_space c \<Longrightarrow> P"
    and "\<And>c r. s = c # r \<Longrightarrow> \<not> composable s \<Longrightarrow> \<not> (b \<and> is_provider_space c) \<Longrightarrow> P"
  shows P
proof (cases "composable s")
  case True
  then show ?thesis
    using assms(2,3) by (cases s rule: composable.cases) (auto simp: first_char_Some)
next
  case False
  then show ?thesis using assms(1,4,5) by (cases s) auto
qed

lemma normalize_loop_spec:
  "pieces_ok flat out \<Longrightarrow>
     concat (normalize_loop b flat previous out) = concat out @ norm_str b previous (map fst flat)"
proof (induction "length flat" arbitrary: flat previous out rule: less_induct)
  case less
  note IH = less.hyps and ok = less.prems
  show ?case
  proof (cases "map fst flat" rule: text_cases [of _ _ b])
    case Nil
    then show ?thesis by simp
  next
    case (am r)
    then obtain i j s where flat: "flat = (NIKHAHIT, i) # (SARA_AA, j) # s"
      by (auto simp: map_eq_Cons_conv)
    note push = pieces_ok_push [OF ok [unfolded flat], of "[SARA_AM]"]
    show ?thesis
      using IH [of s] pieces_ok_tail [OF push(1)] push(2)
      by (simp add: flat normalize_loop_am norm_str_am)
  next
    case (tone t r)
    then obtain i j k s where flat: "flat = (NIKHAHIT, i) # (t, j) # (SARA_AA, k) # s"
      by (auto simp: map_eq_Cons_conv)
    note push = pieces_ok_push [OF ok [unfolded flat], of "[t, SARA_AM]"]
    show ?thesis
      using IH [of s] pieces_ok_tail [OF pieces_ok_tail [OF push(1)]] push(2) tone(2)
      by (simp add: flat normalize_loop_tone norm_str_tone)
  next
    case (space c r)
    let ?sp = "\<lambda>(c, _). is_provider_space c"
    from space obtain i s where flat: "flat = (c, i) # s" and r: "map fst s = r"
      by (auto simp: map_eq_Cons_conv)
    have run: "pieces_ok (takeWhile ?sp flat @ dropWhile ?sp flat) out"
      using ok by (simp only: takeWhile_dropWhile_id)
    have last: "fst (last (takeWhile ?sp flat)) = last (c # takeWhile is_provider_space r)"
      using space(3) by (simp add: flat r [symmetric] takeWhile_map_fst(1) [symmetric] last_map)
    have shorter: "length (dropWhile ?sp s) < length flat"
      by (simp add: flat le_imp_less_Suc length_dropWhile_le)
    show ?thesis
      using space IH [of "dropWhile ?sp s"] shorter pieces_ok_dropWhile [OF ok, of ?sp]
        pieces_ok_push_run [OF run] last
      by (simp add: flat r normalize_loop_space norm_str_space takeWhile_map_fst Let_def)
  next
    case (plain c r)
    then obtain i s where flat: "flat = (c, i) # s" and r: "map fst s = r"
      by (auto simp: map_eq_Cons_conv)
    note push = pieces_ok_push [OF ok [unfolded flat], of "[c]"]
    show ?thesis
      using IH [of s] push plain by (simp add: flat r normalize_loop_plain norm_str_plain)
  qed
qed

lemma flatten_from:
  "sorted (map snd (concat (map (\<lambda>(i, p). map (\<lambda>c. (c, i)) p) (enumerate n pieces)))) \<and>
   (\<forall>(c, i) \<in> set (concat (map (\<lambda>(i, p). map (\<lambda>c. (c, i)) p) (enumerate n pieces))).
      n \<le> i \<and> i < n + length pieces) \<and>
   map fst (concat (map (\<lambda>(i, p). map (\<lambda>c. (c, i)) p) (enumerate n pieces))) = concat pieces"
proof (induction pieces arbitrary: n)
  case Nil
  then show ?case by simp
next
  case (Cons p pieces)
  have "sorted (map snd (map (\<lambda>c. (c, n)) p))" by (induction p) auto
  moreover have "map fst (map (\<lambda>c. (c, n)) p) = p" by (induction p) auto
  ultimately show ?case
    using Cons.IH [of "Suc n"] by (fastforce simp: sorted_append)
qed

lemma flatten_pieces_ok: "pieces_ok (flatten_pieces pieces) (map (\<lambda>_. []) pieces)"
  using flatten_from [of 0 pieces]
  by (auto simp: pieces_ok_def flatten_pieces_def tail_empty_def)

lemma flatten_pieces_fst: "map fst (flatten_pieces pieces) = concat pieces"
  using flatten_from [of 0 pieces] by (simp add: flatten_pieces_def)

lemma length_normalize_pieces [simp]: "length (normalize_pieces pieces b) = length pieces"
  by (simp add: normalize_pieces_def)

lemma concat_normalize_pieces: "concat (normalize_pieces pieces b) = norm_str b None (concat pieces)"
  by (simp add: normalize_pieces_def normalize_loop_spec [OF flatten_pieces_ok] flatten_pieces_fst)

lemma hd_normalize_single: "hd (normalize_pieces [t] b) = norm_str b None t"
proof -
  obtain r where "normalize_pieces [t] b = [r]"
    using length_normalize_pieces [of "[t]" b] by (cases "normalize_pieces [t] b") auto
  then show ?thesis using concat_normalize_pieces [of "[t]" b] by simp
qed

subsection \<open>The specification is a normal form\<close>

text \<open>No NIKHAHIT is left in front of a SARA AA, nor of a tone mark and a SARA AA.\<close>

fun sara_am_composed :: "ustring \<Rightarrow> bool" where
  "sara_am_composed [] = True"
| "sara_am_composed (c # s) = (\<not> composable (c # s) \<and> sara_am_composed s)"

lemma not_composable: "c \<noteq> NIKHAHIT \<Longrightarrow> \<not> composable (c # s)"
  by (cases s) auto

lemma space_not_composable: "is_provider_space c \<Longrightarrow> \<not> composable (c # s)"
  by (rule not_composable) auto

lemma after_not_space: "first_char (dropWhile is_provider_space s) = Some c \<Longrightarrow> \<not> is_provider_space c"
  by (auto simp: first_char_Some) (metis hd_dropWhile list.sel(1) neq_Nil_conv)

text \<open>The head of the result: what the head of the text becomes when no space before it is dropped.\<close>

lemma norm_str_head:
  assumes "first_char (norm_str b (Some p) s) = Some c" "\<not> is_wide_punctuation p" "\<not> is_wide_punctuation c"
  shows "(first_char s = Some NIKHAHIT \<and> (c = SARA_AM \<or> is_thai_tone_mark c)) \<or> first_char s = Some c"
proof (cases s rule: text_cases [of _ _ b])
  case (space d r)
  let ?after = "dropWhile is_provider_space r"
  show ?thesis
  proof (cases "space_is_noise (Some p) (first_char ?after)")
    case True
    with assms(2) obtain e where e: "first_char ?after = Some e" "is_wide_punctuation e"
      by (cases "first_char ?after") auto
    then obtain u where u: "?after = e # u" by (auto simp: first_char_Some)
    have "\<not> is_provider_space e" using e(1) by (rule after_not_space)
    moreover have "e \<noteq> NIKHAHIT" using e(2) by auto
    ultimately have "norm_str b (Some p) s = e # norm_str b (Some e) u"
      using space True by (simp add: norm_str_space u norm_str_plain not_composable)
    with assms(1,3) e(2) show ?thesis by simp
  next
    case False
    with space assms(1) show ?thesis by (simp add: norm_str_space)
  qed
qed (use assms in \<open>auto simp: norm_str_am norm_str_tone norm_str_plain\<close>)

lemma norm_str_plain_head:
  assumes "\<not> composable (c # r)"
  shows "\<not> composable (c # norm_str b (Some c) r)"
proof
  assume "composable (c # norm_str b (Some c) r)"
  then obtain d t where c: "c = NIKHAHIT" and n: "norm_str b (Some c) r = d # t"
    and d: "d = SARA_AA \<or> is_thai_tone_mark d \<and> first_char t = Some SARA_AA"
    by (cases "norm_str b (Some c) r") auto
  have head: "first_char r = Some NIKHAHIT \<and> (d = SARA_AM \<or> is_thai_tone_mark d) \<or> first_char r = Some d"
    using norm_str_head [of b c r d] n c d by auto
  show False
  proof (cases "d = SARA_AA")
    case True
    with head assms c show False by (auto simp: first_char_Some)
  next
    case False
    with d have tone: "is_thai_tone_mark d" and t: "first_char t = Some SARA_AA" by auto
    have dn: "d \<noteq> NIKHAHIT" "d \<noteq> SARA_AM" "\<not> is_provider_space d" using tone by auto
    from head show False
    proof
      assume "first_char r = Some d"
      then obtain u where r: "r = d # u" by (auto simp: first_char_Some)
      with n dn have "t = norm_str b (Some d) u" by (simp add: norm_str_plain not_composable)
      with t norm_str_head [of b d u SARA_AA] tone have "first_char u = Some SARA_AA" by auto
      with r tone c assms show False by simp
    next
      assume nik: "first_char r = Some NIKHAHIT \<and> (d = SARA_AM \<or> is_thai_tone_mark d)"
      show False
        using n t nik dn
        by (cases r rule: text_cases [of _ _ b]) (auto simp: norm_str_am norm_str_tone norm_str_plain)
    qed
  qed
qed

lemma norm_str_composed: "sara_am_composed (norm_str b p s)"
proof (induction "length s" arbitrary: s p rule: less_induct)
  case less
  note IH = less.hyps
  show ?case
  proof (cases s rule: text_cases [of _ _ b])
    case Nil
    then show ?thesis by simp
  next
    case (am r)
    then show ?thesis using IH [of r] by (simp add: norm_str_am not_composable)
  next
    case (tone t r)
    then show ?thesis
      using IH [of r] by (auto simp: norm_str_tone not_composable)
  next
    case (space c r)
    let ?after = "dropWhile is_provider_space r"
    have after: "length ?after < length s"
      using space by (simp add: le_imp_less_Suc length_dropWhile_le)
    have run: "sara_am_composed (cs @ t)" if "list_all is_provider_space cs" "sara_am_composed t" for cs t
      using that by (induction cs) (auto dest: space_not_composable)
    show ?thesis
      using space IH [OF after] run [of "c # takeWhile is_provider_space r"]
      by (auto simp: norm_str_space list_all_iff dest: set_takeWhileD)
  next
    case (plain c r)
    with norm_str_plain_head [of c r b] IH [of r] show ?thesis by (simp add: norm_str_plain)
  qed
qed

lemma norm_str_first:
  assumes "\<And>c. first_char s = Some c \<Longrightarrow> \<not> is_provider_space c"
  shows "first_char (norm_str b p s) = first_char s \<or>
    (first_char s = Some NIKHAHIT \<and>
      (\<exists>d. first_char (norm_str b p s) = Some d \<and> (d = SARA_AM \<or> is_thai_tone_mark d)))"
  by (cases s rule: text_cases [of _ _ b])
     (use assms in \<open>auto simp: norm_str_am norm_str_tone norm_str_plain\<close>)

lemma norm_str_append_run:
  assumes "list_all is_provider_space run" and "run \<noteq> []"
    and "\<not> space_is_noise p (first_char s)" and "\<And>c. first_char s = Some c \<Longrightarrow> \<not> is_provider_space c"
  shows "norm_str True p (run @ s) = run @ norm_str True (Some (last run)) s"
proof -
  obtain c cs where run: "run = c # cs" using assms(2) by (cases run) auto
  have s: "takeWhile is_provider_space s = []" "dropWhile is_provider_space s = s"
    using assms(4) by (cases s; simp)+
  have "takeWhile is_provider_space (cs @ s) = cs" "dropWhile is_provider_space (cs @ s) = s"
    using assms(1) s by (auto simp: run list_all_iff takeWhile_append2 dropWhile_append2)
  then show ?thesis
    using assms(1,3) by (simp add: run norm_str_space)
qed

lemma norm_str_idem: "norm_str b p (norm_str b p s) = norm_str b p s"
proof (induction "length s" arbitrary: s p rule: less_induct)
  case less
  note IH = less.hyps
  show ?case
  proof (cases s rule: text_cases [of _ _ b])
    case Nil
    then show ?thesis by simp
  next
    case (am r)
    then show ?thesis using IH [of r] by (simp add: norm_str_am norm_str_plain not_composable)
  next
    case (tone t r)
    then have "t \<noteq> NIKHAHIT" "\<not> is_provider_space t" by auto
    with tone show ?thesis
      using IH [of r] by (simp add: norm_str_tone norm_str_plain not_composable)
  next
    case (space c r)
    let ?run = "c # takeWhile is_provider_space r"
    let ?after = "dropWhile is_provider_space r"
    have after: "length ?after < length s"
      using space by (simp add: le_imp_less_Suc length_dropWhile_le)
    show ?thesis
    proof (cases "space_is_noise p (first_char ?after)")
      case True
      with space IH [OF after] show ?thesis by (simp add: norm_str_space)
    next
      case False
      let ?r' = "norm_str True (Some (last ?run)) ?after"
      have run: "list_all is_provider_space ?run"
        using space(3) by (auto simp: list_all_iff dest: set_takeWhileD)
      have head: "first_char ?r' = first_char ?after \<or>
          (first_char ?after = Some NIKHAHIT \<and> (\<exists>d. first_char ?r' = Some d \<and>
             (d = SARA_AM \<or> is_thai_tone_mark d)))"
        using after_not_space by (rule norm_str_first)
      have not_space: "\<not> is_provider_space d" if "first_char ?r' = Some d" for d
        using head that after_not_space [of r d] by auto
      have not_noise: "\<not> space_is_noise p (first_char ?r')"
        using head False by (cases p) auto
      have "norm_str True p (?run @ ?r') = ?run @ norm_str True (Some (last ?run)) ?r'"
        using not_noise not_space run by (intro norm_str_append_run) auto
      with space False IH [OF after] show ?thesis by (simp add: norm_str_space)
    qed
  next
    case (plain c r)
    then show ?thesis
      using norm_str_plain_head [of c r b] IH [of r] by (simp add: norm_str_plain)
  qed
qed

lemma norm_str_nothing_to_do:
  "NIKHAHIT \<notin> set s \<Longrightarrow> b \<Longrightarrow> \<not> list_ex is_provider_space s \<Longrightarrow> norm_str b p s = s"
  "NIKHAHIT \<notin> set s \<Longrightarrow> norm_str False p s = s"
  by (induction s arbitrary: p) (auto simp: norm_str_plain not_composable)

lemma normalize_provider_text_eq: "normalize_provider_text t = norm_str True None t"
  by (simp add: normalize_provider_text_def hd_normalize_single norm_str_nothing_to_do)

lemma compose_thai_sara_am_eq: "compose_thai_sara_am t = norm_str False None t"
  by (simp add: compose_thai_sara_am_def hd_normalize_single norm_str_nothing_to_do)

lemma decompose_eq:
  "decompose_thai_sara_am t = concat (map (\<lambda>c. if c = SARA_AM then [NIKHAHIT, SARA_AA] else [c]) t)"
proof -
  have "concat (map (\<lambda>c. if c = SARA_AM then [NIKHAHIT, SARA_AA] else [c]) t) = t"
    if "SARA_AM \<notin> set t" using that by (induction t) auto
  then show ?thesis by (simp add: decompose_thai_sara_am_def)
qed

lemma norm_str_decomposed:
  "NIKHAHIT \<notin> set t \<Longrightarrow>
     norm_str False p (concat (map (\<lambda>c. if c = SARA_AM then [NIKHAHIT, SARA_AA] else [c]) t)) = t"
  by (induction t arbitrary: p) (auto simp: norm_str_am norm_str_plain not_composable)

subsection \<open>Polishing only deletes\<close>

lemma remove_seams_loop_subseq: "\<exists>r. remove_seams_loop out t = out @ r \<and> subseq r t"
proof (induction out t rule: remove_seams_loop.induct)
  case (1 out)
  then show ?case by simp
next
  case (2 out c rest)
  let ?run = "takeWhile is_provider_space (c # rest)"
  let ?after = "dropWhile is_provider_space (c # rest)"
  show ?case
  proof (cases "is_provider_space c")
    case True
    then obtain r where r: "subseq r ?after"
      and eq: "remove_seams_loop out (c # rest) = out @ r \<or>
               remove_seams_loop out (c # rest) = out @ ?run @ r"
      using "2.IH"(1) [OF True refl refl refl] "2.IH"(1) [OF True refl refl refl]
      by (auto simp: remove_seams_loop.simps(2) Let_def split: if_splits)
    have "?run @ ?after = c # rest" by (rule takeWhile_dropWhile_id)
    moreover have "subseq r (?run @ ?after)" using r by (rule list_emb_append2)
    moreover have "subseq (?run @ r) (?run @ ?after)" using r by (intro list_emb_append_mono) auto
    ultimately have "subseq r (c # rest)" "subseq (?run @ r) (c # rest)" by metis+
    with eq show ?thesis by blast
  next
    case False
    with "2.IH"(2) show ?thesis by (auto simp: remove_seams_loop.simps(2))
  qed
qed

lemma drop_particles_loop_subseq: "\<exists>r. drop_particles_loop out t = out @ r \<and> subseq r t"
proof (induction out t rule: drop_particles_loop.induct)
  case (1 out)
  then show ?case by simp
next
  case (2 out c rest)
  show ?case
  proof (cases "find (drops_particle out (c # rest)) PARTICLES")
    case None
    with "2.IH"(1) show ?thesis by (auto simp: drop_particles_loop.simps(2))
  next
    case (Some p)
    from "2.IH"(2) [OF Some] obtain r where
      "drop_particles_loop out (drop (length p) (c # rest)) = out @ r"
      "subseq r (drop (length p) (c # rest))" by auto
    then show ?thesis
      using Some by (auto simp: drop_particles_loop.simps(2)) (metis append_take_drop_id list_emb_append2)
  qed
qed

lemma polish_subseq: "subseq (polish_translation t source target) t"
proof -
  have "subseq (remove_seams_between_characters t) t" "subseq (drop_thai_politeness_particles t) t"
    using remove_seams_loop_subseq [of "[]" t] drop_particles_loop_subseq [of "[]" t]
    by (auto simp: remove_seams_between_characters_def drop_thai_politeness_particles_def)
  then show ?thesis by (simp add: polish_translation_def Let_def)
qed

section \<open>Properties\<close>

text \<open>Normalizing a token stream keeps every token's boundary (one piece out per piece in) and
  changes nothing else: joining the normalized pieces gives the normalized join.\<close>

lemma normalize_pieces_join:
  "length (normalize_provider_pieces pieces) = length pieces \<and>
   concat (normalize_provider_pieces pieces) = normalize_provider_text (concat pieces)"
  by (simp add: normalize_provider_pieces_def concat_normalize_pieces normalize_provider_text_eq)

text \<open>Normalized provider text is a fixed point of the normalization and holds no decomposed
  SARA AM, with or without a tone mark in it.\<close>

lemma normalize_text_normal_form:
  "normalize_provider_text (normalize_provider_text t) = normalize_provider_text t \<and>
   sara_am_composed (normalize_provider_text t)"
  by (simp add: normalize_provider_text_eq norm_str_idem norm_str_composed)

text \<open>Decomposing SARA AM, as a search for text stored before normalization does, and composing
  it again gives the text back, when the text held no NIKHAHIT of its own.\<close>

lemma compose_decompose:
  assumes "NIKHAHIT \<notin> set t"
  shows "compose_thai_sara_am (decompose_thai_sara_am t) = t"
  using assms by (simp add: compose_thai_sara_am_eq decompose_eq norm_str_decomposed)

text \<open>Polishing a translation for its reader never writes a character: the result is the text
  with some characters left out, and a text read in its own language is left alone.\<close>

lemma polish_only_deletes:
  "subseq (polish_translation t source target) t \<and>
   (primary_language source = primary_language target \<longrightarrow> polish_translation t source target = t)"
proof
  show "subseq (polish_translation t source target) t" by (rule polish_subseq)
  show "primary_language source = primary_language target \<longrightarrow> polish_translation t source target = t"
    by (simp add: polish_translation_def Let_def)
qed

end
