(* ===== verification/Model_Script.thy ===== *)
theory Model_Script
  imports Model_Text
begin

text \<open>
  Crate \<open>vt-model\<close>, the rest: which writing system a text is in
  (\<open>crates/vt-model/src/script.rs\<close>) and how the source text of one provider stream relates to
  that of another (\<open>crates/vt-model/src/lib.rs\<close>). \<open>char::to_lowercase\<close> is a Unicode table of
  the standard library; it is the parameter \<open>lower\<close> of the definitions that fold case, and no
  property here assumes anything of it.
\<close>

section \<open>Writing systems\<close>

datatype script =
    Latin | Han | Kana | Hangul | Thai | Lao | Khmer | Myanmar | Cyrillic | Greek | Arabic | Hebrew
  | Devanagari

definition script_of :: "uchar \<Rightarrow> script option" where
  "script_of code =
     (if 0x0041 \<le> code \<and> code \<le> 0x005A \<or> 0x0061 \<le> code \<and> code \<le> 0x007A \<or>
         0x00C0 \<le> code \<and> code \<le> 0x024F \<or> 0x1E00 \<le> code \<and> code \<le> 0x1EFF then Some Latin
      else if 0x0370 \<le> code \<and> code \<le> 0x03FF then Some Greek
      else if 0x0400 \<le> code \<and> code \<le> 0x052F then Some Cyrillic
      else if 0x0590 \<le> code \<and> code \<le> 0x05FF then Some Hebrew
      else if 0x0600 \<le> code \<and> code \<le> 0x06FF \<or> 0x0750 \<le> code \<and> code \<le> 0x077F then Some Arabic
      else if 0x0900 \<le> code \<and> code \<le> 0x097F then Some Devanagari
      else if 0x0E00 \<le> code \<and> code \<le> 0x0E7F then Some Thai
      else if 0x0E80 \<le> code \<and> code \<le> 0x0EFF then Some Lao
      else if 0x1000 \<le> code \<and> code \<le> 0x109F then Some Myanmar
      else if 0x1780 \<le> code \<and> code \<le> 0x17FF then Some Khmer
      else if 0x1100 \<le> code \<and> code \<le> 0x11FF \<or> 0x3130 \<le> code \<and> code \<le> 0x318F \<or>
         0xAC00 \<le> code \<and> code \<le> 0xD7AF then Some Hangul
      else if 0x3040 \<le> code \<and> code \<le> 0x30FF \<or> 0x31F0 \<le> code \<and> code \<le> 0x31FF then Some Kana
      else if 0x3400 \<le> code \<and> code \<le> 0x4DBF \<or> 0x4E00 \<le> code \<and> code \<le> 0x9FFF \<or>
         0xF900 \<le> code \<and> code \<le> 0xFAFF then Some Han
      else None)"

definition scripts_of_language :: "ustring \<Rightarrow> script list option" where
  "scripts_of_language language =
     (let primary = primary_language language
      in if primary \<in> lit ` {''zh'', ''yue''} then Some [Han]
         else if primary = lit ''ja'' then Some [Han, Kana]
         else if primary = lit ''ko'' then Some [Hangul, Han]
         else if primary = lit ''th'' then Some [Thai]
         else if primary = lit ''lo'' then Some [Lao]
         else if primary = lit ''km'' then Some [Khmer]
         else if primary = lit ''my'' then Some [Myanmar]
         else if primary \<in> lit ` {''ru'', ''uk'', ''bg'', ''sr'', ''mk'', ''be'', ''kk''}
           then Some [Cyrillic]
         else if primary = lit ''el'' then Some [Greek]
         else if primary \<in> lit ` {''ar'', ''fa'', ''ur''} then Some [Arabic]
         else if primary = lit ''he'' then Some [Hebrew]
         else if primary \<in> lit ` {''hi'', ''mr'', ''ne''} then Some [Devanagari]
         else if primary \<in> lit ` {''en'', ''fr'', ''de'', ''es'', ''it'', ''pt'', ''nl'', ''sv'', ''da'',
             ''no'', ''nb'', ''fi'', ''pl'', ''cs'', ''sk'', ''hu'', ''ro'', ''tr'', ''id'', ''ms'', ''vi'',
             ''tl'', ''ca'', ''hr'', ''sl'', ''et'', ''lv'', ''lt'', ''sw''}
           then Some [Latin]
         else None)"

text \<open>One turn of the counting loop: letters seen, and those in an expected script.\<close>

definition count_letter :: "script list \<Rightarrow> uchar \<Rightarrow> nat \<times> nat \<Rightarrow> nat \<times> nat" where
  "count_letter expected character = (\<lambda>(letters, in_expected).
     case script_of character of None \<Rightarrow> (letters, in_expected)
     | Some script \<Rightarrow>
         (letters + 1, if script \<in> set expected then in_expected + 1 else in_expected))"

definition script_contradicts_language :: "ustring \<Rightarrow> ustring \<Rightarrow> bool" where
  "script_contradicts_language t language =
     (case scripts_of_language language of None \<Rightarrow> False
      | Some expected \<Rightarrow>
          (let (letters, in_expected) = fold (count_letter expected) t (0, 0)
           in 0 < letters \<and> in_expected = 0))"

text \<open>
  The scan of \<open>language_written_in\<close>: \<open>None\<close> is its early \<open>return None\<close> on a second script,
  \<open>Some s\<close> the value of \<open>script\<close> after the loop.
\<close>

fun one_script :: "ustring \<Rightarrow> script option \<Rightarrow> script option option" where
  "one_script [] script = Some script"
| "one_script (character # rest) script =
     (case script_of character of None \<Rightarrow> one_script rest script
      | Some found \<Rightarrow>
          (case script of None \<Rightarrow> one_script rest (Some found)
           | Some current \<Rightarrow> if current = found then one_script rest script else None))"

definition writes_in :: "script \<Rightarrow> ustring \<Rightarrow> bool" where
  "writes_in script language =
     (case scripts_of_language language of None \<Rightarrow> False | Some scripts \<Rightarrow> script \<in> set scripts)"

definition language_written_in :: "ustring \<Rightarrow> ustring list \<Rightarrow> ustring option" where
  "language_written_in t candidates =
     (case one_script t None of None \<Rightarrow> None
      | Some None \<Rightarrow> None
      | Some (Some script) \<Rightarrow>
          if script = Latin then None
          else (case filter (writes_in script) candidates of [only] \<Rightarrow> Some only | _ \<Rightarrow> None))"

definition is_latin_text :: "ustring \<Rightarrow> bool" where
  "is_latin_text t =
     (let letters = List.map_filter script_of t
      in letters \<noteq> [] \<and> list_all (\<lambda>script. script = Latin) letters)"

section \<open>Aligning source text across streams\<close>

datatype source_text_alignment = Exact | Contained nat | Unrelated

definition MINIMUM_CONTAINED_ALIGNMENT_CHARS :: nat where
  "MINIMUM_CONTAINED_ALIGNMENT_CHARS = 2"

definition is_ascii_punctuation :: "uchar \<Rightarrow> bool" where
  "is_ascii_punctuation c \<longleftrightarrow> 0x21 \<le> c \<and> c \<le> 0x2F \<or> 0x3A \<le> c \<and> c \<le> 0x40 \<or>
     0x5B \<le> c \<and> c \<le> 0x60 \<or> 0x7B \<le> c \<and> c \<le> 0x7E"

definition is_alignment_noise :: "uchar \<Rightarrow> bool" where
  "is_alignment_noise c =
     (if is_whitespace c then True
      else if c \<le> 0x7F then is_ascii_punctuation c
      else c \<in> {0x00A1, 0x00A7, 0x00B6, 0x00B7, 0x00BF} \<or> 0x2000 \<le> c \<and> c \<le> 0x206F \<or>
        0x3000 \<le> c \<and> c \<le> 0x303F \<or> 0xFF01 \<le> c \<and> c \<le> 0xFF0F \<or> 0xFF1A \<le> c \<and> c \<le> 0xFF20 \<or>
        0xFF3B \<le> c \<and> c \<le> 0xFF40 \<or> 0xFF5B \<le> c \<and> c \<le> 0xFF65)"

definition normalized_alignment_text :: "(uchar \<Rightarrow> ustring) \<Rightarrow> ustring \<Rightarrow> ustring" where
  "normalized_alignment_text lower value =
     concat (map lower (filter (\<lambda>c. \<not> is_alignment_noise c) value))"

definition align_source_text ::
    "(uchar \<Rightarrow> ustring) \<Rightarrow> ustring \<Rightarrow> ustring \<Rightarrow> source_text_alignment" where
  "align_source_text lower auxiliary canonical =
     (let auxiliary = normalized_alignment_text lower auxiliary
      in if auxiliary = [] then Unrelated
         else (let canonical = normalized_alignment_text lower canonical
               in if auxiliary = canonical then Exact
                  else if MINIMUM_CONTAINED_ALIGNMENT_CHARS \<le> length auxiliary
                    \<and> contains canonical auxiliary then Contained (length canonical)
                  else Unrelated))"

section \<open>What the loops compute\<close>

definition letters_of :: "ustring \<Rightarrow> script list" where
  "letters_of t = List.map_filter script_of t"

lemma letters_of_simps [simp]:
  "letters_of [] = []"
  "letters_of (c # t) = (case script_of c of None \<Rightarrow> letters_of t | Some s \<Rightarrow> s # letters_of t)"
  by (simp_all add: letters_of_def map_filter_simps split: option.splits)

lemma fold_count_letter:
  "fold (count_letter expected) t (n, m) =
     (n + length (letters_of t), m + length (filter (\<lambda>s. s \<in> set expected) (letters_of t)))"
  by (induction t arbitrary: n m) (auto simp: count_letter_def split: option.splits)

lemma one_script_spec:
  "one_script t (Some s) = (if set (letters_of t) \<subseteq> {s} then Some (Some s) else None)"
  "one_script t None =
     (case letters_of t of [] \<Rightarrow> Some None
      | s # ss \<Rightarrow> if set ss \<subseteq> {s} then Some (Some s) else None)"
proof -
  show some: "one_script t (Some s) = (if set (letters_of t) \<subseteq> {s} then Some (Some s) else None)" for t s
    by (induction t) (auto split: option.splits)
  show "one_script t None =
     (case letters_of t of [] \<Rightarrow> Some None
      | s # ss \<Rightarrow> if set ss \<subseteq> {s} then Some (Some s) else None)"
    by (induction t) (auto simp: some split: option.splits list.splits)
qed

lemma contains_sublist: "contains s p \<longleftrightarrow> sublist p s"
  by (induction s)
     (auto simp: sublist_Cons_right starts_with_def prefix_def, (metis append_take_drop_id | simp)+)

section \<open>Properties\<close>

text \<open>A text contradicts a language exactly when the language is known by its script, the text
  has letters, and none of them is in a script the language uses.\<close>

lemma script_contradicts_iff:
  "script_contradicts_language t language \<longleftrightarrow>
     (\<exists>expected. scripts_of_language language = Some expected \<and> letters_of t \<noteq> [] \<and>
        set (letters_of t) \<inter> set expected = {})"
  by (auto simp: script_contradicts_language_def fold_count_letter filter_empty_conv split: option.splits)

text \<open>A text is attributed to a candidate language exactly when its letters are all in one
  script, that script is not Latin, and precisely one candidate is written in it.\<close>

lemma language_written_in_iff:
  "language_written_in t candidates = Some l \<longleftrightarrow>
     (\<exists>s. s \<noteq> Latin \<and> letters_of t \<noteq> [] \<and> set (letters_of t) = {s} \<and>
        filter (writes_in s) candidates = [l])"
  by (auto simp: language_written_in_def one_script_spec(2) split: option.splits list.splits if_splits)

text \<open>Alignment of an auxiliary segment with a canonical row: exact when the comparison forms
  are the same and not empty, contained when at least two characters of it run contiguously inside
  the longer row (reported with the row's length), unrelated otherwise.\<close>

lemma align_source_text_spec:
  "align_source_text lower auxiliary canonical =
     (let a = normalized_alignment_text lower auxiliary; c = normalized_alignment_text lower canonical
      in if a \<noteq> [] \<and> a = c then Exact
         else if 2 \<le> length a \<and> sublist a c then Contained (length c)
         else Unrelated)"
  by (auto simp: align_source_text_def Let_def contains_sublist MINIMUM_CONTAINED_ALIGNMENT_CHARS_def)

end
