(* ===== verification/Stream_Clock.thy ===== *)
theory Stream_Clock
  imports Complex_Main "HOL-Library.Word" "HOL-Library.Sublist" Prelude
begin

text \<open>
  Crate \<open>vt-stt\<close>, \<open>soniox_stream.rs\<close>: the clocks and detectors one lane keeps while it streams.
  \<open>StreamRecoveryState\<close> is the capture timeline with its replay buffer and the provider's lead;
  \<open>ReplaySuppression\<close> removes what a replacement connection hears again;
  \<open>LongUtteranceCloser\<close> and \<open>HandoverSchedule\<close> decide when to finalize and when to hand over;
  \<open>QuietBlockDetector\<close> judges a block by its RMS level. Its \<open>f64\<close> arithmetic is real
  arithmetic here, so rounding is not modelled; everything else is exact.
\<close>

section \<open>Constants and timeouts\<close>

type_synonym pcm = "8 word list"

definition CONTINUITY_WINDOW :: duration where
  "CONTINUITY_WINDOW = seconds 15"

definition FAST_RECONNECT_WINDOW :: duration where
  "FAST_RECONNECT_WINDOW = seconds 5"

definition REPLAY_OVERLAP :: duration where
  "REPLAY_OVERLAP = seconds 2"

definition CATCH_UP_SPEED :: nat where
  "CATCH_UP_SPEED = 2"

definition PCM_BYTES_PER_MILLISECOND :: nat where
  "PCM_BYTES_PER_MILLISECOND = 32"

definition HANDOVER_LEAD :: duration where
  "HANDOVER_LEAD = seconds 60"

definition HANDOVER_DEADLINE_MARGIN :: duration where
  "HANDOVER_DEADLINE_MARGIN = seconds 15"

definition IMMEDIATE_ROLLOVER_MIN_SESSION :: duration where
  "IMMEDIATE_ROLLOVER_MIN_SESSION = seconds 30"

record stream_timeouts =
  connect_timeout :: duration
  write_timeout :: duration
  receive_idle :: duration
  keepalive :: duration
  drain_timeout :: duration
  reconnect_base_delay :: duration
  reconnect_outage_budget :: "duration option"
  live_edge_max_backlog :: duration
  immediate_rollover_min_session :: duration
  handover_lead :: duration
  handover_deadline_margin :: duration
  fast_reconnect_window :: duration

definition default_timeouts :: stream_timeouts where
  "default_timeouts =
     \<lparr>connect_timeout = seconds 10, write_timeout = seconds 10, receive_idle = seconds (5 * 60),
      keepalive = seconds 10, drain_timeout = seconds 5, reconnect_base_delay = seconds 1,
      reconnect_outage_budget = None, live_edge_max_backlog = CONTINUITY_WINDOW,
      immediate_rollover_min_session = IMMEDIATE_ROLLOVER_MIN_SESSION,
      handover_lead = HANDOVER_LEAD, handover_deadline_margin = HANDOVER_DEADLINE_MARGIN,
      fast_reconnect_window = FAST_RECONNECT_WINDOW\<rparr>"

lemmas window_defs = CONTINUITY_WINDOW_def FAST_RECONNECT_WINDOW_def REPLAY_OVERLAP_def
  HANDOVER_LEAD_def HANDOVER_DEADLINE_MARGIN_def IMMEDIATE_ROLLOVER_MIN_SESSION_def seconds_def

section \<open>The capture timeline\<close>

record replay_frame =
  end_ms :: u64
  frame_pcm :: pcm

record recovery_state =
  next_audio_ms :: u64
  acknowledged_ms :: u64
  connection_origin_ms :: u64
  sent_frames :: "replay_frame list"
  finalize_marks :: "u64 list"
  provider_lead :: "(u64 \<times> u64) list"

definition starting_at :: "u64 \<Rightarrow> recovery_state" where
  "starting_at capture_origin_ms =
     \<lparr>next_audio_ms = capture_origin_ms, acknowledged_ms = capture_origin_ms,
      connection_origin_ms = capture_origin_ms, sent_frames = [], finalize_marks = [],
      provider_lead = []\<rparr>"

definition begin_provider_clock :: "recovery_state \<Rightarrow> recovery_state" where
  "begin_provider_clock r = r\<lparr>finalize_marks := [], provider_lead := []\<rparr>"

definition note_finalize_sent :: "recovery_state \<Rightarrow> recovery_state" where
  "note_finalize_sent r =
     r\<lparr>finalize_marks := finalize_marks r @ [next_audio_ms r - connection_origin_ms r]\<rparr>"

definition lead_at :: "recovery_state \<Rightarrow> u64 \<Rightarrow> u64" where
  "lead_at r provider_ms =
     (case find (\<lambda>(from_ms, _). from_ms \<le> provider_ms) (rev (provider_lead r)) of
        None \<Rightarrow> 0 | Some (_, lead_ms) \<Rightarrow> lead_ms)"

definition FINALIZE_ANSWER_STEP_MS :: u64 where
  "FINALIZE_ANSWER_STEP_MS = 1000"

fun pop_stale_marks :: "u64 \<Rightarrow> u64 list \<Rightarrow> u64 list" where
  "pop_stale_marks heard_ms (oldest # second # marks) =
     (if heard_ms - oldest > FINALIZE_ANSWER_STEP_MS \<and> second \<le> heard_ms
      then pop_stale_marks heard_ms (second # marks) else oldest # second # marks)"
| "pop_stale_marks heard_ms marks = marks"

definition note_finalize_answered :: "u64 \<Rightarrow> recovery_state \<Rightarrow> recovery_state" where
  "note_finalize_answered provider_total_ms r =
     (let heard_ms = provider_total_ms - lead_at r provider_total_ms
      in case pop_stale_marks heard_ms (finalize_marks r) of
           [] \<Rightarrow> r\<lparr>finalize_marks := []\<rparr>
         | sent_ms # marks \<Rightarrow>
             (let lead_ms = provider_total_ms - sent_ms; r' = r\<lparr>finalize_marks := marks\<rparr>
              in if lead_ms > lead_at r' provider_total_ms
                 then r'\<lparr>provider_lead := provider_lead r' @ [(provider_total_ms, lead_ms)]\<rparr>
                 else r'))"

definition capture_ms :: "recovery_state \<Rightarrow> u64 \<Rightarrow> u64" where
  "capture_ms r provider_ms =
     sat_add (connection_origin_ms r) (provider_ms - lead_at r provider_ms)"

definition block_ms :: "nat \<Rightarrow> u64" where
  "block_ms pcm_len = max (div_ceil pcm_len PCM_BYTES_PER_MILLISECOND) 1"

definition drop_frames_until :: "u64 \<Rightarrow> recovery_state \<Rightarrow> recovery_state" where
  "drop_frames_until retain_from r =
     r\<lparr>sent_frames := dropWhile (\<lambda>frame. end_ms frame \<le> retain_from) (sent_frames r)\<rparr>"

definition replay_horizon_ms :: u64 where
  "replay_horizon_ms = as_millis (CONTINUITY_WINDOW + REPLAY_OVERLAP)"

definition drop_unreplayable_frames :: "recovery_state \<Rightarrow> recovery_state" where
  "drop_unreplayable_frames r =
     (if next_audio_ms r < replay_horizon_ms then r
      else drop_frames_until (next_audio_ms r - replay_horizon_ms) r)"

definition record_sent :: "pcm \<Rightarrow> recovery_state \<Rightarrow> recovery_state" where
  "record_sent pcm r =
     (let frame = \<lparr>end_ms = sat_add (next_audio_ms r) (block_ms (length pcm)), frame_pcm = pcm\<rparr>
      in drop_unreplayable_frames
           (r\<lparr>next_audio_ms := end_ms frame, sent_frames := sent_frames r @ [frame]\<rparr>))"

definition overlap_ms :: u64 where
  "overlap_ms = as_millis REPLAY_OVERLAP"

definition acknowledge :: "u64 \<Rightarrow> recovery_state \<Rightarrow> (u64 \<times> u64) \<times> recovery_state" where
  "acknowledge provider_total_ms r =
     (let acknowledged = min (capture_ms r provider_total_ms) (next_audio_ms r);
          r1 = r\<lparr>acknowledged_ms := max (acknowledged_ms r) acknowledged\<rparr>;
          r2 = drop_frames_until (acknowledged_ms r1 - overlap_ms) r1
      in ((acknowledged_ms r2, next_audio_ms r2 - acknowledged_ms r2), r2))"

definition re_anchor_to_live_edge :: "recovery_state \<Rightarrow> recovery_state" where
  "re_anchor_to_live_edge r =
     begin_provider_clock
       (r\<lparr>sent_frames := [], acknowledged_ms := next_audio_ms r,
          connection_origin_ms := next_audio_ms r\<rparr>)"

definition prepare_replay :: "duration \<Rightarrow> recovery_state \<Rightarrow> replay_frame list \<times> recovery_state" where
  "prepare_replay outage r =
     (if outage > CONTINUITY_WINDOW then
        ([], begin_provider_clock
               (r\<lparr>sent_frames := [], acknowledged_ms := next_audio_ms r,
                  connection_origin_ms := next_audio_ms r\<rparr>))
      else
        (let replay_from = acknowledged_ms r - overlap_ms
         in (filter (\<lambda>frame. end_ms frame > replay_from) (sent_frames r),
             begin_provider_clock (r\<lparr>connection_origin_ms := replay_from\<rparr>))))"

definition replay_duplicate_until_provider_ms :: "recovery_state \<Rightarrow> u64" where
  "replay_duplicate_until_provider_ms r = acknowledged_ms r - connection_origin_ms r"

definition note_discarded :: "nat \<Rightarrow> recovery_state \<Rightarrow> recovery_state" where
  "note_discarded pcm_len r = r\<lparr>next_audio_ms := sat_add (next_audio_ms r) (block_ms pcm_len)\<rparr>"

definition sent_backlog :: "recovery_state \<Rightarrow> duration" where
  "sent_backlog r = millis (next_audio_ms r - acknowledged_ms r)"

text \<open>The branch of \<open>run_stream_session\<close> for a first connection: the clock starts where the
  timeline stands.\<close>

definition first_connection :: "recovery_state \<Rightarrow> recovery_state" where
  "first_connection r = begin_provider_clock (r\<lparr>connection_origin_ms := next_audio_ms r\<rparr>)"

section \<open>Tokens and the replay filter\<close>

record token_wire =
  token_text :: ustring
  token_start_ms :: "u64 option"
  token_end_ms :: "u64 option"
  token_is_final :: bool
  token_confidence :: "real option"
  token_translation_status :: "ustring option"
  token_language :: "ustring option"
  token_source_language :: "ustring option"
  token_speaker :: "ustring option"

record replay_suppression =
  until_provider_ms :: u64
  last_final_source_replayed :: bool

definition no_suppression :: replay_suppression where
  "no_suppression = \<lparr>until_provider_ms = 0, last_final_source_replayed = False\<rparr>"

definition after_replay :: "u64 \<Rightarrow> replay_suppression" where
  "after_replay until = \<lparr>until_provider_ms = until, last_final_source_replayed = True\<rparr>"

definition is_translation :: "token_wire \<Rightarrow> bool" where
  "is_translation t \<longleftrightarrow> token_translation_status t = Some (lit ''translation'')"

definition was_replayed :: "u64 \<Rightarrow> token_wire \<Rightarrow> bool" where
  "was_replayed until t = option_ok (\<lambda>e. e \<le> until) (token_end_ms t)"

text \<open>The \<open>retain\<close> closure: the tokens kept, and \<open>last_final_replayed\<close> after the last token.\<close>

fun retain_tokens :: "u64 \<Rightarrow> token_wire list \<Rightarrow> bool \<Rightarrow> bool \<Rightarrow> token_wire list \<times> bool" where
  "retain_tokens until [] last_final_replayed last_replayed = ([], last_final_replayed)"
| "retain_tokens until (t # ts) last_final_replayed last_replayed =
     (if is_translation t then
        (let (kept, final) = retain_tokens until ts last_final_replayed last_replayed
         in (if last_replayed then kept else t # kept, final))
      else
        (let replayed = was_replayed until t;
             (kept, final) = retain_tokens until ts
               (if token_is_final t then replayed else last_final_replayed) replayed
         in (if replayed then kept else t # kept, final)))"

definition suppression_filter ::
    "token_wire list \<Rightarrow> u64 option \<Rightarrow> replay_suppression \<Rightarrow> token_wire list \<times> replay_suppression" where
  "suppression_filter tokens final_audio_proc_ms s =
     (if until_provider_ms s = 0 then (tokens, s)
      else
        (let (kept, final) = retain_tokens (until_provider_ms s) tokens
               (last_final_source_replayed s) (last_final_source_replayed s);
             s' = s\<lparr>last_final_source_replayed := final\<rparr>
         in (kept, if option_ok (\<lambda>p. until_provider_ms s \<le> p) final_audio_proc_ms \<and> \<not> final
                   then no_suppression else s')))"

section \<open>Long utterances and hand-overs\<close>

record utterance_closer =
  open_from_ms :: u64
  voiced_until_ms :: u64
  quiet_ms :: u64
  pending :: bool
  pending_since_ms :: u64

definition LONG_UTTERANCE_MS :: u64 where
  "LONG_UTTERANCE_MS = 10000"

definition LONG_UTTERANCE_PAUSE_MS :: u64 where
  "LONG_UTTERANCE_PAUSE_MS = 200"

definition FINALIZE_ANSWER_TIMEOUT_MS :: u64 where
  "FINALIZE_ANSWER_TIMEOUT_MS = 1500"

definition closer_starting_at :: "u64 \<Rightarrow> utterance_closer" where
  "closer_starting_at at_ms =
     \<lparr>open_from_ms = at_ms, voiced_until_ms = at_ms, quiet_ms = 0, pending = False,
      pending_since_ms = 0\<rparr>"

definition closer_boundary :: "u64 \<Rightarrow> utterance_closer \<Rightarrow> utterance_closer" where
  "closer_boundary at_ms c = c\<lparr>open_from_ms := at_ms, pending := False\<rparr>"

definition closer_sent ::
    "bool \<Rightarrow> u64 \<Rightarrow> u64 \<Rightarrow> u64 \<Rightarrow> utterance_closer \<Rightarrow> bool \<times> utterance_closer" where
  "closer_sent quiet block end_at heard c =
     (let c1 = (if quiet then c\<lparr>quiet_ms := sat_add (quiet_ms c) block\<rparr>
                else c\<lparr>quiet_ms := 0, voiced_until_ms := end_at\<rparr>);
          c2 = (if pending c1 \<and> heard - pending_since_ms c1 \<ge> FINALIZE_ANSWER_TIMEOUT_MS
                then c1\<lparr>pending := False\<rparr> else c1);
          long = (voiced_until_ms c2 - open_from_ms c2 \<ge> LONG_UTTERANCE_MS)
      in if pending c2 \<or> \<not> long \<or> quiet_ms c2 < LONG_UTTERANCE_PAUSE_MS then (False, c2)
         else (True, c2\<lparr>pending := True, pending_since_ms := end_at\<rparr>))"

record handover_schedule =
  watch_from :: instant
  hand_over_by :: instant

definition for_cap :: "instant \<Rightarrow> duration \<Rightarrow> stream_timeouts \<Rightarrow> handover_schedule" where
  "for_cap dialed_at cap timeouts =
     (let lead = min (handover_lead timeouts) (cap div 4);
          margin = min (handover_deadline_margin timeouts) (cap div 10);
          cap_at = dialed_at + cap
      in \<lparr>watch_from = cap_at - lead, hand_over_by = cap_at - margin\<rparr>)"

section \<open>Quiet blocks\<close>

definition QUIET_BLOCK_FRACTION :: real where
  "QUIET_BLOCK_FRACTION = 1 / 10"

definition QUIET_BLOCK_FLOOR :: real where
  "QUIET_BLOCK_FLOOR = 100"

text \<open>\<open>i16::from_le_bytes\<close>.\<close>

definition sample_of :: "8 word \<Rightarrow> 8 word \<Rightarrow> int" where
  "sample_of lo hi = (let u = uint lo + 256 * uint hi in if 32768 \<le> u then u - 65536 else u)"

fun samples_of :: "pcm \<Rightarrow> int list" where
  "samples_of (lo # hi # pcm) = sample_of lo hi # samples_of pcm"
| "samples_of _ = []"

definition rms_of :: "pcm \<Rightarrow> real" where
  "rms_of pcm = sqrt (real_of_int (\<Sum>s\<leftarrow>samples_of pcm. s * s) / real (length pcm div 2))"

text \<open>\<open>QuietBlockDetector::observe\<close>; the detector is its \<open>level\<close>.\<close>

definition observe_block :: "pcm \<Rightarrow> real \<Rightarrow> bool \<times> real" where
  "observe_block pcm level =
     (if length pcm div 2 = 0 then (False, level)
      else
        (let rms = rms_of pcm
         in (rms \<le> QUIET_BLOCK_FLOOR \<or> rms \<le> level * QUIET_BLOCK_FRACTION,
             if level = 0 then rms else level * (95 / 100) + rms * (5 / 100))))"

section \<open>Runs of the clock\<close>

text \<open>Every operation the session performs on its \<open>StreamRecoveryState\<close>, as an event.\<close>

datatype clock_event =
    RecordSent pcm | Acknowledge u64 | Discard nat | Replay duration | ReAnchor
  | FirstConnection | FinalizeSent | FinalizeAnswered u64

fun clock_step :: "clock_event \<Rightarrow> recovery_state \<Rightarrow> recovery_state" where
  "clock_step (RecordSent pcm) r = record_sent pcm r"
| "clock_step (Acknowledge p) r = snd (acknowledge p r)"
| "clock_step (Discard n) r = note_discarded n r"
| "clock_step (Replay outage) r = snd (prepare_replay outage r)"
| "clock_step ReAnchor r = re_anchor_to_live_edge r"
| "clock_step FirstConnection r = first_connection r"
| "clock_step FinalizeSent r = note_finalize_sent r"
| "clock_step (FinalizeAnswered p) r = note_finalize_answered p r"

definition clock_run :: "clock_event list \<Rightarrow> recovery_state \<Rightarrow> recovery_state" where
  "clock_run es r = fold clock_step es r"

lemmas clock_defs = begin_provider_clock_def note_finalize_sent_def drop_frames_until_def
  drop_unreplayable_frames_def record_sent_def acknowledge_def re_anchor_to_live_edge_def
  prepare_replay_def note_discarded_def first_connection_def starting_at_def

lemma overlap_ms_eq [simp]: "overlap_ms = 2000"
  by (simp add: overlap_ms_def window_defs as_millis_def)

lemma replay_horizon_ms_eq [simp]: "replay_horizon_ms = 17000"
  by (simp add: replay_horizon_ms_def window_defs as_millis_def)

lemma block_ms_pos [simp]: "1 \<le> block_ms n" "0 < block_ms n"
  by (simp_all add: block_ms_def)

definition recovery_ok :: "recovery_state \<Rightarrow> bool" where
  "recovery_ok r \<longleftrightarrow>
     next_audio_ms r \<le> u64_max \<and> acknowledged_ms r \<le> next_audio_ms r \<and>
     connection_origin_ms r \<le> next_audio_ms r \<and>
     sorted (map end_ms (sent_frames r)) \<and> (\<forall>f \<in> set (sent_frames r). end_ms f \<le> next_audio_ms r) \<and>
     (next_audio_ms r < u64_max \<longrightarrow> sorted_wrt (<) (map end_ms (sent_frames r)))"

lemma recovery_ok_drop:
  "recovery_ok r \<Longrightarrow> recovery_ok (drop_frames_until n r)"
  unfolding recovery_ok_def drop_frames_until_def
  by (auto simp: sorted_wrt_map dest: set_dropWhileD intro: sorted_wrt_dropWhile)

lemma note_finalize_answered_frame [simp]:
  "next_audio_ms (note_finalize_answered n r) = next_audio_ms r"
  "acknowledged_ms (note_finalize_answered n r) = acknowledged_ms r"
  "connection_origin_ms (note_finalize_answered n r) = connection_origin_ms r"
  "sent_frames (note_finalize_answered n r) = sent_frames r"
  by (simp_all add: note_finalize_answered_def Let_def split: list.splits)

lemma sat_add_gt: "0 < b \<Longrightarrow> sat_add a b < u64_max \<Longrightarrow> a < sat_add a b"
  by (simp add: sat_add_def)

lemma recovery_ok_record:
  assumes "recovery_ok r" shows "recovery_ok (record_sent pcm r)"
proof -
  let ?e = "sat_add (next_audio_ms r) (block_ms (length pcm))"
  let ?r = "r\<lparr>next_audio_ms := ?e, sent_frames := sent_frames r @ [\<lparr>end_ms = ?e, frame_pcm = pcm\<rparr>]\<rparr>"
  have ge: "next_audio_ms r \<le> ?e" using assms by (simp add: recovery_ok_def sat_add_ge)
  have "next_audio_ms r < ?e" if "?e < u64_max" using that by (rule sat_add_gt [rotated]) simp
  with ge assms have "recovery_ok ?r"
    unfolding recovery_ok_def
    by (auto simp: sorted_append sorted_wrt_append intro: le_trans)
  then show ?thesis
    by (simp add: record_sent_def drop_unreplayable_frames_def recovery_ok_drop Let_def)
qed

lemma clock_step_ok:
  assumes "recovery_ok r" shows "recovery_ok (clock_step e r)"
proof (cases e)
  case (RecordSent pcm)
  with assms show ?thesis by (simp add: recovery_ok_record)
next
  case (Acknowledge p)
  have "recovery_ok (r\<lparr>acknowledged_ms := max (acknowledged_ms r)
      (min (capture_ms r p) (next_audio_ms r))\<rparr>)"
    using assms by (auto simp: recovery_ok_def)
  with Acknowledge show ?thesis by (simp add: acknowledge_def Let_def recovery_ok_drop)
next
  case (Discard n)
  have "next_audio_ms r \<le> sat_add (next_audio_ms r) (block_ms n)"
    using assms by (simp add: recovery_ok_def sat_add_ge)
  with assms Discard show ?thesis
    by (auto simp: recovery_ok_def note_discarded_def intro: le_trans less_le_trans)
qed (use assms in \<open>auto simp: recovery_ok_def clock_defs Let_def\<close>)

lemma clock_step_mono:
  assumes "recovery_ok r"
  shows "next_audio_ms r \<le> next_audio_ms (clock_step e r)"
    and "acknowledged_ms r \<le> acknowledged_ms (clock_step e r)"
  using assms
  by (cases e; simp add: clock_defs Let_def recovery_ok_def sat_add_ge)+

lemma clock_run_ok:
  "recovery_ok r \<Longrightarrow> recovery_ok (clock_run es r) \<and> next_audio_ms r \<le> next_audio_ms (clock_run es r) \<and>
     acknowledged_ms r \<le> acknowledged_ms (clock_run es r)"
proof (induction es arbitrary: r)
  case Nil
  then show ?case by (simp add: clock_run_def)
next
  case (Cons e es)
  then show ?case
    using Cons.IH [OF clock_step_ok [OF Cons.prems, of e]] clock_step_mono [OF Cons.prems, of e]
    by (auto simp: clock_run_def)
qed

lemma starting_at_ok: "origin \<le> u64_max \<Longrightarrow> recovery_ok (starting_at origin)"
  by (simp add: recovery_ok_def starting_at_def)

section \<open>What a replay holds\<close>

text \<open>
  The history of a run: every frame sent since the timeline was last re-anchored. The replay buffer
  is a suffix of it; what is missing was acknowledged, or is older than any replay can reach.
\<close>

fun history_step :: "clock_event \<Rightarrow> replay_frame list \<times> recovery_state \<Rightarrow> replay_frame list \<times> recovery_state" where
  "history_step e (h, r) =
     ((case e of
         RecordSent pcm \<Rightarrow>
           h @ [\<lparr>end_ms = sat_add (next_audio_ms r) (block_ms (length pcm)), frame_pcm = pcm\<rparr>]
       | Replay outage \<Rightarrow> if outage > CONTINUITY_WINDOW then [] else h
       | ReAnchor \<Rightarrow> []
       | _ \<Rightarrow> h), clock_step e r)"

definition history_run :: "clock_event list \<Rightarrow> recovery_state \<Rightarrow> replay_frame list \<times> recovery_state" where
  "history_run es r = fold history_step es ([], r)"

definition given_up :: "recovery_state \<Rightarrow> replay_frame \<Rightarrow> bool" where
  "given_up r f \<longleftrightarrow> end_ms f \<le> acknowledged_ms r - 2000 \<or> end_ms f + 17000 \<le> next_audio_ms r"

definition history_ok :: "replay_frame list \<times> recovery_state \<Rightarrow> bool" where
  "history_ok = (\<lambda>(h, r). recovery_ok r \<and>
     (\<exists>old. h = old @ sent_frames r \<and> (\<forall>f \<in> set old. given_up r f)))"

lemma given_up_mono:
  "given_up r f \<Longrightarrow> acknowledged_ms r \<le> acknowledged_ms r' \<Longrightarrow> next_audio_ms r \<le> next_audio_ms r' \<Longrightarrow>
     given_up r' f"
  by (auto simp: given_up_def)

lemma history_drop:
  assumes "h = old @ fs" "\<forall>f \<in> set old. Q f" "\<And>f. p f \<Longrightarrow> Q f"
  shows "\<exists>old'. h = old' @ dropWhile p fs \<and> (\<forall>f \<in> set old'. Q f)"
  using assms
  by (intro exI [of _ "old @ takeWhile p fs"]) (auto dest: set_takeWhileD)

lemma history_step_keep:
  assumes "history_ok (h, r)" and "sent_frames (clock_step e r) = sent_frames r"
  shows "history_ok (h, clock_step e r)"
proof -
  from assms(1) obtain old where ok: "recovery_ok r" and h: "h = old @ sent_frames r"
    and old: "\<forall>f \<in> set old. given_up r f" by (auto simp: history_ok_def)
  have "\<forall>f \<in> set old. given_up (clock_step e r) f"
    using old clock_step_mono [OF ok, of e] by (auto intro: given_up_mono)
  with h assms(2) clock_step_ok [OF ok, of e] show ?thesis by (auto simp: history_ok_def)
qed

lemma record_sent_frames:
  "sent_frames (record_sent pcm r) =
     (let f = \<lparr>end_ms = sat_add (next_audio_ms r) (block_ms (length pcm)), frame_pcm = pcm\<rparr>
      in dropWhile (\<lambda>g. 17000 \<le> end_ms f \<and> end_ms g \<le> end_ms f - 17000) (sent_frames r @ [f]))"
  "next_audio_ms (record_sent pcm r) = sat_add (next_audio_ms r) (block_ms (length pcm))"
proof -
  have false: "dropWhile (\<lambda>g. False \<and> P g) xs = xs" for P :: "replay_frame \<Rightarrow> bool" and xs
    by (cases xs) auto
  show "next_audio_ms (record_sent pcm r) = sat_add (next_audio_ms r) (block_ms (length pcm))"
    by (simp add: record_sent_def drop_unreplayable_frames_def drop_frames_until_def Let_def)
  show "sent_frames (record_sent pcm r) =
     (let f = \<lparr>end_ms = sat_add (next_audio_ms r) (block_ms (length pcm)), frame_pcm = pcm\<rparr>
      in dropWhile (\<lambda>g. 17000 \<le> end_ms f \<and> end_ms g \<le> end_ms f - 17000) (sent_frames r @ [f]))"
    using false by (auto simp: record_sent_def drop_unreplayable_frames_def drop_frames_until_def Let_def not_le)
qed

lemma acknowledge_frames:
  "sent_frames (snd (acknowledge p r)) =
     dropWhile (\<lambda>f. end_ms f \<le> acknowledged_ms (snd (acknowledge p r)) - 2000) (sent_frames r)"
  by (simp add: acknowledge_def drop_frames_until_def Let_def)

lemma history_step_ok:
  assumes "history_ok hr" shows "history_ok (history_step e hr)"
proof -
  obtain h r where hr: "hr = (h, r)" by (cases hr)
  with assms have ok: "recovery_ok r" by (simp add: history_ok_def)
  then have ok': "recovery_ok (clock_step e r)" by (rule clock_step_ok)
  from assms hr obtain old where h: "h = old @ sent_frames r" and old: "\<forall>f \<in> set old. given_up r f"
    by (auto simp: history_ok_def)
  have old': "\<forall>f \<in> set old. given_up (clock_step e r) f"
    using old clock_step_mono [OF ok, of e] by (auto intro: given_up_mono)
  show ?thesis
  proof (cases e)
    case (RecordSent pcm)
    let ?f = "\<lparr>end_ms = sat_add (next_audio_ms r) (block_ms (length pcm)), frame_pcm = pcm\<rparr>"
    have "\<exists>old'. h @ [?f] = old' @ sent_frames (record_sent pcm r) \<and>
        (\<forall>f \<in> set old'. given_up (record_sent pcm r) f)"
      unfolding record_sent_frames Let_def
      using h old' RecordSent
      by (intro history_drop [where old = old]) (auto simp: given_up_def record_sent_frames(2))
    with ok' RecordSent show ?thesis by (simp add: hr history_ok_def)
  next
    case (Acknowledge p)
    have "\<exists>old'. h = old' @ sent_frames (snd (acknowledge p r)) \<and>
        (\<forall>f \<in> set old'. given_up (snd (acknowledge p r)) f)"
      unfolding acknowledge_frames
      using h old' Acknowledge by (intro history_drop [where old = old]) (auto simp: given_up_def)
    with ok' Acknowledge show ?thesis by (simp add: hr history_ok_def)
  next
    case (Replay outage)
    show ?thesis
    proof (cases "outage > CONTINUITY_WINDOW")
      case True
      with ok' Replay show ?thesis
        by (simp add: hr history_ok_def prepare_replay_def begin_provider_clock_def)
    next
      case False
      then have "sent_frames (clock_step e r) = sent_frames r"
        by (simp add: Replay prepare_replay_def begin_provider_clock_def Let_def)
      with assms hr have "history_ok (h, clock_step e r)" by (simp add: history_step_keep)
      with False Replay show ?thesis by (simp add: hr)
    qed
  next
    case ReAnchor
    with ok' show ?thesis
      by (simp add: hr history_ok_def re_anchor_to_live_edge_def begin_provider_clock_def)
  next
    case (Discard n)
    then have "sent_frames (clock_step e r) = sent_frames r" by (simp add: note_discarded_def)
    with assms hr Discard history_step_keep [of h r e] show ?thesis by simp
  next
    case FirstConnection
    then have "sent_frames (clock_step e r) = sent_frames r"
      by (simp add: first_connection_def begin_provider_clock_def)
    with assms hr FirstConnection history_step_keep [of h r e] show ?thesis by simp
  next
    case FinalizeSent
    then have "sent_frames (clock_step e r) = sent_frames r" by (simp add: note_finalize_sent_def)
    with assms hr FinalizeSent history_step_keep [of h r e] show ?thesis by simp
  next
    case (FinalizeAnswered p)
    with assms hr history_step_keep [of h r e] show ?thesis by simp
  qed
qed

lemma history_run_ok: "origin \<le> u64_max \<Longrightarrow> history_ok (history_run es (starting_at origin))"
proof -
  have "history_ok hr \<Longrightarrow> history_ok (fold history_step es hr)" for hr
    by (induction es arbitrary: hr) (simp_all add: history_step_ok del: history_step.simps)
  moreover assume "origin \<le> u64_max"
  then have "history_ok ([], starting_at origin)"
    by (simp add: history_ok_def starting_at_ok) (simp add: starting_at_def)
  ultimately show ?thesis by (simp add: history_run_def)
qed

lemma history_run_state: "snd (history_run es r) = clock_run es r"
proof -
  have "snd (fold history_step es hr) = fold clock_step es (snd hr)" for hr
    by (induction es arbitrary: hr) (auto split: prod.splits)
  then show ?thesis by (simp add: history_run_def clock_run_def)
qed

section \<open>Properties\<close>

text \<open>Over any sequence of operations the capture timeline only moves forward: the sent edge and
  the acknowledged point never go back, the acknowledged point never passes the sent edge, and the
  replay buffer stays in timeline order inside it.\<close>

lemma timeline_monotone:
  assumes "origin \<le> u64_max"
  shows "recovery_ok (clock_run es (starting_at origin)) \<and>
    next_audio_ms (clock_run es (starting_at origin)) \<le> next_audio_ms (clock_run (es @ fs) (starting_at origin)) \<and>
    acknowledged_ms (clock_run es (starting_at origin)) \<le>
      acknowledged_ms (clock_run (es @ fs) (starting_at origin))"
proof -
  have ok: "recovery_ok (clock_run es (starting_at origin))"
    using clock_run_ok [OF starting_at_ok [OF assms]] by simp
  have "clock_run (es @ fs) (starting_at origin) = clock_run fs (clock_run es (starting_at origin))"
    by (simp add: clock_run_def)
  with ok clock_run_ok [OF ok, of fs] show ?thesis by simp
qed


lemmas clock_eval = clock_defs block_ms_def div_ceil_def PCM_BYTES_PER_MILLISECOND_def sat_add_def
  u64_max_def capture_ms_def lead_at_def Let_def sent_backlog_def millis_def window_defs


text \<open>C40. The replay buffer is bounded whatever the provider acknowledges: after every block sent it
  reaches back less than 17 seconds, and holds at most one frame per millisecond of them.\<close>

theorem replay_buffer_bounded:
  assumes "recovery_ok r" and "next_audio_ms (record_sent pcm r) < u64_max"
  shows "(\<forall>f \<in> set (sent_frames (record_sent pcm r)). next_audio_ms (record_sent pcm r) < end_ms f + 17000) \<and>
    length (sent_frames (record_sent pcm r)) \<le> 17000"
proof -
  let ?r = "record_sent pcm r"
  let ?n = "next_audio_ms ?r"
  let ?f = "\<lparr>end_ms = ?n, frame_pcm = pcm\<rparr>"
  have ok: "recovery_ok ?r" using assms(1) by (rule recovery_ok_record)
  have sorted: "sorted (map end_ms (sent_frames r @ [?f]))"
    using assms(1) by (auto simp: recovery_ok_def record_sent_frames(2) sorted_append intro: le_trans sat_add_ge)
  have frames: "sent_frames ?r = dropWhile (\<lambda>g. 17000 \<le> ?n \<and> end_ms g \<le> ?n - 17000) (sent_frames r @ [?f])"
    by (simp add: record_sent_frames Let_def)
  have recent: "?n < end_ms f + 17000" if f: "f \<in> set (sent_frames ?r)" for f
  proof -
    from f obtain g gs where gs: "sent_frames ?r = g # gs" by (cases "sent_frames ?r") auto
    then have "\<not> (17000 \<le> ?n \<and> end_ms g \<le> ?n - 17000)"
      by (metis frames hd_dropWhile list.distinct(1) list.sel(1))
    moreover have "end_ms g \<le> end_ms f"
      using f ok gs by (auto simp: recovery_ok_def)
    ultimately show ?thesis by linarith
  qed
  have "sorted_wrt (<) (map end_ms (sent_frames ?r))"
    using ok assms(2) by (simp add: recovery_ok_def)
  then have "distinct (map end_ms (sent_frames ?r))"
    using strict_sorted_iff by blast
  then have "length (sent_frames ?r) = card (set (map end_ms (sent_frames ?r)))"
    by (metis distinct_card length_map)
  also have "\<dots> \<le> card {Suc ?n - 17000..?n}"
    using recent ok by (intro card_mono) (fastforce simp: recovery_ok_def)+
  also have "\<dots> \<le> 17000" by simp
  finally show ?thesis using recent by blast
qed

theorem replay_buffer_bounded_witness:
  "length (sent_frames (record_sent [0] (starting_at 90000))) \<le> 17000"
proof -
  have h: "recovery_ok (starting_at 90000)" "next_audio_ms (record_sent [0] (starting_at 90000)) < u64_max"
    by (rule starting_at_ok) (simp_all add: clock_eval)
  show ?thesis using replay_buffer_bounded [OF h] by blast
qed

text \<open>An answered finalize calibrates the provider's clock: when the oldest outstanding finalize is
  the one answered and the provider added time, the position it reports is put back exactly where the
  audio stood when that finalize went out.\<close>

lemma finalize_answer_calibrates:
  assumes "finalize_marks r = m # ms" and "lead_at r p < p - m"
    and "p - lead_at r p - m \<le> 1000"
  shows "capture_ms (note_finalize_answered p r) p = sat_add (connection_origin_ms r) m \<and>
    finalize_marks (note_finalize_answered p r) = ms"
proof -
  have pop: "pop_stale_marks (p - lead_at r p) (finalize_marks r) = m # ms"
    using assms(1,3) by (cases ms) (auto simp: FINALIZE_ANSWER_STEP_MS_def)
  have lead: "lead_at (r\<lparr>finalize_marks := xs\<rparr>) p = lead_at r p" for xs
    by (simp add: lead_at_def)
  let ?r = "note_finalize_answered p r"
  have r: "?r = r\<lparr>finalize_marks := ms, provider_lead := provider_lead r @ [(p, p - m)]\<rparr>"
    using assms(2) by (simp add: note_finalize_answered_def pop lead Let_def)
  have "lead_at ?r p = p - m" by (simp add: r lead_at_def)
  with assms(2) show ?thesis by (simp add: capture_ms_def r)
qed

text \<open>A lane's blocks one after the other, without a boundary between them: what the closer says to
  each.\<close>

fun closer_run ::
    "(bool \<times> u64 \<times> u64 \<times> u64) list \<Rightarrow> utterance_closer \<Rightarrow> bool list \<times> utterance_closer" where
  "closer_run [] c = ([], c)"
| "closer_run ((quiet, block, end_at, heard) # blocks) c =
     (let (ask, c') = closer_sent quiet block end_at heard c; (asks, c'') = closer_run blocks c'
      in (ask # asks, c''))"

lemma closer_run_fst [simp]:
  "fst (closer_run [] c) = []"
  "fst (closer_run ((quiet, block, end_at, heard) # blocks) c) =
     fst (closer_sent quiet block end_at heard c) #
     fst (closer_run blocks (snd (closer_sent quiet block end_at heard c)))"
  by (simp_all add: Let_def split_beta)

declare closer_run.simps [simp del]

lemma closer_sent_pending:
  assumes "pending c" and "heard < pending_since_ms c + 1500"
  shows "\<not> fst (closer_sent quiet block end_at heard c) \<and>
    pending (snd (closer_sent quiet block end_at heard c)) \<and>
    pending_since_ms (snd (closer_sent quiet block end_at heard c)) = pending_since_ms c"
  using assms by (auto simp: closer_sent_def Let_def FINALIZE_ANSWER_TIMEOUT_MS_def)

lemma closer_run_pending:
  assumes "pending c" and "\<forall>(quiet, block, end_at, heard) \<in> set blocks. heard < pending_since_ms c + 1500"
  shows "True \<notin> set (fst (closer_run blocks c))"
  using assms
proof (induction blocks arbitrary: c)
  case Nil
  then show ?case by simp
next
  case (Cons b blocks)
  obtain quiet block end_at heard where b: "b = (quiet, block, end_at, heard)" by (cases b)
  obtain ask c' where step: "closer_sent quiet block end_at heard c = (ask, c')"
    by (cases "closer_sent quiet block end_at heard c")
  with closer_sent_pending [of c heard quiet block end_at] Cons.prems b
  have "\<not> ask" "pending c'" "pending_since_ms c' = pending_since_ms c" by auto
  with Cons.IH [of c'] Cons.prems(2) show ?case by (simp add: b step)
qed

text \<open>A long utterance is closed only in a pause and never twice at once: the closer asks for a
  finalize only on a quiet block that completes 200 ms of silence after ten seconds of speech since
  the last boundary, and having asked it asks for no other before the next boundary until the
  provider has heard 1.5 s past the question without answering.\<close>

lemma closer_asks_once:
  assumes "closer_sent quiet block end_at heard c = (True, c')"
    and "\<forall>(q, b, e, h) \<in> set blocks. h < end_at + 1500"
  shows "quiet \<and> LONG_UTTERANCE_PAUSE_MS \<le> quiet_ms c' \<and>
    LONG_UTTERANCE_MS \<le> voiced_until_ms c' - open_from_ms c' \<and>
    True \<notin> set (fst (closer_run blocks c'))"
proof -
  have c': "pending c'" "pending_since_ms c' = end_at" and quiet: quiet
    and long: "LONG_UTTERANCE_PAUSE_MS \<le> quiet_ms c'" "LONG_UTTERANCE_MS \<le> voiced_until_ms c' - open_from_ms c'"
    using assms(1)
    by (auto simp: closer_sent_def Let_def LONG_UTTERANCE_PAUSE_MS_def not_less split: if_splits)
  have "True \<notin> set (fst (closer_run blocks c'))"
    using c' assms(2) by (intro closer_run_pending) simp_all
  with quiet long show ?thesis by blast
qed

text \<open>The lane starts to look for a pause only in the last quarter of a key's cap, then has until
  the last tenth of it, and always hands over before the cap itself.\<close>

lemma handover_before_cap:
  "let s = for_cap dialed_at cap default_timeouts in
     dialed_at + cap \<le> watch_from s + cap div 4 \<and> watch_from s \<le> hand_over_by s \<and>
     dialed_at + cap \<le> hand_over_by s + cap div 10 \<and> hand_over_by s \<le> dialed_at + cap \<and>
     watch_from s + seconds 60 \<ge> dialed_at + cap \<and> hand_over_by s + seconds 15 \<ge> dialed_at + cap"
proof -
  define lead where "lead = min (seconds 60) (cap div 4)"
  define margin where "margin = min (seconds 15) (cap div 10)"
  have tenth: "cap div 10 \<le> cap div 4" and quarter: "cap div 4 \<le> cap" by (simp_all add: div_le_mono2)
  have order: "margin \<le> lead"
    unfolding lead_def margin_def using tenth by (intro min.mono) (simp_all add: seconds_def)
  have bounds: "lead \<le> cap div 4" "lead \<le> seconds 60" "margin \<le> cap div 10" "margin \<le> seconds 15"
    by (simp_all add: lead_def margin_def)
  obtain w b where wb: "w + lead = dialed_at + cap" "b + margin = dialed_at + cap"
    using bounds tenth quarter by (metis le_add_diff_inverse2 le_trans trans_le_add2)
  then have "w = dialed_at + cap - lead" "b = dialed_at + cap - margin" by linarith+
  then have "for_cap dialed_at cap default_timeouts = \<lparr>watch_from = w, hand_over_by = b\<rparr>"
    by (simp add: for_cap_def default_timeouts_def lead_def margin_def HANDOVER_LEAD_def
        HANDOVER_DEADLINE_MARGIN_def Let_def)
  then show ?thesis
    unfolding Let_def using order bounds wb by simp
qed

lemma retain_fst [simp]:
  "fst (retain_tokens until [] lf lr) = []"
  "fst (retain_tokens until (t # ts) lf lr) =
     (if is_translation t then (if lr then [] else [t]) @ fst (retain_tokens until ts lf lr)
      else (if was_replayed until t then [] else [t]) @
        fst (retain_tokens until ts (if token_is_final t then was_replayed until t else lf)
          (was_replayed until t)))"
  by (simp_all add: Let_def split_beta)

declare retain_tokens.simps [simp del]

lemma retain_tokens_subseq: "subseq (fst (retain_tokens until ts lf lr)) ts"
  by (induction ts arbitrary: lf lr) auto

lemma retain_tokens_subset: "set (fst (retain_tokens until ts lf lr)) \<subseteq> set ts"
  by (induction ts arbitrary: lf lr) auto

lemma retain_tokens_source:
  "t \<in> set (fst (retain_tokens until ts lf lr)) \<Longrightarrow> is_translation t \<or> \<not> was_replayed until t"
  by (induction ts arbitrary: lf lr) (auto split: if_splits)

lemma retain_tokens_new:
  "t \<in> set ts \<Longrightarrow> \<not> is_translation t \<Longrightarrow> \<not> was_replayed until t \<Longrightarrow>
     t \<in> set (fst (retain_tokens until ts lf lr))"
  by (induction ts arbitrary: lf lr) auto

lemma retain_translations:
  "\<forall>t \<in> set trs. is_translation t \<Longrightarrow>
     fst (retain_tokens until (trs @ rest) lf lr) =
       (if lr then [] else trs) @ fst (retain_tokens until rest lf lr)"
  by (induction trs) auto

text \<open>While a replacement connection may still repeat old words, the filter passes no source word
  that ends inside the replay, drops none that does not, and keeps the order of what it passes.\<close>

lemma suppression_passes_exactly_new_words:
  assumes "suppression_filter tokens final_ms s = (kept, s')" and "until_provider_ms s \<noteq> 0"
  shows "subseq kept tokens \<and>
    {t \<in> set kept. \<not> is_translation t} =
    {t \<in> set tokens. \<not> is_translation t \<and> \<not> was_replayed (until_provider_ms s) t}"
proof -
  have kept: "kept = fst (retain_tokens (until_provider_ms s) tokens
      (last_final_source_replayed s) (last_final_source_replayed s))"
    using assms by (simp add: suppression_filter_def Let_def split_beta)
  have sub: "subseq kept tokens" unfolding kept by (rule retain_tokens_subseq)
  have old: "t \<in> set kept \<Longrightarrow> is_translation t \<or> \<not> was_replayed (until_provider_ms s) t" for t
    unfolding kept by (rule retain_tokens_source)
  have new: "t \<in> set tokens \<Longrightarrow> \<not> is_translation t \<Longrightarrow> \<not> was_replayed (until_provider_ms s) t \<Longrightarrow>
      t \<in> set kept" for t
    unfolding kept by (rule retain_tokens_new)
  have "set kept \<subseteq> set tokens" unfolding kept using retain_tokens_subset by blast
  with sub old new show ?thesis by auto
qed

text \<open>Translations carry no timestamps, so each shares the fate of the source word it follows: the
  word and all its translations pass together or are dropped together, also when the translations
  come at the start of a later response than the final word before them.\<close>

lemma suppression_keeps_groups:
  assumes "\<forall>t \<in> set lead. is_translation t" and "\<not> is_translation src" and "\<forall>t \<in> set trs. is_translation t"
  shows "fst (retain_tokens until (lead @ src # trs @ rest) lr lr) =
    (if lr then [] else lead) @ (if was_replayed until src then [] else src # trs) @
    fst (retain_tokens until rest (if token_is_final src then was_replayed until src else lr)
      (was_replayed until src))"
  using assms by (simp add: retain_translations)

definition word_at :: "u64 \<Rightarrow> token_wire" where
  "word_at e = \<lparr>token_text = lit ''w'', token_start_ms = None, token_end_ms = Some e, token_is_final = True,
     token_confidence = None, token_translation_status = None, token_language = None,
     token_source_language = None, token_speaker = None\<rparr>"

definition translation_token :: token_wire where
  "translation_token = (word_at 0)\<lparr>token_end_ms := None, token_translation_status := Some (lit ''translation'')\<rparr>"

end
