(* ===== verification/Stream_Config.thy ===== *)
theory Stream_Config
  imports Stream_Clock
begin

text \<open>
  Crate \<open>vt-stt\<close>: the lane configuration (\<open>config.rs\<close>), the fixed capture engine
  (\<open>capture_engine.rs\<close>) and the configuration frame a connection sends first
  (\<open>build_stream_config\<close>, \<open>build_stream_context\<close> of \<open>soniox_stream.rs\<close>). A \<open>f32\<close>
  setting is a real number. The frame is the value handed to the JSON serializer.
\<close>

section \<open>Configuration\<close>

datatype translation_config =
    OneWay ustring
  | TwoWay ustring ustring

record context_config =
  context_general :: "(ustring \<times> ustring) list"
  context_text :: "ustring option"
  context_terms :: "ustring list"
  context_translation_terms :: "(ustring \<times> ustring) list"

record stt_config =
  language_hints :: "ustring list"
  language_hints_strict :: bool
  enable_language_identification :: bool
  enable_speaker_diarization :: bool
  endpoint_latency_adjustment_level :: nat
  endpoint_sensitivity :: real
  endpoint_delay_ms :: "nat option"
  translation :: "translation_config option"
  stt_context :: "context_config option"
  client_reference_id :: "ustring option"
  close_long_utterances_at_pauses :: bool

definition BALANCED_ENDPOINT_LATENCY_ADJUSTMENT_LEVEL :: nat where
  "BALANCED_ENDPOINT_LATENCY_ADJUSTMENT_LEVEL = 0"

definition BALANCED_ENDPOINT_SENSITIVITY :: real where
  "BALANCED_ENDPOINT_SENSITIVITY = 0"

definition BALANCED_MAX_ENDPOINT_DELAY_MS :: nat where
  "BALANCED_MAX_ENDPOINT_DELAY_MS = 2000"

definition resolved_max_endpoint_delay_ms :: "stt_config \<Rightarrow> nat" where
  "resolved_max_endpoint_delay_ms config =
     (case endpoint_delay_ms config of None \<Rightarrow> BALANCED_MAX_ENDPOINT_DELAY_MS | Some ms \<Rightarrow> ms)"

definition default_config :: stt_config where
  "default_config =
     \<lparr>language_hints = [], language_hints_strict = False, enable_language_identification = False,
      enable_speaker_diarization = False,
      endpoint_latency_adjustment_level = BALANCED_ENDPOINT_LATENCY_ADJUSTMENT_LEVEL,
      endpoint_sensitivity = BALANCED_ENDPOINT_SENSITIVITY, endpoint_delay_ms = None,
      translation = None, stt_context = None, client_reference_id = None,
      close_long_utterances_at_pauses = False\<rparr>"

record capture_engine =
  realtime_model_id :: ustring
  engine_audio_format :: ustring
  engine_sample_rate :: nat
  engine_channels :: nat

text \<open>The fields of the engine a realtime connection reads.\<close>

definition CURRENT_NOTEBOOK_CAPTURE_ENGINE :: capture_engine where
  "CURRENT_NOTEBOOK_CAPTURE_ENGINE =
     \<lparr>realtime_model_id = lit ''stt-rt-v5'', engine_audio_format = lit ''pcm_s16le'',
      engine_sample_rate = 16000, engine_channels = 1\<rparr>"

section \<open>The configuration frame\<close>

record stream_context =
  wire_translation_terms :: "(ustring \<times> ustring) list"
  wire_terms :: "ustring list"
  wire_general :: "(ustring \<times> ustring) list"
  wire_text :: "ustring option"

record stream_config =
  wire_api_key :: ustring
  wire_model :: ustring
  wire_audio_format :: ustring
  wire_sample_rate :: nat
  wire_num_channels :: nat
  wire_language_hints :: "ustring list"
  wire_language_hints_strict :: "bool option"
  wire_enable_language_identification :: "bool option"
  wire_enable_speaker_diarization :: "bool option"
  wire_enable_endpoint_detection :: "bool option"
  wire_endpoint_latency_adjustment_level :: "nat option"
  wire_endpoint_sensitivity :: "real option"
  wire_max_endpoint_delay_ms :: "nat option"
  wire_context :: "stream_context option"
  wire_translation :: "translation_config option"
  wire_client_reference_id :: "ustring option"

text \<open>\<open>bool::then_some\<close>.\<close>

definition then_some :: "bool \<Rightarrow> 'a \<Rightarrow> 'a option" where
  "then_some b a = (if b then Some a else None)"

definition build_stream_context :: "context_config option \<Rightarrow> stream_context option" where
  "build_stream_context ctx =
     (case ctx of None \<Rightarrow> None
      | Some c \<Rightarrow>
          (let general = context_general c;
               txt = (case context_text c of None \<Rightarrow> None | Some t \<Rightarrow> if t \<noteq> [] then Some t else None);
               terms = context_terms c; tterms = context_translation_terms c
           in if general = [] \<and> txt = None \<and> terms = [] \<and> tterms = [] then None
              else Some \<lparr>wire_translation_terms = tterms, wire_terms = terms,
                         wire_general = general, wire_text = txt\<rparr>))"

definition build_stream_config :: "ustring \<Rightarrow> stt_config \<Rightarrow> stream_config" where
  "build_stream_config api_key config =
     (let engine = CURRENT_NOTEBOOK_CAPTURE_ENGINE
      in \<lparr>wire_api_key = api_key, wire_model = realtime_model_id engine,
          wire_audio_format = engine_audio_format engine, wire_sample_rate = engine_sample_rate engine,
          wire_num_channels = engine_channels engine, wire_language_hints = language_hints config,
          wire_language_hints_strict = then_some (language_hints_strict config) True,
          wire_enable_language_identification =
            then_some (enable_language_identification config \<or> language_hints config = []) True,
          wire_enable_speaker_diarization = then_some (enable_speaker_diarization config) True,
          wire_enable_endpoint_detection = Some True,
          wire_endpoint_latency_adjustment_level = Some (endpoint_latency_adjustment_level config),
          wire_endpoint_sensitivity = Some (endpoint_sensitivity config),
          wire_max_endpoint_delay_ms = Some (resolved_max_endpoint_delay_ms config),
          wire_context = build_stream_context (stt_context config),
          wire_translation = translation config,
          wire_client_reference_id = client_reference_id config\<rparr>)"

section \<open>Credentials\<close>

record lane_credential =
  api_key :: ustring
  session_cap :: "duration option"

definition uncapped :: "ustring \<Rightarrow> lane_credential" where
  "uncapped key = \<lparr>api_key = key, session_cap = None\<rparr>"

definition UNPRESENTED_CREDENTIAL_REUSE_WINDOW :: duration where
  "UNPRESENTED_CREDENTIAL_REUSE_WINDOW = seconds 240"

text \<open>\<open>UnpresentedCredential\<close> is the credential with its \<open>minted_at\<close>.\<close>

definition into_still_redeemable :: "instant \<Rightarrow> lane_credential \<times> instant \<Rightarrow> lane_credential option" where
  "into_still_redeemable time_now u =
     then_some (time_now - snd u < UNPRESENTED_CREDENTIAL_REUSE_WINDOW) (fst u)"

end
