(* ===== verification/Stream_Errors.thy ===== *)
theory Stream_Errors
  imports Prelude
begin

text \<open>
  Crate \<open>vt-stt\<close>: the errors of a provider stream and how they are classified
  (\<open>error.rs\<close>, the \<open>StreamFailure\<close> part of \<open>soniox_stream.rs\<close>, and the provider-metadata
  helpers of \<open>soniox_rt.rs\<close>). \<open>display\<close> stands for the localized \<open>Display\<close> of
  \<open>SttError\<close>, which is looked up in translation files.
\<close>

section \<open>Error types\<close>

datatype quota_kind =
  OrganizationBalance | OrganizationMonthlyBudget | ProjectMonthlyBudget | OtherQuota

definition quota_kind_from_error_type :: "ustring option \<Rightarrow> quota_kind" where
  "quota_kind_from_error_type etype =
     (let t = to_ascii_lowercase (case etype of None \<Rightarrow> [] | Some t \<Rightarrow> t)
      in if t = lit ''organization_balance_exhausted'' then OrganizationBalance
         else if t = lit ''organization_monthly_budget_exhausted'' then OrganizationMonthlyBudget
         else if t = lit ''project_monthly_budget_exhausted'' then ProjectMonthlyBudget
         else OtherQuota)"

datatype stt_error =
    ConnectionFailed ustring
  | ReadTimeout duration
  | ServerClosed nat ustring
  | AuthFailed ustring
  | QuotaExhausted quota_kind ustring
  | RateLimited
  | ParseError ustring
  | ServerError nat ustring
  | ApiError nat ustring ustring
  | TranscriptionFailed ustring ustring
  | HttpError ustring
  | TimedOut ustring duration
  | Cancelled
  | UploadFailed ustring

fun stt_is_retryable :: "stt_error \<Rightarrow> bool" where
  "stt_is_retryable (ReadTimeout _) = True"
| "stt_is_retryable (ConnectionFailed _) = True"
| "stt_is_retryable RateLimited = True"
| "stt_is_retryable (ServerError _ _) = True"
| "stt_is_retryable _ = False"

fun is_auth_error :: "stt_error \<Rightarrow> bool" where
  "is_auth_error (AuthFailed _) = True"
| "is_auth_error (QuotaExhausted _ _) = True"
| "is_auth_error _ = False"

record provider_error =
  error_code :: nat
  error_type :: ustring
  error_message :: ustring
  request_id :: "ustring option"

datatype stream_error =
    Provider provider_error
  | Transport ustring ustring
  | Protocol ustring
  | Timeout ustring u64
  | Closed "nat option" ustring

text \<open>\<open>Rollover::None\<close> is \<open>NoRollover\<close>.\<close>

datatype rollover = NoRollover | AtCap | HandedOver

record stream_failure =
  task_error :: stt_error
  event_error :: stream_error
  skips_to_live_edge :: bool
  failure_rollover :: rollover

section \<open>Provider metadata\<close>

definition MAX_SAFE_PROVIDER_REQUEST_ID_BYTES :: nat where
  "MAX_SAFE_PROVIDER_REQUEST_ID_BYTES = 64"

definition is_ascii_digit :: "uchar \<Rightarrow> bool" where
  "is_ascii_digit c \<longleftrightarrow> 0x30 \<le> c \<and> c \<le> 0x39"

definition is_ascii_alphanumeric :: "uchar \<Rightarrow> bool" where
  "is_ascii_alphanumeric c \<longleftrightarrow>
     is_ascii_digit c \<or> 0x41 \<le> c \<and> c \<le> 0x5A \<or> 0x61 \<le> c \<and> c \<le> 0x7A"

definition is_ascii_hexdigit :: "uchar \<Rightarrow> bool" where
  "is_ascii_hexdigit c \<longleftrightarrow>
     is_ascii_digit c \<or> 0x41 \<le> c \<and> c \<le> 0x46 \<or> 0x61 \<le> c \<and> c \<le> 0x66"

definition request_id_byte :: "uchar \<Rightarrow> bool" where
  "request_id_byte c \<longleftrightarrow> is_ascii_alphanumeric c \<or> c = 0x2D \<or> c = 0x5F \<or> c = 0x2E"

definition credential_markers :: "ustring list" where
  "credential_markers = map lit
     [''api_key'', ''apikey'', ''credential'', ''secret'', ''bearer'', ''token'']"

text \<open>The scan for an uninterrupted run of 24 hexadecimal digits.\<close>

fun hex_run_too_long :: "ustring \<Rightarrow> nat \<Rightarrow> bool" where
  "hex_run_too_long [] consecutive_hex = False"
| "hex_run_too_long (c # rest) consecutive_hex =
     (if is_ascii_hexdigit c
      then (if 24 \<le> consecutive_hex + 1 then True else hex_run_too_long rest (consecutive_hex + 1))
      else hex_run_too_long rest 0)"

definition uuid_shape :: "ustring \<Rightarrow> bool" where
  "uuid_shape value \<longleftrightarrow> length value = 36 \<and>
     list_all (\<lambda>(i, c). if i \<in> {8, 13, 18, 23} then c = 0x2D else is_ascii_hexdigit c)
       (enumerate 0 value)"

definition safe_soniox_request_id :: "ustring option \<Rightarrow> ustring option" where
  "safe_soniox_request_id value =
     (case value of None \<Rightarrow> None
      | Some raw \<Rightarrow>
          (let value = trim raw; lower = to_ascii_lowercase value
           in if \<not> (4 \<le> length value \<and> length value \<le> MAX_SAFE_PROVIDER_REQUEST_ID_BYTES)
                \<or> \<not> list_all request_id_byte value then None
              else if list_ex (contains lower) credential_markers then None
              else if hex_run_too_long value 0 then None
              else if starts_with lower (lit ''req-'') \<or> starts_with lower (lit ''req_'')
                \<or> starts_with lower (lit ''request-'') \<or> starts_with lower (lit ''request_'')
                \<or> uuid_shape value then Some value
              else None))"

definition canonical_soniox_error_type :: "nat \<Rightarrow> ustring option \<Rightarrow> ustring" where
  "canonical_soniox_error_type status raw =
     (let normalized = to_ascii_lowercase (case raw of None \<Rightarrow> [] | Some t \<Rightarrow> t);
          has = (\<lambda>s. contains normalized (lit s))
      in if status = 401 \<or> status = 403 \<or> has ''auth'' \<or> has ''api_key'' \<or> has ''unauthor''
           \<or> has ''credential'' then lit ''authentication_error''
         else if status = 402 \<or> has ''quota'' \<or> has ''balance_exhausted'' \<or> has ''budget_exhausted''
           then lit ''quota_exhausted''
         else if status = 429 \<or> has ''rate'' \<or> has ''limit_exceeded'' then lit ''rate_limited''
         else if status = 400 \<or> has ''invalid_request'' then lit ''invalid_request''
         else if 500 \<le> status \<or> has ''service_unavailable'' then lit ''service_unavailable''
         else lit ''provider_error'')"

definition safe_soniox_provider_detail :: "nat \<Rightarrow> ustring \<Rightarrow> ustring option \<Rightarrow> ustring" where
  "safe_soniox_provider_detail status etype rid =
     (let status_label = (if status = 0 then lit ''unknown'' else nat_str status);
          request_suffix = (case safe_soniox_request_id rid of None \<Rightarrow> []
            | Some value \<Rightarrow> lit '' request_id='' @ value)
      in etype @ lit '' (status='' @ status_label @ lit '')'' @ request_suffix)"

definition provider_task_error :: "provider_error \<Rightarrow> stt_error" where
  "provider_task_error e =
     (let etype = canonical_soniox_error_type (error_code e) (Some (error_type e));
          detail = safe_soniox_provider_detail (error_code e) etype (request_id e)
      in if error_code e = 401 \<or> error_code e = 403 then AuthFailed detail
         else if error_code e = 402
           then QuotaExhausted (quota_kind_from_error_type (Some (error_type e))) detail
         else if error_code e = 429 then RateLimited
         else ApiError (error_code e) etype detail)"

section \<open>Stream failures\<close>

definition SESSION_DURATION_CAP_ERROR_TYPE :: ustring where
  "SESSION_DURATION_CAP_ERROR_TYPE = lit ''session_duration_cap''"

definition CREDENTIAL_TIME_EXHAUSTED_ERROR_TYPE :: ustring where
  "CREDENTIAL_TIME_EXHAUSTED_ERROR_TYPE = lit ''invite_time_exhausted''"

definition failure :: "stt_error \<Rightarrow> stream_error \<Rightarrow> stream_failure" where
  "failure task event =
     \<lparr>task_error = task, event_error = event, skips_to_live_edge = False, failure_rollover = NoRollover\<rparr>"

definition failure_transport :: "ustring \<Rightarrow> ustring \<Rightarrow> stream_failure" where
  "failure_transport operation message =
     failure (ConnectionFailed (operation @ lit '': '' @ message)) (Transport operation message)"

definition failure_protocol :: "ustring \<Rightarrow> stream_failure" where
  "failure_protocol message = failure (ParseError message) (Protocol message)"

definition failure_session_duration_cap :: "nat \<Rightarrow> ustring option \<Rightarrow> stream_failure" where
  "failure_session_duration_cap code rid =
     (let reason = lit ''provider ended the session at its duration cap''
      in (failure (ConnectionFailed reason)
            (Provider \<lparr>error_code = code, error_type = SESSION_DURATION_CAP_ERROR_TYPE,
               error_message = reason, request_id = rid\<rparr>))\<lparr>failure_rollover := AtCap\<rparr>)"

definition failure_timeout :: "ustring \<Rightarrow> duration \<Rightarrow> stream_failure" where
  "failure_timeout operation elapsed =
     failure (TimedOut operation elapsed) (Timeout operation (as_millis_u64 elapsed))"

definition failure_handed_over :: stream_failure where
  "failure_handed_over =
     (let reason = lit ''lane handed over to a fresh connection before its session cap''
      in (failure (ConnectionFailed reason) (Closed None reason))\<lparr>failure_rollover := HandedOver\<rparr>)"

definition failure_handover_unconfirmed :: "duration \<Rightarrow> stream_failure" where
  "failure_handover_unconfirmed elapsed =
     (failure_timeout (lit ''Soniox stream hand-over'') elapsed)\<lparr>failure_rollover := AtCap\<rparr>"

definition failure_finished_midstream :: stream_failure where
  "failure_finished_midstream =
     (let reason = lit ''provider finished the session while capture was live''
      in failure (ConnectionFailed reason) (Closed None reason))"

definition auth_close_code :: "nat \<Rightarrow> bool" where
  "auth_close_code code \<longleftrightarrow> code = 1008 \<or> code = 4001 \<or> code = 4003"

definition failure_closed :: "nat option \<Rightarrow> stream_failure" where
  "failure_closed code =
     (let reason = (if code \<noteq> None then lit ''provider closed the stream before finished''
            else lit ''provider stream ended before finished'');
          task = (case code of
              Some c \<Rightarrow> if auth_close_code c
                then AuthFailed (lit ''authentication_error (close_status='' @ nat_str c @ lit '')'')
                else ServerClosed c reason
            | None \<Rightarrow> ConnectionFailed reason)
      in failure task (Closed code reason))"

definition failure_provider :: "provider_error \<Rightarrow> stream_failure" where
  "failure_provider e = failure (provider_task_error e) (Provider e)"

definition failure_credential :: "(stt_error \<Rightarrow> ustring) \<Rightarrow> stt_error \<Rightarrow> stream_failure" where
  "failure_credential display e =
     (let message = lit ''Soniox lane credential: '' @ display e
      in if (case e of QuotaExhausted _ _ \<Rightarrow> True | _ \<Rightarrow> False) then
           failure e (Provider \<lparr>error_code = 402, error_type = CREDENTIAL_TIME_EXHAUSTED_ERROR_TYPE,
             error_message = message, request_id = None\<rparr>)
         else if is_auth_error e then
           failure e (Provider \<lparr>error_code = 401, error_type = lit ''unauthenticated'',
             error_message = message, request_id = None\<rparr>)
         else failure e (Transport (lit ''Soniox lane credential'') message))"

definition failure_behind_live_edge :: "duration \<Rightarrow> stream_failure" where
  "failure_behind_live_edge backlog =
     (let message = lit ''provider fell '' @ nat_str (as_secs backlog)
            @ lit ''s behind the audio this lane sent''
      in (failure (ConnectionFailed message) (Transport (lit ''Soniox live-edge backlog'') message))
           \<lparr>skips_to_live_edge := True\<rparr>)"

fun event_is_retryable :: "stream_error \<Rightarrow> bool" where
  "event_is_retryable (Transport _ _) = True"
| "event_is_retryable (Timeout operation _) = (operation \<noteq> lit ''Soniox stream drain'')"
| "event_is_retryable (Closed code _) = (case code of None \<Rightarrow> True | Some c \<Rightarrow> \<not> auth_close_code c)"
| "event_is_retryable (Provider e) =
     (error_code e \<in> {408, 413, 429, 503} \<or>
      error_type e \<in> {lit ''rate_limited'', lit ''service_unavailable''})"
| "event_is_retryable (Protocol _) = False"

definition is_retryable :: "stream_failure \<Rightarrow> bool" where
  "is_retryable f =
     (if failure_rollover f \<noteq> NoRollover then True else event_is_retryable (event_error f))"

definition ends_at_session_duration_cap :: "nat \<Rightarrow> ustring option \<Rightarrow> bool" where
  "ends_at_session_duration_cap code etype =
     (case etype of
        Some t \<Rightarrow> trim t = lit ''temp_api_key_session_expired'' \<or> trim t = lit ''max_duration_reached''
      | None \<Rightarrow> code = 413)"

text \<open>The error branch of the response handler of \<open>run_stream_session\<close>.\<close>

definition failure_of_error_frame ::
    "nat \<Rightarrow> ustring option \<Rightarrow> ustring option \<Rightarrow> stream_failure" where
  "failure_of_error_frame code etype rid =
     (if ends_at_session_duration_cap code etype
      then failure_session_duration_cap code (safe_soniox_request_id rid)
      else failure_provider
        \<lparr>error_code = code, error_type = canonical_soniox_error_type code etype,
         error_message = lit ''provider request failed'', request_id = safe_soniox_request_id rid\<rparr>)"

section \<open>Backoff\<close>

definition RECONNECT_MAX_DELAY_EXPONENT :: nat where
  "RECONNECT_MAX_DELAY_EXPONENT = 3"

definition duration_max :: duration where
  "duration_max = u64_max * 1000000000 + 999999999"

definition reconnect_delay :: "duration \<Rightarrow> nat \<Rightarrow> duration" where
  "reconnect_delay base attempt =
     (let exponent = min (attempt - 1) RECONNECT_MAX_DELAY_EXPONENT
      in min (base * 2 ^ exponent) duration_max)"

section \<open>Properties\<close>


lemma not_hex_run_too_long:
  assumes "\<not> hex_run_too_long s n" and "n < 24"
  shows "\<not> (24 - n \<le> length s \<and> list_all is_ascii_hexdigit (take (24 - n) s))"
    and "i + 24 \<le> length s \<Longrightarrow> \<not> list_all is_ascii_hexdigit (take 24 (drop i s))"
  using assms
proof (induction s arbitrary: n i)
  case Nil
  { case 1 then show ?case by simp }
  { case 2 then show ?case by simp }
next
  case (Cons c s)
  have first: "\<not> (24 - n \<le> length (c # s) \<and> list_all is_ascii_hexdigit (take (24 - n) (c # s)))"
    if prems: "\<not> hex_run_too_long (c # s) n" "n < 24" for n
  proof (cases "is_ascii_hexdigit c")
    case True
    with prems have m: "\<not> hex_run_too_long s (n + 1)" "n + 1 < 24" by (auto split: if_splits)
    have "24 - n = Suc (24 - (n + 1))" using prems(2) by simp
    then show ?thesis using Cons.IH(1) [OF m] by simp
  next
    case False
    then show ?thesis using prems(2) by (cases "24 - n") auto
  qed
  { case 1 then show ?case by (rule first) }
  { case 2
    then have tail: "\<exists>m < 24. \<not> hex_run_too_long s m"
      by (cases "is_ascii_hexdigit c") (auto split: if_splits intro: exI [of _ "n + 1"] exI [of _ 0])
    show ?case
    proof (cases i)
      case 0
      have "\<not> (24 \<le> length (c # s) \<and> list_all is_ascii_hexdigit (take 24 (c # s)))"
      proof
        assume all: "24 \<le> length (c # s) \<and> list_all is_ascii_hexdigit (take 24 (c # s))"
        have "take (24 - n) (c # s) = take (24 - n) (take 24 (c # s))"
          by (simp only: take_take) simp
        with all have "list_all is_ascii_hexdigit (take (24 - n) (c # s))"
          by (metis in_set_takeD list_all_iff)
        moreover have "24 - n \<le> length (c # s)" using all by linarith
        ultimately show False using first [OF 2(2,3)] by blast
      qed
      with 0 2 show ?thesis by simp
    next
      case (Suc j)
      with tail Cons.IH(2) [of j] 2(1) show ?thesis by auto
    qed }
qed

lemma trim_no_space: "list_all (\<lambda>c. \<not> is_whitespace c) s \<Longrightarrow> trim s = s"
proof -
  have "dropWhile is_whitespace s = s" if "list_all (\<lambda>c. \<not> is_whitespace c) s" for s
    using that by (cases s) auto
  note self = this
  assume s: "list_all (\<lambda>c. \<not> is_whitespace c) s"
  then show "trim s = s"
    using self [of s] self [of "rev s"] by (simp add: trim_def)
qed

lemma request_id_byte_not_space: "request_id_byte c \<Longrightarrow> \<not> is_whitespace c"
  by (auto simp: request_id_byte_def is_ascii_alphanumeric_def is_ascii_digit_def is_whitespace_def)

lemma safe_request_id_Some:
  assumes "safe_soniox_request_id r = Some v"
  shows "4 \<le> length v \<and> length v \<le> 64 \<and> list_all request_id_byte v"
    and "\<not> list_ex (contains (to_ascii_lowercase v)) credential_markers"
    and "\<not> hex_run_too_long v 0"
    and "safe_soniox_request_id (Some v) = Some v"
proof -
  obtain raw where raw: "r = Some raw" and v: "v = trim raw"
    using assms by (auto simp: safe_soniox_request_id_def Let_def split: option.splits if_splits)
  show basic: "4 \<le> length v \<and> length v \<le> 64 \<and> list_all request_id_byte v"
    and "\<not> list_ex (contains (to_ascii_lowercase v)) credential_markers"
    and "\<not> hex_run_too_long v 0"
    using assms
    by (simp_all add: safe_soniox_request_id_def raw v Let_def MAX_SAFE_PROVIDER_REQUEST_ID_BYTES_def
        split: if_splits)
  have "trim v = v"
    using basic by (intro trim_no_space) (auto simp: list_all_iff dest: request_id_byte_not_space)
  then show "safe_soniox_request_id (Some v) = Some v"
    using assms by (simp add: safe_soniox_request_id_def raw v)
qed

text \<open>A provider request id that is kept has 4 to 64 characters of a fixed alphabet, no run of 24
  hexadecimal digits and no credential marker in it, so it cannot carry a copied key; and keeping it
  is idempotent.\<close>

lemma safe_request_id_is_safe:
  assumes "safe_soniox_request_id r = Some v"
  shows "4 \<le> length v \<and> length v \<le> 64 \<and> (\<forall>c \<in> set v. request_id_byte c) \<and>
    (\<forall>i. i + 24 \<le> length v \<longrightarrow> (\<exists>c \<in> set (take 24 (drop i v)). \<not> is_ascii_hexdigit c)) \<and>
    (\<forall>m \<in> set credential_markers. \<not> contains (to_ascii_lowercase v) m) \<and>
    safe_soniox_request_id (Some v) = Some v"
  using safe_request_id_Some [OF assms] not_hex_run_too_long(2) [of v 0]
  by (simp add: list_all_iff list_ex_iff Bex_def)

lemma canonical_refused:
  assumes "code \<in> {401, 402, 403}"
  shows "canonical_soniox_error_type code etype \<in> {lit ''authentication_error'', lit ''quota_exhausted''}"
  using assms by (auto simp: canonical_soniox_error_type_def Let_def)

text \<open>Of the frames with which the provider refuses a key (401, 402, 403), the lane retries exactly
  those whose type says the session reached its duration cap; every other one ends the lane.\<close>

lemma refused_key_retried_iff_cap:
  assumes "code \<in> {401, 402, 403}"
  shows "is_retryable (failure_of_error_frame code etype rid) \<longleftrightarrow> ends_at_session_duration_cap code etype"
  using assms canonical_refused [OF assms, of etype]
  by (auto simp: failure_of_error_frame_def failure_session_duration_cap_def failure_provider_def
      failure_def is_retryable_def Let_def)

text \<open>A connection that could not be given a credential is retried unless the credential source
  refused it or has no time left, whatever the error is and however it is displayed.\<close>

lemma credential_failure_retried_iff:
  "is_retryable (failure_credential display e) \<longleftrightarrow> \<not> is_auth_error e"
  by (cases e) (simp_all add: failure_credential_def failure_def is_retryable_def Let_def
      CREDENTIAL_TIME_EXHAUSTED_ERROR_TYPE_def)

text \<open>The backoff starts at the base delay, never shrinks with the attempts, doubles up to eight
  times the base and stays there.\<close>

lemma reconnect_delay_bounds:
  assumes "8 * base \<le> duration_max"
  shows "reconnect_delay base 1 = base \<and> base \<le> reconnect_delay base n \<and>
    reconnect_delay base n \<le> 8 * base \<and>
    (m \<le> n \<longrightarrow> reconnect_delay base m \<le> reconnect_delay base n) \<and>
    (4 \<le> n \<longrightarrow> reconnect_delay base n = 8 * base)"
proof -
  let ?e = "\<lambda>n. min (n - 1) 3 :: nat"
  have le8: "(2::nat) ^ ?e n \<le> 8" for n
    using power_increasing [of "?e n" 3 "2::nat"] by simp
  have delay: "reconnect_delay base n = base * 2 ^ ?e n" for n
  proof -
    have "base * 2 ^ ?e n \<le> base * 8" using le8 [of n] by (rule mult_le_mono2)
    also have "\<dots> \<le> duration_max" using assms by (simp add: mult.commute)
    finally have "base * 2 ^ ?e n \<le> duration_max" .
    then show ?thesis
      by (simp add: reconnect_delay_def RECONNECT_MAX_DELAY_EXPONENT_def)
  qed
  have "(2::nat) ^ ?e m \<le> 2 ^ ?e n" if "m \<le> n"
    using that by (intro power_increasing) auto
  then show ?thesis
    using le8 [of n] by (simp add: delay)
qed

text \<open>A status 400 whose error type happens to contain \<open>rate\<close> is canonicalized as a rate limit before
  the status is looked at, so the lane retries a request the provider will refuse every time.\<close>

lemma bad_request_naming_a_rate_is_retried:
  "is_retryable (failure_of_error_frame 400 (Some (lit ''invalid_sample_rate'')) None)"
  by (simp add: failure_of_error_frame_def ends_at_session_duration_cap_def failure_provider_def
      failure_def is_retryable_def canonical_soniox_error_type_def to_ascii_lowercase_def lit_def
      trim_def is_whitespace_def starts_with_def Let_def)

end
