(* ===== verification/Stream_Session.thy ===== *)
theory Stream_Session
  imports Stream_Config Stream_Errors
begin

text \<open>
  Crate \<open>vt-stt\<close>, \<open>soniox_stream.rs\<close>: one connection of a lane (\<open>run_stream_session\<close>)
  and everything it calls. The state \<open>lane\<close> holds the channels the session reads, the socket it
  writes, the arguments it takes by \<open>&mut\<close> and its local variables. The session runs by
  iterations of its \<open>select!\<close>; between two iterations the world moves (\<open>world_event\<close>): time
  passes, controls, audio and provider messages arrive. Within one iteration the clock stands still
  and no channel grows. What each write does is given by \<open>write_script\<close>; an empty script is a
  socket that accepts everything. Tracing and log lines are left out.
\<close>

section \<open>Events, controls and frames\<close>

datatype translation_status =
  StatusNone | StatusOriginal | StatusTranslation | StatusUnknown ustring

definition from_provider :: "ustring option \<Rightarrow> translation_status" where
  "from_provider v =
     (case v of None \<Rightarrow> StatusNone
      | Some s \<Rightarrow> if s = lit ''none'' then StatusNone
                 else if s = lit ''original'' then StatusOriginal
                 else if s = lit ''translation'' then StatusTranslation
                 else StatusUnknown s)"

record stream_token =
  st_text :: ustring
  st_start_ms :: "u64 option"
  st_end_ms :: "u64 option"
  st_is_final :: bool
  st_confidence :: "real option"
  st_translation_status :: translation_status
  st_language :: "ustring option"
  st_source_language :: "ustring option"
  st_speaker :: "ustring option"

definition token_of_wire :: "token_wire \<Rightarrow> stream_token" where
  "token_of_wire t =
     \<lparr>st_text = token_text t, st_start_ms = token_start_ms t, st_end_ms = token_end_ms t,
      st_is_final = token_is_final t, st_confidence = token_confidence t,
      st_translation_status = from_provider (token_translation_status t),
      st_language = token_language t, st_source_language = token_source_language t,
      st_speaker = token_speaker t\<rparr>"

text \<open>\<open>Error\<close> and \<open>InputDiscontinuity\<close> are sent by the callers of the session.\<close>

datatype stream_event =
    Connected
  | Reconnecting nat u64 bool
  | RecoveryStarted u64
  | AudioProgress u64 u64 u64
  | Tokens "stream_token list"
  | Endpoint
  | Finalized
  | Finished
  | InputDiscontinuity
  | StreamFailed stream_error

datatype stt_control = Finalize | Pause | Resume | Keepalive | Finish

datatype frame =
    ConfigFrame stream_config
  | AudioFrame pcm
  | ControlFrame ustring
  | FinishFrame

record stream_response =
  resp_tokens :: "token_wire list"
  resp_finished :: bool
  resp_error_code :: "nat option"
  resp_error_type :: "ustring option"
  resp_request_id :: "ustring option"
  resp_final_ms :: "u64 option"
  resp_total_ms :: "u64 option"

text \<open>What \<open>read.next()\<close> yields; a text frame is already decoded, or carries the decoder's error.\<close>

datatype inbound_message =
    TextFrame "ustring + stream_response"
  | CloseFrame "nat option"
  | OtherFrame
  | ReadError ustring
  | ReadEnd

datatype write_outcome = WriteOk | WriteTimeout | WriteError ustring

section \<open>The lane\<close>

record lane =
  time_now :: instant
  cancelled :: bool
  control_queue :: "stt_control list"
  control_closed :: bool
  audio_queue :: "pcm list"
  audio_closed :: bool
  inbound :: "inbound_message list"
  write_script :: "write_outcome list"
  receiver_open :: bool
  wire :: "frame list"
  emitted :: "stream_event list"
  minted :: nat
  lane_paused :: bool
  session_connected :: bool
  recovery :: recovery_state
  unpresented_credential :: "(lane_credential \<times> instant) option"
  replay_filter :: replay_suppression
  catch_up_active :: bool
  catch_up_replay :: "pcm list"
  catch_up_at :: instant
  sent_audio :: bool
  draining :: bool
  audio_open :: bool
  control_open :: bool
  keepalive_at :: instant
  drain_at :: instant
  idle_at :: instant
  handover_at :: instant
  handover :: "handover_schedule option"
  waiting_for_pause :: bool
  handing_over :: bool
  quiet_level :: real
  long_utterance :: utterance_closer

type_synonym 'a run = "(lane, stream_failure, 'a) sm"

datatype flow = Continue | Done

definition on_recovery :: "(recovery_state \<Rightarrow> recovery_state) \<Rightarrow> unit run" where
  "on_recovery f = sm_modify (\<lambda>s. s\<lparr>recovery := f (recovery s)\<rparr>)"

fun sm_seq :: "('s, 'e, unit) sm list \<Rightarrow> ('s, 'e, unit) sm" where
  "sm_seq [] = sm_return ()"
| "sm_seq (m # ms) = sm_then m (sm_seq ms)"

section \<open>Sending\<close>

definition send_message :: "frame \<Rightarrow> string \<Rightarrow> duration \<Rightarrow> unit run" where
  "send_message f operation limit = (\<lambda>s.
     case write_script s of
       WriteTimeout # ws \<Rightarrow> (Inl (failure_timeout (lit operation) limit), s\<lparr>write_script := ws\<rparr>)
     | WriteError msg # ws \<Rightarrow> (Inl (failure_transport (lit operation) msg), s\<lparr>write_script := ws\<rparr>)
     | WriteOk # ws \<Rightarrow> (Inr (), s\<lparr>write_script := ws, wire := wire s @ [f]\<rparr>)
     | [] \<Rightarrow> (Inr (), s\<lparr>wire := wire s @ [f]\<rparr>))"

definition failure_event_delivery :: stream_failure where
  "failure_event_delivery =
     failure Cancelled (Transport (lit ''Soniox stream event delivery'') (lit ''event receiver closed''))"

definition send_event :: "stream_event \<Rightarrow> unit run" where
  "send_event e = (\<lambda>s.
     if receiver_open s then (Inr (), s\<lparr>emitted := emitted s @ [e]\<rparr>)
     else (Inl failure_event_delivery, s))"

definition send_control :: "string \<Rightarrow> duration \<Rightarrow> unit run" where
  "send_control control_type limit =
     send_message (ControlFrame (lit control_type)) ''Soniox stream control send'' limit"

fun drain_replay :: "duration \<Rightarrow> pcm list \<Rightarrow> bool \<Rightarrow> bool run" where
  "drain_replay limit [] sent = sm_return sent"
| "drain_replay limit (pcm # replay) sent =
     sm_then (sm_modify (\<lambda>s. s\<lparr>catch_up_replay := replay\<rparr>))
       (sm_then (send_message (AudioFrame pcm) ''Soniox stream recovery audio send'' limit)
         (drain_replay limit replay True))"

fun drain_queue :: "duration \<Rightarrow> pcm list \<Rightarrow> bool \<Rightarrow> bool run" where
  "drain_queue limit [] sent = sm_return sent"
| "drain_queue limit (pcm # queue) sent =
     sm_then (sm_modify (\<lambda>s. s\<lparr>audio_queue := queue\<rparr>))
       (sm_then (send_message (AudioFrame pcm) ''Soniox stream queued audio fence'' limit)
         (sm_then (on_recovery (record_sent pcm))
           (drain_queue limit queue True)))"

definition drain_queued_audio :: "duration \<Rightarrow> bool run" where
  "drain_queued_audio limit =
     sm_then (sm_modify (\<lambda>s. s\<lparr>catch_up_active := False\<rparr>))
       (sm_bind (sm_gets catch_up_replay) (\<lambda>replay.
         sm_bind (drain_replay limit replay False) (\<lambda>sent.
           sm_bind (sm_gets audio_queue) (\<lambda>queue. drain_queue limit queue sent))))"

text \<open>\<open>sent_audio |= drain_queued_audio(..).await?\<close>.\<close>

definition flush_audio :: "duration \<Rightarrow> unit run" where
  "flush_audio limit =
     sm_bind (drain_queued_audio limit)
       (\<lambda>sent. sm_modify (\<lambda>s. s\<lparr>sent_audio := (sent_audio s \<or> sent)\<rparr>))"

definition begin_drain :: "stream_timeouts \<Rightarrow> unit run" where
  "begin_drain t =
     sm_bind (sm_gets draining) (\<lambda>d. sm_when (\<not> d)
       (sm_then (send_message FinishFrame ''Soniox stream finish send'' (write_timeout t))
         (sm_modify (\<lambda>s. s\<lparr>draining := True, drain_at := time_now s + drain_timeout t\<rparr>))))"

text \<open>\<open>send_control(.., "finalize", ..)\<close> followed by \<open>note_finalize_sent\<close>.\<close>

definition finalize_now :: "stream_timeouts \<Rightarrow> unit run" where
  "finalize_now t =
     sm_then (send_control ''finalize'' (write_timeout t)) (on_recovery note_finalize_sent)"

section \<open>Responses\<close>

definition project_token :: "recovery_state \<Rightarrow> token_wire \<Rightarrow> token_wire" where
  "project_token r t =
     t\<lparr>token_start_ms := map_option (capture_ms r) (token_start_ms t),
       token_end_ms := map_option (capture_ms r) (token_end_ms t)\<rparr>"

definition control_event :: "token_wire \<Rightarrow> stream_event option" where
  "control_event t =
     (if token_text t = lit ''<end>'' then Some Endpoint
      else if token_text t = lit ''<fin>'' then Some Finalized else None)"

text \<open>The loop of \<open>emit_response_events\<close>: the batch and the control events, in order.\<close>

fun split_response :: "recovery_state \<Rightarrow> token_wire list \<Rightarrow> stream_token list \<times> stream_event list" where
  "split_response r [] = ([], [])"
| "split_response r (t # ts) =
     (let (batch, controls) = split_response r ts
      in case control_event t of
           Some e \<Rightarrow> (batch, e # controls)
         | None \<Rightarrow> (token_of_wire (project_token r t) # batch, controls))"

definition emit_response_events :: "token_wire list \<Rightarrow> unit run" where
  "emit_response_events tokens =
     sm_bind (sm_gets recovery) (\<lambda>r.
       let (batch, controls) = split_response r tokens
       in sm_then (sm_when (batch \<noteq> []) (send_event (Tokens batch)))
            (sm_mapM send_event controls))"

definition has_text :: "string \<Rightarrow> token_wire list \<Rightarrow> bool" where
  "has_text marker tokens \<longleftrightarrow> list_ex (\<lambda>t. token_text t = lit marker) tokens"

text \<open>The branch on \<open>total_audio_proc_ms\<close>: the finalize answered, the acknowledgement and the
  progress event.\<close>

definition report_progress :: "stream_response \<Rightarrow> unit run" where
  "report_progress resp =
     (case resp_total_ms resp of
        None \<Rightarrow> sm_return ()
      | Some provider_total \<Rightarrow>
          sm_then
            (sm_when (has_text ''<fin>'' (resp_tokens resp))
              (on_recovery (note_finalize_answered provider_total)))
            (\<lambda>s. let ((acknowledged, sent_lag), r) = acknowledge provider_total (recovery s);
                     queued_lag = sat_mul (length (audio_queue s)) 100;
                     lag = sat_add sent_lag queued_lag;
                     final_ms = (case resp_final_ms resp of None \<Rightarrow> 0 | Some ms \<Rightarrow> ms)
                 in send_event (AudioProgress (min (capture_ms r final_ms) acknowledged) acknowledged lag)
                      (s\<lparr>recovery := r\<rparr>)))"

definition filter_replayed :: "stream_response \<Rightarrow> token_wire list run" where
  "filter_replayed resp = (\<lambda>s.
     let (kept, f) = suppression_filter (resp_tokens resp) (resp_final_ms resp) (replay_filter s)
     in (Inr kept, s\<lparr>replay_filter := f\<rparr>))"

definition note_boundary :: "stream_response \<Rightarrow> token_wire list \<Rightarrow> unit run" where
  "note_boundary resp kept =
     sm_when (has_text ''<end>'' kept \<or> has_text ''<fin>'' kept)
       (sm_modify (\<lambda>s.
          let ended_at = (case resp_final_ms resp of
                  None \<Rightarrow> next_audio_ms (recovery s)
                | Some ms \<Rightarrow> min (capture_ms (recovery s) ms) (next_audio_ms (recovery s)))
          in s\<lparr>long_utterance := closer_boundary ended_at (long_utterance s)\<rparr>))"

text \<open>\<open>if catch_up.active \{ sent_audio |= drain_queued_audio(..) \}\<close>, the finish and
  \<open>handing_over = true\<close>.\<close>

definition hand_over :: "stream_timeouts \<Rightarrow> unit run" where
  "hand_over t =
     sm_seq [sm_bind (sm_gets catch_up_active) (\<lambda>active. sm_when active (flush_audio (write_timeout t))),
             begin_drain t, sm_modify (\<lambda>s. s\<lparr>handing_over := True\<rparr>)]"

definition on_finished :: "flow run" where
  "on_finished =
     sm_bind (sm_gets (\<lambda>s. (handing_over s, draining s))) (\<lambda>(handing, drains).
       if handing then sm_throw failure_handed_over
       else if drains then sm_then (send_event Finished) (sm_return Done)
       else sm_throw failure_finished_midstream)"

definition on_response :: "stream_timeouts \<Rightarrow> stream_response \<Rightarrow> flow run" where
  "on_response t resp =
     (case resp_error_code resp of
        Some code \<Rightarrow> sm_throw (failure_of_error_frame code (resp_error_type resp) (resp_request_id resp))
      | None \<Rightarrow>
          sm_then (report_progress resp)
            (sm_bind (filter_replayed resp) (\<lambda>kept.
              sm_then (note_boundary resp kept)
                (sm_bind (sm_gets (\<lambda>s. waiting_for_pause s \<and> has_text ''<end>'' kept)) (\<lambda>reached_pause.
                  sm_then (emit_response_events kept)
                    (if resp_finished resp then on_finished
                     else sm_bind (sm_gets draining) (\<lambda>drains.
                       sm_then (sm_when (reached_pause \<and> \<not> drains) (hand_over t))
                         (sm_return Continue))))))))"

section \<open>The branches of the select loop\<close>

definition next_message :: "stream_timeouts \<Rightarrow> inbound_message run" where
  "next_message t = (\<lambda>s. (Inr (hd (inbound s)),
     s\<lparr>idle_at := time_now s + receive_idle t, inbound := tl (inbound s)\<rparr>))"

definition on_message :: "stream_timeouts \<Rightarrow> flow run" where
  "on_message t =
     sm_bind (next_message t) (\<lambda>message.
       case message of
         TextFrame (Inl parse_error) \<Rightarrow> sm_throw (failure_protocol parse_error)
       | TextFrame (Inr resp) \<Rightarrow> on_response t resp
       | CloseFrame code \<Rightarrow> sm_throw (failure_closed code)
       | OtherFrame \<Rightarrow> sm_return Continue
       | ReadError msg \<Rightarrow> sm_throw (failure_transport (lit ''Soniox stream response receive'') msg)
       | ReadEnd \<Rightarrow> sm_throw (failure_closed None))"

text \<open>\<open>Finish\<close>, and the control channel closing.\<close>

definition finish_lane :: "stream_timeouts \<Rightarrow> flow run" where
  "finish_lane t =
     sm_then (flush_audio (write_timeout t))
       (sm_bind (sm_gets sent_audio) (\<lambda>sent.
         if \<not> sent then sm_then (send_event Finished) (sm_return Done)
         else sm_then (begin_drain t) (sm_return Continue)))"

definition on_control :: "stream_timeouts \<Rightarrow> stt_control option \<Rightarrow> flow run" where
  "on_control t control =
     (case control of
        Some Finalize \<Rightarrow>
          sm_then (sm_seq [flush_audio (write_timeout t), finalize_now t]) (sm_return Continue)
      | Some Pause \<Rightarrow>
          sm_then (sm_seq [flush_audio (write_timeout t), finalize_now t,
            sm_modify (\<lambda>s. s\<lparr>lane_paused := True, keepalive_at := time_now s + keepalive t\<rparr>)])
            (sm_return Continue)
      | Some Resume \<Rightarrow>
          sm_then (sm_modify (\<lambda>s. s\<lparr>lane_paused := False, idle_at := time_now s + receive_idle t\<rparr>))
            (sm_return Continue)
      | Some Keepalive \<Rightarrow>
          sm_then (send_control ''keepalive'' (write_timeout t)) (sm_return Continue)
      | Some Finish \<Rightarrow> finish_lane t
      | None \<Rightarrow> sm_then (sm_modify (\<lambda>s. s\<lparr>control_open := False\<rparr>)) (finish_lane t))"

text \<open>\<open>control_rx.recv()\<close> when it is ready: the head of the channel, or \<open>None\<close> once the
  channel is closed and empty.\<close>

definition recv_control :: "stt_control option run" where
  "recv_control = (\<lambda>s.
     case control_queue s of [] \<Rightarrow> (Inr None, s) | c # cs \<Rightarrow> (Inr (Some c), s\<lparr>control_queue := cs\<rparr>))"

definition recv_audio :: "pcm option run" where
  "recv_audio = (\<lambda>s.
     case audio_queue s of [] \<Rightarrow> (Inr None, s) | pcm # queue \<Rightarrow> (Inr (Some pcm), s\<lparr>audio_queue := queue\<rparr>))"

definition catch_up_block :: "stream_timeouts \<Rightarrow> pcm \<Rightarrow> bool \<Rightarrow> flow run" where
  "catch_up_block t pcm counted =
     sm_then (sm_seq [send_message (AudioFrame pcm) ''Soniox stream catch-up audio send'' (write_timeout t),
         sm_when (\<not> counted) (on_recovery (record_sent pcm)),
         sm_modify (\<lambda>s. s\<lparr>sent_audio := True,
           catch_up_at := time_now s + millis (block_ms (length pcm)) div CATCH_UP_SPEED\<rparr>)])
       (sm_return Continue)"

text \<open>The next block to catch up on, and whether it is already counted on the timeline.\<close>

definition next_catch_up :: "(pcm \<times> bool) option run" where
  "next_catch_up =
     sm_bind (sm_gets catch_up_replay) (\<lambda>replay.
       case replay of
         pcm # rest \<Rightarrow> sm_then (sm_modify (\<lambda>s. s\<lparr>catch_up_replay := rest\<rparr>)) (sm_return (Some (pcm, True)))
       | [] \<Rightarrow> sm_bind recv_audio (\<lambda>audio. sm_return (map_option (\<lambda>pcm. (pcm, False)) audio)))"

definition on_catch_up :: "stream_timeouts \<Rightarrow> flow run" where
  "on_catch_up t =
     sm_bind next_catch_up (\<lambda>next.
       case next of
         None \<Rightarrow> sm_then (sm_modify (\<lambda>s. s\<lparr>catch_up_active := False\<rparr>)) (sm_return Continue)
       | Some (pcm, counted) \<Rightarrow> catch_up_block t pcm counted)"

text \<open>A live block: the long-utterance closer, then the hand-over or the live-edge rule.\<close>

definition ask_closer :: "bool \<Rightarrow> pcm \<Rightarrow> bool run" where
  "ask_closer quiet pcm = (\<lambda>s.
     let (ask, c) = closer_sent quiet (block_ms (length pcm)) (next_audio_ms (recovery s))
           (acknowledged_ms (recovery s)) (long_utterance s)
     in (Inr ask, s\<lparr>long_utterance := c\<rparr>))"

definition close_long_utterance :: "stream_timeouts \<Rightarrow> stt_config \<Rightarrow> bool \<Rightarrow> pcm \<Rightarrow> unit run" where
  "close_long_utterance t config quiet pcm =
     sm_bind (sm_gets waiting_for_pause) (\<lambda>waiting.
       sm_when (close_long_utterances_at_pauses config \<and> \<not> waiting)
         (sm_bind (ask_closer quiet pcm) (\<lambda>ask. sm_when ask (finalize_now t))))"

definition check_live_edge :: "stream_timeouts \<Rightarrow> flow run" where
  "check_live_edge t =
     sm_bind (sm_gets (\<lambda>s. sent_backlog (recovery s))) (\<lambda>backlog.
       if backlog > live_edge_max_backlog t then sm_throw (failure_behind_live_edge backlog)
       else sm_return Continue)"

definition observe_quiet :: "pcm \<Rightarrow> bool run" where
  "observe_quiet pcm = (\<lambda>s.
     let (quiet, level) = observe_block pcm (quiet_level s) in (Inr quiet, s\<lparr>quiet_level := level\<rparr>))"

definition live_block :: "stream_timeouts \<Rightarrow> stt_config \<Rightarrow> pcm \<Rightarrow> flow run" where
  "live_block t config pcm =
     sm_bind (observe_quiet pcm) (\<lambda>quiet.
       sm_then (sm_seq [send_message (AudioFrame pcm) ''Soniox stream audio send'' (write_timeout t),
           on_recovery (record_sent pcm), sm_modify (\<lambda>s. s\<lparr>sent_audio := True\<rparr>),
           close_long_utterance t config quiet pcm])
         (sm_bind (sm_gets waiting_for_pause) (\<lambda>waiting.
           if waiting \<and> quiet
           then sm_then (sm_seq [begin_drain t, sm_modify (\<lambda>s. s\<lparr>handing_over := True\<rparr>)])
                  (sm_return Continue)
           else check_live_edge t)))"

definition on_audio :: "stream_timeouts \<Rightarrow> stt_config \<Rightarrow> flow run" where
  "on_audio t config =
     sm_bind recv_audio (\<lambda>audio.
       case audio of
         None \<Rightarrow> sm_then (sm_modify (\<lambda>s. s\<lparr>audio_open := False\<rparr>)) (sm_return Continue)
       | Some pcm \<Rightarrow> sm_bind (sm_gets lane_paused) (\<lambda>p.
           if \<not> p then live_block t config pcm else sm_return Continue))"

definition on_keepalive :: "stream_timeouts \<Rightarrow> flow run" where
  "on_keepalive t =
     sm_then (sm_seq [send_control ''keepalive'' (write_timeout t),
         sm_modify (\<lambda>s. s\<lparr>keepalive_at := time_now s + keepalive t\<rparr>)]) (sm_return Continue)"

definition on_drain_timeout :: "stream_timeouts \<Rightarrow> flow run" where
  "on_drain_timeout t =
     sm_bind (sm_gets handing_over) (\<lambda>handing.
       if handing then sm_throw (failure_handover_unconfirmed (drain_timeout t))
       else sm_throw (failure_timeout (lit ''Soniox stream drain'') (drain_timeout t)))"

definition on_handover_timer :: "stream_timeouts \<Rightarrow> flow run" where
  "on_handover_timer t =
     sm_bind (sm_gets waiting_for_pause) (\<lambda>waiting.
       if waiting then sm_then (hand_over t) (sm_return Continue)
       else sm_then (sm_modify (\<lambda>s. case handover s of
                None \<Rightarrow> s
              | Some schedule \<Rightarrow> s\<lparr>waiting_for_pause := True, handover_at := hand_over_by schedule\<rparr>))
              (sm_return Continue))"

text \<open>One iteration of the loop. The \<open>select!\<close> is \<open>biased\<close>: the first branch that is enabled
  and ready runs; when none is, the loop waits.\<close>

definition session_step :: "stream_timeouts \<Rightarrow> stt_config \<Rightarrow> flow run" where
  "session_step t config = (\<lambda>s.
     if cancelled s then (Inr Done, s)
     else if control_open s \<and> \<not> draining s \<and> (control_queue s \<noteq> [] \<or> control_closed s) then
       sm_bind recv_control (on_control t) s
     else if inbound s \<noteq> [] then on_message t s
     else if catch_up_active s \<and> \<not> draining s \<and> catch_up_at s \<le> time_now s then on_catch_up t s
     else if audio_open s \<and> \<not> draining s \<and> \<not> catch_up_active s \<and> (audio_queue s \<noteq> [] \<or> audio_closed s) then
       on_audio t config s
     else if lane_paused s \<and> \<not> draining s \<and> keepalive_at s \<le> time_now s then on_keepalive t s
     else if draining s \<and> drain_at s \<le> time_now s then on_drain_timeout t s
     else if handover s \<noteq> None \<and> \<not> draining s \<and> handover_at s \<le> time_now s then on_handover_timer t s
     else if \<not> draining s \<and> \<not> lane_paused s \<and> idle_at s \<le> time_now s then
       (Inl (failure_timeout (lit ''Soniox stream response receive'') (receive_idle t)), s)
     else (Inr Continue, s))"

section \<open>The world between two iterations\<close>

datatype world_event =
    Tick duration
  | ArriveControl stt_control | CloseControl
  | ArriveAudio pcm | CloseAudio
  | ArriveMessage inbound_message
  | NextWrites "write_outcome list"
  | Cancel | DropReceiver

fun world :: "world_event \<Rightarrow> lane \<Rightarrow> lane" where
  "world (Tick d) s = s\<lparr>time_now := time_now s + d\<rparr>"
| "world (ArriveControl c) s =
     (if control_closed s then s else s\<lparr>control_queue := control_queue s @ [c]\<rparr>)"
| "world CloseControl s = s\<lparr>control_closed := True\<rparr>"
| "world (ArriveAudio pcm) s =
     (if audio_closed s then s else s\<lparr>audio_queue := audio_queue s @ [pcm]\<rparr>)"
| "world CloseAudio s = s\<lparr>audio_closed := True\<rparr>"
| "world (ArriveMessage m) s = s\<lparr>inbound := inbound s @ [m]\<rparr>"
| "world (NextWrites ws) s = s\<lparr>write_script := ws\<rparr>"
| "world Cancel s = s\<lparr>cancelled := True\<rparr>"
| "world DropReceiver s = s\<lparr>receiver_open := False\<rparr>"

text \<open>The loop, over what the world does before each iteration. \<open>Continue\<close> at the end means that
  the session is still running.\<close>

fun session_loop :: "stream_timeouts \<Rightarrow> stt_config \<Rightarrow> world_event list list \<Rightarrow> flow run" where
  "session_loop t config [] = sm_return Continue"
| "session_loop t config (events # rest) =
     sm_then (sm_modify (fold world events))
       (sm_bind (session_step t config) (\<lambda>flow.
         case flow of Done \<Rightarrow> sm_return Done | Continue \<Rightarrow> session_loop t config rest))"

section \<open>Opening a connection\<close>

datatype dial = Dialed | DialTimeout | DialError ustring

text \<open>The credential source answers its \<open>n\<close>-th request with \<open>source n\<close>; \<open>minted\<close> counts the
  requests. \<open>display\<close> is the \<open>Display\<close> of an error.\<close>

type_synonym credential_source = "nat \<Rightarrow> stt_error + lane_credential"

definition take_credential ::
    "(stt_error \<Rightarrow> ustring) \<Rightarrow> credential_source \<Rightarrow> world_event list \<Rightarrow> lane_credential run" where
  "take_credential display source waiting = (\<lambda>s.
     let s' = s\<lparr>unpresented_credential := None\<rparr>
     in case Option.bind (unpresented_credential s) (into_still_redeemable (time_now s)) of
          Some c \<Rightarrow> (Inr c, s')
        | None \<Rightarrow>
            (let s'' = fold world waiting (s'\<lparr>minted := Suc (minted s)\<rparr>)
             in case source (minted s) of
                  Inl e \<Rightarrow> (Inl (failure_credential display e), s'')
                | Inr c \<Rightarrow> (Inr c, s'')))"

definition keep_unpresented :: "lane_credential \<Rightarrow> unit run" where
  "keep_unpresented c = sm_modify (\<lambda>s. s\<lparr>unpresented_credential := Some (c, time_now s)\<rparr>)"

text \<open>While the credential is fetched and the socket dialed, the world moves (\<open>waiting\<close>); a new
  socket has carried nothing yet.\<close>

definition dial_socket :: "stream_timeouts \<Rightarrow> dial \<Rightarrow> world_event list \<Rightarrow> lane_credential \<Rightarrow> unit run" where
  "dial_socket t outcome waiting c =
     sm_then (sm_modify (fold world waiting))
       (case outcome of
          DialTimeout \<Rightarrow> sm_then (keep_unpresented c)
            (sm_throw (failure_timeout (lit ''Soniox stream connect'') (connect_timeout t)))
        | DialError msg \<Rightarrow> sm_then (keep_unpresented c)
            (sm_throw (failure_transport (lit ''Soniox stream connect'') msg))
        | Dialed \<Rightarrow> sm_modify (\<lambda>s. s\<lparr>wire := [], inbound := []\<rparr>))"

definition configure_socket :: "stream_timeouts \<Rightarrow> stt_config \<Rightarrow> lane_credential \<Rightarrow> instant \<Rightarrow> unit run" where
  "configure_socket t config c dialed_at =
     sm_seq [sm_modify (\<lambda>s. s\<lparr>handover := map_option (\<lambda>cap. for_cap dialed_at cap t) (session_cap c)\<rparr>),
             send_message (ConfigFrame (build_stream_config (api_key c) config))
               ''Soniox stream configuration send'' (write_timeout t),
             sm_modify (\<lambda>s. s\<lparr>session_connected := True, replay_filter := no_suppression,
               catch_up_active := False, catch_up_replay := [], sent_audio := False\<rparr>)]"

definition announce_recovery :: "duration \<Rightarrow> unit run" where
  "announce_recovery outage =
     sm_then (send_event (RecoveryStarted (as_millis_u64 outage)))
       (sm_bind (sm_gets (\<lambda>s. acknowledged_ms (recovery s))) (\<lambda>acknowledged.
         send_event (AudioProgress acknowledged acknowledged (as_millis_u64 outage))))"

definition reported_outage :: "duration \<Rightarrow> bool \<Rightarrow> recovery_state \<Rightarrow> duration" where
  "reported_outage outage skips r =
     (if skips then max (max outage (sent_backlog r)) (CONTINUITY_WINDOW + millis 1) else outage)"

text \<open>A replacement connection replays what its predecessor left unacknowledged, at once or paced.\<close>

definition send_replay :: "stream_timeouts \<Rightarrow> duration \<Rightarrow> replay_frame list \<Rightarrow> unit run" where
  "send_replay t outage replay =
     (if outage > fast_reconnect_window t \<and> outage \<le> CONTINUITY_WINDOW
      then sm_modify (\<lambda>s. s\<lparr>catch_up_replay := map frame_pcm replay, catch_up_active := True\<rparr>)
      else sm_mapM (\<lambda>f.
        sm_then (send_message (AudioFrame (frame_pcm f)) ''Soniox stream recovery audio send'' (write_timeout t))
          (sm_modify (\<lambda>s. s\<lparr>sent_audio := True\<rparr>))) replay)"

text \<open>After an outage too long to continue the queue is discarded, but counted.\<close>

definition discard_queue :: "lane \<Rightarrow> lane" where
  "discard_queue s =
     s\<lparr>recovery := re_anchor_to_live_edge (fold (\<lambda>pcm. note_discarded (length pcm)) (audio_queue s) (recovery s)),
       audio_queue := []\<rparr>"

definition take_replay :: "duration \<Rightarrow> replay_frame list run" where
  "take_replay outage = (\<lambda>s.
     let (replay, r) = prepare_replay outage (recovery s)
     in (Inr replay, s\<lparr>recovery := r, replay_filter := after_replay (replay_duplicate_until_provider_ms r)\<rparr>))"

definition rejoin :: "stream_timeouts \<Rightarrow> duration \<Rightarrow> bool \<Rightarrow> unit run" where
  "rejoin t outage0 skips =
     sm_bind (sm_gets (\<lambda>s. reported_outage outage0 skips (recovery s))) (\<lambda>outage.
       sm_then (announce_recovery outage)
         (sm_bind (take_replay outage) (\<lambda>replay.
           sm_then (send_replay t outage replay)
             (sm_when (outage > CONTINUITY_WINDOW) (sm_modify discard_queue)))))"

definition resume_timeline :: "stream_timeouts \<Rightarrow> duration option \<Rightarrow> bool \<Rightarrow> bool \<Rightarrow> unit run" where
  "resume_timeline t outage skips after_handover =
     (case outage of
        None \<Rightarrow> on_recovery first_connection
      | Some d \<Rightarrow>
          if after_handover \<and> d \<le> CONTINUITY_WINDOW
          then sm_then (on_recovery re_anchor_to_live_edge) (announce_recovery d)
          else rejoin t d skips)"

text \<open>A pause heard while there was no connection: what was accepted before it is sent and closed.\<close>

definition close_paused_utterance :: "stream_timeouts \<Rightarrow> unit run" where
  "close_paused_utterance t =
     sm_bind (sm_gets lane_paused) (\<lambda>p. sm_when p
       (sm_then (flush_audio (write_timeout t))
         (sm_bind (sm_gets sent_audio) (\<lambda>sent. sm_when sent (finalize_now t)))))"

definition far_future :: duration where
  "far_future = seconds (365 * 24 * 60 * 60)"

definition start_loop_state :: "stream_timeouts \<Rightarrow> lane \<Rightarrow> lane" where
  "start_loop_state t s =
     s\<lparr>draining := False, audio_open := True, control_open := True,
       keepalive_at := time_now s + (if lane_paused s then keepalive t else far_future),
       drain_at := time_now s + far_future, idle_at := time_now s + receive_idle t,
       handover_at := (case handover s of None \<Rightarrow> time_now s + far_future
         | Some schedule \<Rightarrow> watch_from schedule),
       waiting_for_pause := False, handing_over := False, quiet_level := 0,
       long_utterance := closer_starting_at (next_audio_ms (recovery s)), catch_up_at := time_now s\<rparr>"

text \<open>Everything before the loop. \<open>Done\<close> is the early return of a stop with nothing to finish.\<close>

definition begin_session ::
    "stream_timeouts \<Rightarrow> stt_config \<Rightarrow> duration option \<Rightarrow> bool \<Rightarrow> bool \<Rightarrow> bool \<Rightarrow> flow run" where
  "begin_session t config outage skips after_handover finish_requested =
     sm_then (sm_seq [resume_timeline t outage skips after_handover, close_paused_utterance t,
         send_event Connected, sm_modify (start_loop_state t)])
       (if finish_requested then finish_lane t else sm_return Continue)"

text \<open>What happens around one connection attempt.\<close>

record attempt_script =
  mint_wait :: "world_event list"
  dial_outcome :: dial
  dial_wait :: "world_event list"
  loop_events :: "world_event list list"

definition open_socket ::
    "(stt_error \<Rightarrow> ustring) \<Rightarrow> credential_source \<Rightarrow> stream_timeouts \<Rightarrow> stt_config \<Rightarrow> attempt_script \<Rightarrow>
     unit run" where
  "open_socket display source t config a =
     sm_bind (take_credential display source (mint_wait a)) (\<lambda>c.
       sm_bind (sm_gets time_now) (\<lambda>dialed_at.
         sm_then (dial_socket t (dial_outcome a) (dial_wait a) c)
           (configure_socket t config c dialed_at)))"

definition run_stream_session ::
    "(stt_error \<Rightarrow> ustring) \<Rightarrow> credential_source \<Rightarrow> stream_timeouts \<Rightarrow> stt_config \<Rightarrow> attempt_script \<Rightarrow>
     duration option \<Rightarrow> bool \<Rightarrow> bool \<Rightarrow> bool \<Rightarrow> flow run" where
  "run_stream_session display source t config a outage skips after_handover finish_requested =
     sm_then (open_socket display source t config a)
       (sm_bind (begin_session t config outage skips after_handover finish_requested) (\<lambda>flow.
         case flow of Done \<Rightarrow> sm_return Done | Continue \<Rightarrow> session_loop t config (loop_events a)))"

end
