(* ===== verification/Stream_Run.thy ===== *)
theory Stream_Run
  imports Stream_Session
begin

text \<open>
  Crate \<open>vt-stt\<close>, \<open>soniox_stream.rs\<close>: the life of a lane over its connections
  (\<open>run_stream\<close>, \<open>wait_for_reconnect\<close>, the task of \<open>start_with_timeouts\<close>). Every
  connection attempt and every wait comes with a script of what the world does meanwhile.
\<close>

section \<open>Waiting to reconnect\<close>

datatype reconnect_wait = Retry | WaitCancelled | WaitFinish

text \<open>One iteration of the waiting \<open>select!\<close>; the flag is the local \<open>audio_open\<close>. \<open>None\<close>
  keeps waiting.\<close>

definition wait_step ::
    "instant \<Rightarrow> bool \<Rightarrow> bool \<Rightarrow> bool \<times> lane \<Rightarrow> reconnect_wait option \<times> bool \<times> lane" where
  "wait_step wake_at shed_audio finishing = (\<lambda>(wait_open, s).
     if cancelled s then (Some WaitCancelled, wait_open, s)
     else if \<not> finishing \<and> (control_queue s \<noteq> [] \<or> control_closed s) then
       (case control_queue s of
          [] \<Rightarrow> (Some WaitFinish, wait_open, s)
        | c # cs \<Rightarrow>
            (let s' = s\<lparr>control_queue := cs\<rparr>
             in case c of
                  Pause \<Rightarrow> (None, wait_open, s'\<lparr>lane_paused := True\<rparr>)
                | Resume \<Rightarrow> (None, wait_open, s'\<lparr>lane_paused := False\<rparr>)
                | Finish \<Rightarrow> (Some WaitFinish, wait_open, s')
                | Finalize \<Rightarrow> (None, wait_open, s')
                | Keepalive \<Rightarrow> (None, wait_open, s')))
     else if shed_audio \<and> wait_open \<and> (audio_queue s \<noteq> [] \<or> audio_closed s) then
       (case audio_queue s of
          [] \<Rightarrow> (None, False, s)
        | pcm # queue \<Rightarrow>
            (None, wait_open, s\<lparr>audio_queue := queue, recovery := note_discarded (length pcm) (recovery s)\<rparr>))
     else if wake_at \<le> time_now s then (Some Retry, wait_open, s)
     else (None, wait_open, s))"

text \<open>The wait over what the world does before each iteration; \<open>None\<close> is a wait still going on.\<close>

fun wait_loop ::
    "instant \<Rightarrow> bool \<Rightarrow> bool \<Rightarrow> world_event list list \<Rightarrow> bool \<times> lane \<Rightarrow> reconnect_wait option \<times> lane" where
  "wait_loop wake_at shed_audio finishing [] (wait_open, s) = (None, s)"
| "wait_loop wake_at shed_audio finishing (events # rest) (wait_open, s) =
     (case wait_step wake_at shed_audio finishing (wait_open, fold world events s) of
        (Some r, _, s') \<Rightarrow> (Some r, s')
      | (None, wait_open', s') \<Rightarrow> wait_loop wake_at shed_audio finishing rest (wait_open', s'))"

definition wait_for_reconnect ::
    "duration \<Rightarrow> bool \<Rightarrow> bool \<Rightarrow> world_event list list \<Rightarrow> lane \<Rightarrow> reconnect_wait option \<times> lane" where
  "wait_for_reconnect delay shed_audio finishing script s =
     wait_loop (time_now s + delay) shed_audio finishing script (True, s)"

section \<open>The reconnect decision\<close>

record retry_state =
  reconnect_attempt :: nat
  disconnected_at :: "instant option"
  skip_to_live_edge :: bool
  handed_over :: bool
  finish_requested :: bool

definition first_attempt :: retry_state where
  "first_attempt = \<lparr>reconnect_attempt = 0, disconnected_at = None, skip_to_live_edge = False,
     handed_over = False, finish_requested = False\<rparr>"

text \<open>\<open>u8::saturating_add(1)\<close>.\<close>

definition next_attempt :: "nat \<Rightarrow> nat" where
  "next_attempt n = min (n + 1) 255"

record retry_plan =
  plan_state :: retry_state
  plan_delay :: duration
  plan_planned :: bool
  plan_shed :: bool

text \<open>The handler of a retryable failure, up to the \<open>Reconnecting\<close> event; \<open>None\<close> is giving up
  because the outage outlived the budget.\<close>

definition plan_retry ::
    "stream_timeouts \<Rightarrow> stream_failure \<Rightarrow> bool \<Rightarrow> instant \<Rightarrow> instant \<Rightarrow> retry_state \<Rightarrow> retry_plan option" where
  "plan_retry t f was_connected session_started failed_at rs =
     (let since = (if was_connected then failed_at
                   else case disconnected_at rs of None \<Rightarrow> failed_at | Some started \<Rightarrow> started);
          outage = failed_at - since;
          attempt = next_attempt (if was_connected then 0 else reconnect_attempt rs);
          rolls_over_now = (failure_rollover f \<noteq> NoRollover \<and> was_connected \<and>
            failed_at - session_started \<ge> immediate_rollover_min_session t);
          delay = (if rolls_over_now then 0 else reconnect_delay (reconnect_base_delay t) attempt)
      in if (case reconnect_outage_budget t of None \<Rightarrow> False | Some budget \<Rightarrow> outage \<ge> budget) then None
         else Some \<lparr>plan_state = rs\<lparr>reconnect_attempt := attempt, disconnected_at := Some since,
                      skip_to_live_edge := skips_to_live_edge f,
                      handed_over := (failure_rollover f = HandedOver)\<rparr>,
                    plan_delay = delay, plan_planned = rolls_over_now,
                    plan_shed = (outage > CONTINUITY_WINDOW \<or> skips_to_live_edge f)\<rparr>)"

section \<open>The lane\<close>

record epoch =
  attempt :: attempt_script
  wait_events :: "world_event list list"

datatype lane_result = LaneEnded | LaneFailed stream_failure | LaneRunning

definition initial_lane :: "u64 \<Rightarrow> lane" where
  "initial_lane capture_origin_ms =
     \<lparr>time_now = 0, cancelled = False, control_queue = [], control_closed = False, audio_queue = [],
      audio_closed = False, inbound = [], write_script = [], receiver_open = True, wire = [],
      emitted = [], minted = 0, lane_paused = False, session_connected = False,
      recovery = starting_at capture_origin_ms, unpresented_credential = None,
      replay_filter = no_suppression, catch_up_active = False, catch_up_replay = [],
      catch_up_at = 0, sent_audio = False, draining = False, audio_open = True,
      control_open = True, keepalive_at = 0, drain_at = 0, idle_at = 0, handover_at = 0,
      handover = None, waiting_for_pause = False, handing_over = False, quiet_level = 0,
      long_utterance = closer_starting_at 0\<rparr>"

text \<open>One turn of the loop of \<open>run_stream\<close>: a session and, after a retryable failure, the wait.\<close>

datatype turn = Stop lane_result | Again retry_state

definition reconnecting_event :: "retry_plan \<Rightarrow> stream_event" where
  "reconnecting_event p =
     Reconnecting (reconnect_attempt (plan_state p)) (as_millis_u64 (plan_delay p)) (plan_planned p)"

definition await_retry :: "retry_plan \<Rightarrow> world_event list list \<Rightarrow> lane \<Rightarrow> turn \<times> lane" where
  "await_retry p script s =
     (case send_event (reconnecting_event p) s of
        (Inl f, s') \<Rightarrow> (Stop (LaneFailed f), s')
      | (Inr _, s') \<Rightarrow>
          (case wait_for_reconnect (plan_delay p) (plan_shed p) (finish_requested (plan_state p)) script s' of
             (None, s'') \<Rightarrow> (Stop LaneRunning, s'')
           | (Some Retry, s'') \<Rightarrow> (Again (plan_state p), s'')
           | (Some WaitCancelled, s'') \<Rightarrow> (Stop LaneEnded, s'')
           | (Some WaitFinish, s'') \<Rightarrow> (Again ((plan_state p)\<lparr>finish_requested := True\<rparr>), s'')))"

definition lane_turn ::
    "(stt_error \<Rightarrow> ustring) \<Rightarrow> credential_source \<Rightarrow> stream_timeouts \<Rightarrow> stt_config \<Rightarrow> epoch \<Rightarrow>
     retry_state \<Rightarrow> lane \<Rightarrow> turn \<times> lane" where
  "lane_turn display source t config e rs s =
     (let outage = map_option (\<lambda>started. time_now s - started) (disconnected_at rs);
          rs' = rs\<lparr>skip_to_live_edge := False, handed_over := False\<rparr>
      in case run_stream_session display source t config (attempt e) outage (skip_to_live_edge rs)
                (handed_over rs) (finish_requested rs) (s\<lparr>session_connected := False\<rparr>) of
           (Inr Done, s') \<Rightarrow> (Stop LaneEnded, s')
         | (Inr Continue, s') \<Rightarrow> (Stop LaneRunning, s')
         | (Inl f, s') \<Rightarrow>
             (if is_retryable f
              then case plan_retry t f (session_connected s') (time_now s) (time_now s') rs' of
                     None \<Rightarrow> (Stop (LaneFailed f), s')
                   | Some p \<Rightarrow> await_retry p (wait_events e) s'
              else (Stop (LaneFailed f), s')))"

fun run_stream ::
    "(stt_error \<Rightarrow> ustring) \<Rightarrow> credential_source \<Rightarrow> stream_timeouts \<Rightarrow> stt_config \<Rightarrow> epoch list \<Rightarrow>
     retry_state \<Rightarrow> lane \<Rightarrow> lane_result \<times> lane" where
  "run_stream display source t config [] rs s = (LaneRunning, s)"
| "run_stream display source t config (e # es) rs s =
     (case lane_turn display source t config e rs s of
        (Stop r, s') \<Rightarrow> (r, s')
      | (Again rs', s') \<Rightarrow> run_stream display source t config es rs' s')"

text \<open>The task: a failed lane reports its failure as the last event (\<open>let _ = send(..)\<close>).\<close>

definition lane_task ::
    "(stt_error \<Rightarrow> ustring) \<Rightarrow> credential_source \<Rightarrow> stream_timeouts \<Rightarrow> stt_config \<Rightarrow> epoch list \<Rightarrow>
     u64 \<Rightarrow> lane_result \<times> lane" where
  "lane_task display source t config es origin =
     (case run_stream display source t config es first_attempt (initial_lane origin) of
        (LaneFailed f, s) \<Rightarrow> (LaneFailed f, snd (send_event (StreamFailed (event_error f)) s))
      | r \<Rightarrow> r)"

end
