(* ===== verification/Stream_Session_Laws.thy ===== *)
theory Stream_Session_Laws
  imports Stream_Run
begin

text \<open>
  What holds of a lane over its whole life, whatever the world does. \<open>advances\<close>: every change of the
  timeline is a run of the clock of theory \<open>Stream_Clock\<close>, and the reported progress never
  goes back. \<open>wire_ok\<close>: what a connection may send. Both are proved once per operation and
  compose over the combinators, the session loop and the reconnect loop.
\<close>

section \<open>The timeline of a lane\<close>

fun progress_total :: "stream_event \<Rightarrow> u64 list" where
  "progress_total (AudioProgress final_ms total_ms lag) = [total_ms]"
| "progress_total _ = []"

definition progress_totals :: "stream_event list \<Rightarrow> u64 list" where
  "progress_totals es = concat (map progress_total es)"

definition reported_in_order :: "lane \<Rightarrow> bool" where
  "reported_in_order s \<longleftrightarrow>
     recovery_ok (recovery s) \<and> sorted (progress_totals (emitted s)) \<and>
     (\<forall>p \<in> set (progress_totals (emitted s)). p \<le> acknowledged_ms (recovery s))"

definition advances :: "lane \<Rightarrow> lane \<Rightarrow> bool" where
  "advances s t \<longleftrightarrow>
     (\<exists>es. recovery t = clock_run es (recovery s)) \<and> (reported_in_order s \<longrightarrow> reported_in_order t)"

lemma clock_run_append: "clock_run (es @ fs) r = clock_run fs (clock_run es r)"
  by (simp add: clock_run_def)

lemma clock_run_simps [simp]:
  "clock_run [] r = r" "clock_run (e # es) r = clock_run es (clock_step e r)"
  by (simp_all add: clock_run_def)

interpretation adv: state_preorder advances
proof
  fix s t u
  show "advances s s" unfolding advances_def by (metis clock_run_simps(1))
  assume "advances s t" and "advances t u"
  then show "advances s u" unfolding advances_def by (metis clock_run_append)
qed

lemma reported_clock:
  assumes "reported_in_order s" and "recovery t = clock_run es (recovery s)" and "emitted t = emitted s"
  shows "reported_in_order t"
  using assms clock_run_ok [of "recovery s" es] by (auto simp: reported_in_order_def intro: le_trans)

lemma advances_clock:
  "recovery t = clock_run es (recovery s) \<Longrightarrow> emitted t = emitted s \<Longrightarrow> advances s t"
  unfolding advances_def using reported_clock by blast

lemma advances_same: "recovery t = recovery s \<Longrightarrow> emitted t = emitted s \<Longrightarrow> advances s t"
  using advances_clock [of t "[]" s] by simp

lemma progress_totals_append [simp]: "progress_totals (es @ fs) = progress_totals es @ progress_totals fs"
  by (simp add: progress_totals_def)

lemma progress_totals_simps [simp]:
  "progress_totals [] = []" "progress_totals (e # es) = progress_total e @ progress_totals es"
  by (simp_all add: progress_totals_def)

named_theorems advancing

lemmas [advancing] = adv.keeps_intros

lemma adv_modify: "(\<And>s. recovery (f s) = recovery s \<and> emitted (f s) = emitted s) \<Longrightarrow> keeps advances (sm_modify f)"
  by (rule adv.keeps_modify) (simp add: advances_same)

lemma advances_recovery: "\<exists>es. r = clock_run es (recovery s) \<Longrightarrow> advances s (s\<lparr>recovery := r\<rparr>)"
  by (auto intro: advances_clock)

lemma adv_recovery:
  assumes "\<And>r. \<exists>es. f r = clock_run es r" shows "keeps advances (on_recovery f)"
  unfolding on_recovery_def by (rule adv.keeps_modify) (rule advances_recovery [OF assms])

lemma adv_clock:
  "keeps advances (on_recovery (record_sent pcm))"
  "keeps advances (on_recovery note_finalize_sent)"
  "keeps advances (on_recovery (note_finalize_answered p))"
  "keeps advances (on_recovery first_connection)"
  "keeps advances (on_recovery re_anchor_to_live_edge)"
proof -
  have one: "keeps advances (on_recovery f)" if "\<And>r. f r = clock_run [e] r" for f e
    using that by (intro adv_recovery) blast
  show "keeps advances (on_recovery (record_sent pcm))" by (rule one [of _ "RecordSent pcm"]) simp
  show "keeps advances (on_recovery note_finalize_sent)" by (rule one [of _ FinalizeSent]) simp
  show "keeps advances (on_recovery (note_finalize_answered p))"
    by (rule one [of _ "FinalizeAnswered p"]) simp
  show "keeps advances (on_recovery first_connection)" by (rule one [of _ FirstConnection]) simp
  show "keeps advances (on_recovery re_anchor_to_live_edge)" by (rule one [of _ ReAnchor]) simp
qed

lemma adv_send_message: "keeps advances (send_message f operation limit)"
  by (auto simp: keeps_def send_message_def advances_same split: list.splits write_outcome.splits)

lemma advances_emit:
  assumes "\<And>p. p \<in> set (progress_total e) \<Longrightarrow>
      p \<le> acknowledged_ms (recovery s) \<and> (\<forall>q \<in> set (progress_totals (emitted s)). q \<le> p)"
  shows "advances s (s\<lparr>emitted := emitted s @ [e]\<rparr>)"
proof -
  have "recovery (s\<lparr>emitted := emitted s @ [e]\<rparr>) = clock_run [] (recovery s)" by simp
  moreover have "reported_in_order s \<Longrightarrow> reported_in_order (s\<lparr>emitted := emitted s @ [e]\<rparr>)"
    using assms by (cases e) (auto simp: reported_in_order_def sorted_append)
  ultimately show ?thesis unfolding advances_def by blast
qed

lemma adv_send_event: "progress_total e = [] \<Longrightarrow> keeps advances (send_event e)"
  by (auto simp: keeps_def send_event_def advances_same intro: advances_emit)

lemmas [advancing] = adv_clock adv_send_message adv_modify

lemma adv_seq: "list_all (keeps advances) ms \<Longrightarrow> keeps advances (sm_seq ms)"
  by (induction ms) (auto intro: advancing)

lemma adv_drain_replay: "keeps advances (drain_replay limit replay sent)"
  by (induction replay arbitrary: sent) (auto intro!: advancing)

lemma adv_drain_queue: "keeps advances (drain_queue limit queue sent)"
  by (induction queue arbitrary: sent) (auto intro!: advancing)

lemma adv_flush_audio: "keeps advances (flush_audio limit)"
  by (auto simp: flush_audio_def drain_queued_audio_def
      intro!: advancing adv_drain_replay adv_drain_queue)

lemma adv_begin_drain: "keeps advances (begin_drain t)"
  by (auto simp: begin_drain_def intro!: advancing)

lemma adv_finalize_now: "keeps advances (finalize_now t)"
  by (auto simp: finalize_now_def send_control_def intro!: advancing)

lemmas [advancing] = adv_flush_audio adv_begin_drain adv_finalize_now

lemma progress_total_control_event: "control_event t = Some e \<Longrightarrow> progress_total e = []"
  by (auto simp: control_event_def split: if_splits)

lemma split_response_controls:
  "e \<in> set (snd (split_response r tokens)) \<Longrightarrow> progress_total e = []"
  by (induction tokens) (auto simp: split_beta Let_def progress_total_control_event split: option.splits)

lemma adv_mapM_events:
  "(\<And>e. e \<in> set es \<Longrightarrow> progress_total e = []) \<Longrightarrow> keeps advances (sm_mapM send_event es)"
  by (induction es) (auto intro!: advancing adv_send_event)

lemma adv_emit_response: "keeps advances (emit_response_events tokens)"
  unfolding emit_response_events_def
  by (intro adv.keeps_bind adv.keeps_gets)
    (auto simp: split_beta Let_def dest: split_response_controls
      intro!: adv.keeps_then adv.keeps_when adv_send_event adv_mapM_events)

lemma advances_update:
  "advances s t \<Longrightarrow> recovery u = recovery t \<Longrightarrow> emitted u = emitted t \<Longrightarrow> advances s u"
  using adv.trans advances_same by blast

lemma adv_filter: "keeps advances (filter_replayed resp)"
  by (auto simp: keeps_def filter_replayed_def split_beta Let_def intro: advances_same)

lemma adv_boundary: "keeps advances (note_boundary resp kept)"
  by (auto simp: note_boundary_def Let_def intro!: advancing)

lemma adv_acknowledge:
  "advances s (snd (send_event
     (AudioProgress f (fst (fst (acknowledge p (recovery s)))) lag)
     (s\<lparr>recovery := snd (acknowledge p (recovery s))\<rparr>)))"
proof -
  let ?r = "snd (acknowledge p (recovery s))"
  let ?s = "s\<lparr>recovery := ?r\<rparr>"
  let ?ack = "fst (fst (acknowledge p (recovery s)))"
  have ack: "?ack = acknowledged_ms ?r" by (simp add: acknowledge_def Let_def)
  have "?r = clock_run [Acknowledge p] (recovery s)" by simp
  then have adv: "advances s ?s" by (intro advances_recovery) blast
  have "advances s (?s\<lparr>emitted := emitted ?s @ [AudioProgress f ?ack lag]\<rparr>)"
    unfolding advances_def
  proof (intro conjI impI)
    show "\<exists>es. recovery (?s\<lparr>emitted := emitted ?s @ [AudioProgress f ?ack lag]\<rparr>) = clock_run es (recovery s)"
      using adv by (simp add: advances_def)
    assume "reported_in_order s"
    with adv have "reported_in_order ?s" by (simp add: advances_def)
    then show "reported_in_order (?s\<lparr>emitted := emitted ?s @ [AudioProgress f ?ack lag]\<rparr>)"
      using ack by (auto simp: reported_in_order_def sorted_append)
  qed
  with adv show ?thesis by (simp add: send_event_def)
qed

lemma adv_report_progress: "keeps advances (report_progress resp)"
proof (cases "resp_total_ms resp")
  case None
  then show ?thesis by (simp add: report_progress_def adv.keeps_return)
next
  case (Some p)
  show ?thesis
    unfolding report_progress_def Some option.case
    by (intro adv.keeps_then adv.keeps_when adv_clock)
      (simp add: keeps_def split_beta Let_def adv_acknowledge del: snd_conv)
qed

lemma adv_hand_over: "keeps advances (hand_over t)"
  unfolding hand_over_def by (rule adv_seq) (auto intro!: advancing)

lemma adv_on_finished: "keeps advances on_finished"
  unfolding on_finished_def by (auto split: prod.split intro!: advancing adv_send_event)

lemmas [advancing] = adv_hand_over adv_on_finished adv_filter adv_boundary adv_report_progress
  adv_emit_response

lemma adv_on_response: "keeps advances (on_response t resp)"
  unfolding on_response_def by (auto split: option.split intro!: advancing)

lemma adv_next_message: "keeps advances (next_message t)"
  by (simp add: keeps_def next_message_def advances_same)

lemma adv_recv: "keeps advances recv_control" "keeps advances recv_audio"
  by (auto simp: keeps_def recv_control_def recv_audio_def advances_same split: list.split)

lemma adv_send_control: "keeps advances (send_control c limit)"
  by (simp add: send_control_def adv_send_message)

lemma adv_finish_lane: "keeps advances (finish_lane t)"
  unfolding finish_lane_def by (auto intro!: advancing adv_send_event)

lemma adv_detectors: "keeps advances (ask_closer quiet pcm)" "keeps advances (observe_quiet pcm)"
  by (auto simp: keeps_def ask_closer_def observe_quiet_def split_beta Let_def intro: advances_same)

lemmas [advancing] = adv_on_response adv_next_message adv_recv adv_send_control adv_finish_lane adv_seq
  adv_detectors

lemma adv_branches:
  "keeps advances (on_message t)" "keeps advances (on_control t c)" "keeps advances (on_catch_up t)"
  "keeps advances (close_long_utterance t config quiet pcm)"
  unfolding on_message_def on_control_def next_catch_up_def on_catch_up_def catch_up_block_def
    close_long_utterance_def
  by (auto intro!: advancing
      split: inbound_message.split sum.split option.split stt_control.split list.split)

lemmas [advancing] = adv_branches

lemma adv_timers:
  "keeps advances (on_audio t config)" "keeps advances (on_keepalive t)"
  "keeps advances (on_drain_timeout t)" "keeps advances (on_handover_timer t)"
  unfolding on_audio_def live_block_def check_live_edge_def on_keepalive_def on_drain_timeout_def
    on_handover_timer_def
  by (auto intro!: advancing split: option.split)

lemmas [advancing] = adv_timers

lemma keepsI: "(\<And>s. R s (snd (m s))) \<Longrightarrow> keeps R m"
  by (simp add: keeps_def)

lemma keeps_at: "keeps R m \<Longrightarrow> R s (snd (m s))"
  by (simp add: keeps_def)

text \<open>An iteration runs one of its branches, ends, waits or times out.\<close>

lemma session_step_cases [case_names cancel control message catch_up audio keepalive drain handover idle wait]:
  assumes "cancelled s \<Longrightarrow> P (Inr Done, s)"
    and "\<lbrakk>\<not> cancelled s; control_open s; \<not> draining s; control_queue s \<noteq> [] \<or> control_closed s\<rbrakk>
      \<Longrightarrow> P (sm_bind recv_control (on_control t) s)"
    and "\<lbrakk>\<not> cancelled s; inbound s \<noteq> []\<rbrakk> \<Longrightarrow> P (on_message t s)"
    and "\<lbrakk>catch_up_active s; \<not> draining s\<rbrakk> \<Longrightarrow> P (on_catch_up t s)"
    and "\<lbrakk>\<not> catch_up_active s; \<not> draining s\<rbrakk> \<Longrightarrow> P (on_audio t config s)"
    and "\<lbrakk>lane_paused s; \<not> draining s\<rbrakk> \<Longrightarrow> P (on_keepalive t s)"
    and "\<lbrakk>draining s\<rbrakk> \<Longrightarrow> P (on_drain_timeout t s)"
    and "\<lbrakk>\<not> draining s\<rbrakk> \<Longrightarrow> P (on_handover_timer t s)"
    and "P (Inl (failure_timeout (lit ''Soniox stream response receive'') (receive_idle t)), s)"
    and "P (Inr Continue, s)"
  shows "P (session_step t config s)"
  unfolding session_step_def using assms by (simp split: if_split)

lemma adv_session_step: "keeps advances (session_step t config)"
proof (rule keepsI)
  fix s :: lane
  show "advances s (snd (session_step t config s))"
  proof (rule session_step_cases)
    show "advances s (snd (sm_bind recv_control (on_control t) s))"
      by (rule keeps_at [of advances]) (intro adv.keeps_bind adv_recv adv_branches)
  qed (simp_all add: adv.refl adv_branches [THEN keeps_at] adv_timers [THEN keeps_at])
qed

lemma world_frame [simp]:
  "recovery (world e s) = recovery s" "emitted (world e s) = emitted s" "wire (world e s) = wire s"
  "draining (world e s) = draining s" "minted (world e s) = minted s"
  "unpresented_credential (world e s) = unpresented_credential s"
  by (cases e; simp)+

lemma fold_world_frame [simp]:
  "recovery (fold world es s) = recovery s" "emitted (fold world es s) = emitted s"
  "wire (fold world es s) = wire s" "draining (fold world es s) = draining s"
  "minted (fold world es s) = minted s"
  "unpresented_credential (fold world es s) = unpresented_credential s"
  by (induction es arbitrary: s) auto

lemma adv_session_loop: "keeps advances (session_loop t config script)"
proof (induction script)
  case Nil
  show ?case by (simp add: adv.keeps_return)
next
  case (Cons events script)
  show ?case
    unfolding session_loop.simps
    by (intro adv.keeps_then adv_modify adv.keeps_bind adv_session_step)
      (auto split: flow.split intro: Cons.IH advancing)
qed

lemma adv_take_credential: "keeps advances (take_credential display source waiting)"
  by (rule keepsI)
    (auto simp: take_credential_def Let_def intro: advances_same split: option.split sum.split)

lemma adv_open_socket: "keeps advances (open_socket display source t config a)"
  unfolding open_socket_def dial_socket_def configure_socket_def keep_unpresented_def
  by (auto split: dial.split intro!: advancing adv_take_credential)

lemma advances_report:
  "a = acknowledged_ms (recovery u) \<Longrightarrow> advances u (snd (send_event (AudioProgress a a lag) u))"
proof -
  assume a: "a = acknowledged_ms (recovery u)"
  have "advances u (u\<lparr>emitted := emitted u @ [AudioProgress a a lag]\<rparr>)"
    unfolding advances_def
  proof (intro conjI impI)
    show "\<exists>es. recovery (u\<lparr>emitted := emitted u @ [AudioProgress a a lag]\<rparr>) = clock_run es (recovery u)"
      by (rule exI [of _ "[]"]) simp
    show "reported_in_order (u\<lparr>emitted := emitted u @ [AudioProgress a a lag]\<rparr>)" if "reported_in_order u"
      using that a by (auto simp: reported_in_order_def sorted_append)
  qed
  then show ?thesis by (simp add: send_event_def adv.refl)
qed

lemma adv_announce: "keeps advances (announce_recovery outage)"
  unfolding announce_recovery_def
  by (rule adv.keeps_then, simp add: adv_send_event)
    (simp add: keeps_def sm_bind_def sm_gets_def advances_report)

lemma fold_discarded: "\<exists>es. fold (\<lambda>pcm. note_discarded (length pcm)) queue r = clock_run es r"
proof (intro exI [of _ "map (\<lambda>pcm. Discard (length pcm)) queue"])
  show "fold (\<lambda>pcm. note_discarded (length pcm)) queue r = clock_run (map (\<lambda>pcm. Discard (length pcm)) queue) r"
    by (induction queue arbitrary: r) simp_all
qed

lemma adv_discard_queue: "keeps advances (sm_modify discard_queue)"
proof (rule adv.keeps_modify)
  fix s :: lane
  obtain es where es: "fold (\<lambda>pcm. note_discarded (length pcm)) (audio_queue s) (recovery s) = clock_run es (recovery s)"
    using fold_discarded by blast
  show "advances s (discard_queue s)"
    by (rule advances_clock [of _ "es @ [ReAnchor]"]) (simp_all add: discard_queue_def es clock_run_append)
qed

lemma adv_take_replay: "keeps advances (take_replay outage)"
proof (rule keepsI)
  fix s :: lane
  show "advances s (snd (take_replay outage s))"
    by (rule advances_clock [of _ "[Replay outage]"]) (simp_all add: take_replay_def split_beta Let_def)
qed

lemma adv_begin_session: "keeps advances (begin_session t config outage skips after_handover finish)"
  unfolding begin_session_def resume_timeline_def rejoin_def send_replay_def close_paused_utterance_def
  by (auto simp: start_loop_state_def split: option.split
      intro!: advancing adv_announce adv_discard_queue adv_take_replay adv_send_event)

lemma adv_run_session:
  "keeps advances (run_stream_session display source t config a outage skips after_handover finish)"
  unfolding run_stream_session_def
  by (intro adv.keeps_then adv.keeps_bind adv_open_socket adv_begin_session)
    (auto split: flow.split intro: advancing adv_session_loop)

lemma advances_note_discarded:
  "advances s (s\<lparr>audio_queue := q, recovery := note_discarded n (recovery s)\<rparr>)"
  by (rule advances_clock [of _ "[Discard n]"]) simp_all

lemma wait_step_advances: "advances s (snd (snd (wait_step wake_at shed finishing (wait_open, s))))"
  unfolding wait_step_def
  by (auto simp: adv.refl advances_note_discarded Let_def intro: advances_same
      split: list.split stt_control.split)

lemma wait_loop_advances: "advances s (snd (wait_loop wake_at shed finishing script (wait_open, s)))"
proof (induction script arbitrary: wait_open s)
  case Nil
  show ?case by (simp add: adv.refl)
next
  case (Cons events script)
  obtain r wait_open' u where step: "wait_step wake_at shed finishing (wait_open, fold world events s) = (r, wait_open', u)"
    by (metis surj_pair)
  have "advances s (fold world events s)" by (simp add: advances_same)
  moreover have "advances (fold world events s) u"
    using wait_step_advances [of "fold world events s" wake_at shed finishing wait_open] step by simp
  ultimately have "advances s u" by (rule adv.trans)
  then show ?case using Cons.IH [of u wait_open'] by (auto simp: step split: option.split intro: adv.trans)
qed

lemma await_retry_advances: "advances s (snd (await_retry p script s))"
proof -
  obtain r u where send: "send_event (reconnecting_event p) s = (r, u)" by (metis surj_pair)
  have "advances s (snd (send_event (reconnecting_event p) s))"
    by (rule keeps_at [OF adv_send_event]) (simp add: reconnecting_event_def)
  with send have su: "advances s u" by simp
  show ?thesis
  proof (cases r)
    case (Inl f)
    with send su show ?thesis by (simp add: await_retry_def)
  next
    case (Inr x)
    let ?w = "wait_for_reconnect (plan_delay p) (plan_shed p) (finish_requested (plan_state p)) script u"
    have "advances u (snd ?w)" by (simp add: wait_for_reconnect_def wait_loop_advances)
    with su have "advances s (snd ?w)" by (rule adv.trans)
    moreover have "snd (await_retry p script s) = snd ?w"
      using send Inr
      by (auto simp: await_retry_def split: prod.split option.split reconnect_wait.split)
    ultimately show ?thesis by simp
  qed
qed

lemma lane_turn_advances: "advances s (snd (lane_turn display source t config e rs s))"
proof -
  let ?s = "s\<lparr>session_connected := False\<rparr>"
  let ?outage = "map_option (\<lambda>started. time_now s - started) (disconnected_at rs)"
  obtain r u where run: "run_stream_session display source t config (attempt e) ?outage
      (skip_to_live_edge rs) (handed_over rs) (finish_requested rs) ?s = (r, u)"
    by (metis surj_pair)
  have "advances ?s u" using keepsD [OF adv_run_session run] .
  then have su: "advances s u" by (rule adv.trans [OF advances_same, rotated 2]) simp_all
  then show ?thesis
    using run
    by (auto simp: lane_turn_def Let_def split: sum.split flow.split option.split
        intro: adv.trans await_retry_advances)
qed

lemma run_stream_advances: "advances s (snd (run_stream display source t config es rs s))"
proof (induction es arbitrary: rs s)
  case Nil
  show ?case by (simp add: adv.refl)
next
  case (Cons e es)
  obtain r u where turn: "lane_turn display source t config e rs s = (r, u)" by (metis surj_pair)
  have "advances s u" using lane_turn_advances [of s display source t config e rs] turn by simp
  then show ?case using Cons.IH [of u] by (auto simp: turn split: turn.split intro: adv.trans)
qed

lemma lane_task_advances: "advances (initial_lane origin) (snd (lane_task display source t config es origin))"
proof -
  obtain r u where run: "run_stream display source t config es first_attempt (initial_lane origin) = (r, u)"
    by (metis surj_pair)
  have iu: "advances (initial_lane origin) u"
    using run_stream_advances [of "initial_lane origin" display source t config es first_attempt] run by simp
  have "advances u (snd (send_event (StreamFailed e) u))" for e
    by (intro keeps_at [OF adv_send_event]) simp
  with iu run show ?thesis by (auto simp: lane_task_def split: lane_result.split intro: adv.trans)
qed


text \<open>C4. The progress a lane reports never goes back, also not over a reconnect, and never passes
  what its timeline has acknowledged.\<close>

theorem progress_never_goes_back:
  assumes "origin \<le> u64_max"
  shows "sorted (progress_totals (emitted (snd (lane_task display source t config epochs origin)))) \<and>
    (\<forall>p \<in> set (progress_totals (emitted (snd (lane_task display source t config epochs origin)))).
       p \<le> next_audio_ms (recovery (snd (lane_task display source t config epochs origin))))"
proof -
  let ?s = "snd (lane_task display source t config epochs origin)"
  have "reported_in_order (initial_lane origin)"
    using starting_at_ok [OF assms] by (simp add: reported_in_order_def initial_lane_def)
  then have "reported_in_order ?s" using lane_task_advances by (simp add: advances_def)
  then show ?thesis by (auto simp: reported_in_order_def recovery_ok_def intro: le_trans)
qed

end
