(* ===== verification/Stream_Protocol.thy ===== *)
theory Stream_Protocol
  imports Stream_Session_Laws
begin

text \<open>
  What a lane puts on its socket. \<open>wire_ok\<close> is the provider's protocol: the configuration is the
  first message of a connection and the only one of its kind, and nothing follows the empty frame
  that finishes it. \<open>silent\<close> operations write nothing; the others keep the protocol as long as
  the connection is not draining.
\<close>

section \<open>The protocol\<close>

fun is_config :: "frame \<Rightarrow> bool" where
  "is_config (ConfigFrame _) = True"
| "is_config _ = False"

fun wire_ok :: "frame list \<Rightarrow> bool" where
  "wire_ok [] = True"
| "wire_ok (f # rest) =
     (is_config f \<and> list_all (\<lambda>g. \<not> is_config g) rest \<and> FinishFrame \<notin> set (butlast rest))"

fun unfinished :: "frame list \<Rightarrow> bool" where
  "unfinished [] = False"
| "unfinished (f # rest) =
     (is_config f \<and> list_all (\<lambda>g. \<not> is_config g) rest \<and> FinishFrame \<notin> set rest)"

lemma unfinished_snoc:
  "unfinished w \<Longrightarrow> \<not> is_config f \<Longrightarrow> f \<noteq> FinishFrame \<Longrightarrow> unfinished (w @ [f])"
  by (cases w) auto

lemma unfinished_finish: "unfinished w \<Longrightarrow> wire_ok (w @ [FinishFrame])"
  by (cases w) auto

lemma unfinished_ok: "unfinished w \<Longrightarrow> wire_ok w"
  by (cases w) (auto dest: in_set_butlastD)

definition speaking :: "lane \<Rightarrow> bool" where
  "speaking s \<longleftrightarrow> unfinished (wire s) \<and> \<not> draining s"

definition session_ok :: "lane \<Rightarrow> bool" where
  "session_ok s \<longleftrightarrow> wire_ok (wire s) \<and> (\<not> draining s \<longrightarrow> unfinished (wire s))"

definition wire_fine :: "lane \<Rightarrow> bool" where
  "wire_fine s \<longleftrightarrow> wire_ok (wire s)"

lemma speaking_session: "speaking s \<Longrightarrow> session_ok s"
  by (simp add: speaking_def session_ok_def unfinished_ok)

lemma session_fine: "session_ok s \<Longrightarrow> wire_fine s"
  by (simp add: session_ok_def wire_fine_def)

section \<open>Operations that write nothing\<close>

definition silent :: "lane \<Rightarrow> lane \<Rightarrow> bool" where
  "silent s t \<longleftrightarrow> wire t = wire s \<and> draining t = draining s"

interpretation quiet: state_preorder silent
  by unfold_locales (auto simp: silent_def)

named_theorems silences

lemmas [silences] = quiet.keeps_intros

lemma silent_modify [silences]:
  "(\<And>s. wire (f s) = wire s \<and> draining (f s) = draining s) \<Longrightarrow> keeps silent (sm_modify f)"
  by (rule quiet.keeps_modify) (simp add: silent_def)

lemma silent_send_event [silences]: "keeps silent (send_event e)"
  by (auto simp: keeps_def send_event_def silent_def)

lemma silent_recovery [silences]: "keeps silent (on_recovery f)"
  unfolding on_recovery_def by (intro silences) simp

lemma silent_emit [silences]: "keeps silent (emit_response_events tokens)"
  unfolding emit_response_events_def by (auto simp: split_beta Let_def intro!: silences)

lemma silent_report [silences]: "keeps silent (report_progress resp)"
proof (cases "resp_total_ms resp")
  case (Some p)
  show ?thesis
    unfolding report_progress_def Some option.case
    by (intro quiet.keeps_then quiet.keeps_when silences)
      (auto simp: keeps_def split_beta Let_def silent_def send_event_def)
qed (simp add: report_progress_def quiet.keeps_return)

lemma silent_reads [silences]:
  "keeps silent (filter_replayed resp)" "keeps silent (next_message t)" "keeps silent recv_control"
  "keeps silent recv_audio" "keeps silent (ask_closer q pcm)" "keeps silent (observe_quiet pcm)"
  "keeps silent (take_replay outage)"
  by (auto simp: keeps_def filter_replayed_def next_message_def recv_control_def recv_audio_def
      ask_closer_def observe_quiet_def take_replay_def silent_def split_beta Let_def split: list.split)

lemma silent_more [silences]:
  "keeps silent (note_boundary resp kept)" "keeps silent on_finished" "keeps silent next_catch_up"
  "keeps silent (check_live_edge t)" "keeps silent (on_drain_timeout t)" "keeps silent (announce_recovery d)"
  unfolding note_boundary_def on_finished_def next_catch_up_def check_live_edge_def
    on_drain_timeout_def announce_recovery_def
  by (auto simp: Let_def intro!: silences split: list.split prod.split)

section \<open>Operations that keep an assertion\<close>

definition stable :: "(lane \<Rightarrow> bool) \<Rightarrow> 'a run \<Rightarrow> bool" where
  "stable P m \<longleftrightarrow> valid P m (\<lambda>_. P) wire_fine"

named_theorems stables

lemma stable_intros [stables]:
  "stable P (sm_return a)" "stable P (sm_gets f)"
  "(\<And>s. P s \<Longrightarrow> wire_fine s) \<Longrightarrow> stable P (sm_throw e)"
  "stable P m \<Longrightarrow> (\<And>a. stable P (g a)) \<Longrightarrow> stable P (sm_bind m g)"
  "stable P u \<Longrightarrow> stable P n \<Longrightarrow> stable P (sm_then u n)"
  "(b \<Longrightarrow> stable P v) \<Longrightarrow> stable P (sm_when b v)"
  by (auto simp: stable_def sm_when_def intro: valid_return valid_gets valid_throw valid_bind valid_then)

lemma stable_seq: "list_all (stable P) ms \<Longrightarrow> stable P (sm_seq ms)"
  by (induction ms) (auto intro: stables)

lemma stable_mapM: "(\<And>x. stable P (f x)) \<Longrightarrow> stable P (sm_mapM f xs)"
  unfolding stable_def
  by (induction xs) (auto intro: valid_return valid_then)

lemma stable_silent:
  assumes "keeps silent m" and "P = speaking \<or> P = session_ok \<or> P = wire_fine \<or> P = (\<lambda>s. unfinished (wire s))"
  shows "stable P m"
  unfolding stable_def valid_def
proof (intro allI impI)
  fix s assume s: "P s"
  obtain r t where rt: "m s = (r, t)" by (metis surj_pair)
  with assms(1) have same: "wire t = wire s" "draining t = draining s"
    by (auto simp: silent_def dest: keepsD)
  with assms(2) s have "P t" "wire_fine t"
    by (auto simp: speaking_def session_ok_def wire_fine_def unfinished_ok)
  with rt show "case m s of (Inl _, t) \<Rightarrow> wire_fine t | (Inr a, t) \<Rightarrow> P t" by (cases r) simp_all
qed

definition talking :: "lane \<Rightarrow> bool" where
  "talking s \<longleftrightarrow> unfinished (wire s)"

definition spoken :: "(lane \<Rightarrow> bool) \<Rightarrow> bool" where
  "spoken P \<longleftrightarrow> P = speaking \<or> P = talking"

lemma stable_quiet:
  "keeps silent m \<Longrightarrow> spoken P \<Longrightarrow> stable P m"
  "keeps silent m \<Longrightarrow> stable session_ok m"
  by (rule stable_silent; auto simp: spoken_def talking_def)+

lemma spoken_fine: "spoken P \<Longrightarrow> P s \<Longrightarrow> wire_fine s"
  by (auto simp: spoken_def speaking_def talking_def wire_fine_def unfinished_ok)

lemma stable_send:
  assumes "spoken P" and "\<not> is_config f" and "f \<noteq> FinishFrame"
  shows "stable P (send_message f operation limit)"
  using assms
  by (auto simp: stable_def valid_def send_message_def spoken_def speaking_def talking_def wire_fine_def
      unfinished_snoc unfinished_ok split: list.split write_outcome.split)

lemma stable_modify:
  "(\<And>s. wire (f s) = wire s \<and> draining (f s) = draining s) \<Longrightarrow> spoken P \<Longrightarrow> stable P (sm_modify f)"
  by (rule stable_quiet(1) [OF silent_modify])

lemma stable_recovery: "spoken P \<Longrightarrow> stable P (on_recovery f)"
  by (rule stable_quiet(1) [OF silent_recovery])

lemma stable_event: "spoken P \<Longrightarrow> stable P (send_event e)"
  by (rule stable_quiet(1) [OF silent_send_event])

lemmas spoken_rules = stable_modify stable_recovery stable_event stable_send

lemma stable_drain_replay: "spoken P \<Longrightarrow> stable P (drain_replay limit replay sent)"
  by (induction replay arbitrary: sent)
    (auto intro!: stables spoken_rules)

lemma stable_drain_queue: "spoken P \<Longrightarrow> stable P (drain_queue limit queue sent)"
  by (induction queue arbitrary: sent)
    (auto intro!: stables spoken_rules)

lemma stable_flush: "spoken P \<Longrightarrow> stable P (flush_audio limit)"
  unfolding flush_audio_def drain_queued_audio_def
  by (intro stables stable_drain_replay stable_drain_queue; (intro stable_quiet silences)?; simp)

lemma stable_control: "spoken P \<Longrightarrow> stable P (send_control c limit)"
  unfolding send_control_def by (rule stable_send) simp_all

lemma stable_finalize: "spoken P \<Longrightarrow> stable P (finalize_now t)"
  unfolding finalize_now_def by (intro stables stable_control stable_quiet silences)

lemma finish_valid:
  "valid speaking (begin_drain t) (\<lambda>_. session_ok) wire_fine"
  by (auto simp: valid_def begin_drain_def sm_basic_defs send_message_def speaking_def session_ok_def
      wire_fine_def unfinished_finish unfinished_ok split: list.split write_outcome.split)

text \<open>An operation that may finish the connection: it starts speaking and ends in a session state.\<close>

definition finishing :: "'a run \<Rightarrow> bool" where
  "finishing m \<longleftrightarrow> valid speaking m (\<lambda>_. session_ok) wire_fine"

lemma spoken_speaking [simp]: "spoken speaking" "spoken talking"
  by (simp_all add: spoken_def)

lemma finishing_stable: "stable speaking m \<Longrightarrow> finishing m"
  unfolding finishing_def stable_def by (erule valid_weaken) (auto intro: speaking_session)

lemma finishing_then:
  "stable speaking m \<Longrightarrow> finishing n \<Longrightarrow> finishing (sm_then m n)"
  "finishing u \<Longrightarrow> stable session_ok n \<Longrightarrow> finishing (sm_then u n)"
  unfolding finishing_def stable_def by (auto intro: valid_then)

lemma finishing_bind: "stable speaking m \<Longrightarrow> (\<And>a. finishing (f a)) \<Longrightarrow> finishing (sm_bind m f)"
  unfolding finishing_def stable_def by (auto intro: valid_bind)

lemma finishing_if: "(b \<Longrightarrow> finishing m) \<Longrightarrow> (\<not> b \<Longrightarrow> finishing n) \<Longrightarrow> finishing (if b then m else n)"
  by simp

lemma stable_session_return: "stable session_ok (sm_return a)"
  by (rule stables)

lemma finishing_hand_over: "finishing (hand_over t)"
proof -
  have "finishing (sm_then (sm_modify (\<lambda>s. s\<lparr>handing_over := True\<rparr>)) (sm_return ()))"
    by (intro finishing_stable stables stable_quiet silences) simp_all
  have flush: "stable speaking (sm_bind (sm_gets catch_up_active) (\<lambda>active. sm_when active (flush_audio (write_timeout t))))"
    by (intro stables stable_flush) simp
  have last: "stable session_ok (sm_then (sm_modify (\<lambda>s. s\<lparr>handing_over := True\<rparr>)) (sm_return ()))"
    by (intro stables stable_quiet silences) simp
  have "finishing (begin_drain t)" unfolding finishing_def by (rule finish_valid)
  with flush last show ?thesis
    unfolding hand_over_def sm_seq.simps by (intro finishing_then(1) finishing_then(2))
qed

lemma finishing_begin: "finishing (begin_drain t)"
  unfolding finishing_def by (rule finish_valid)

lemma finishing_finish_lane: "finishing (finish_lane t)"
  unfolding finish_lane_def
  by (intro finishing_then(1) finishing_bind finishing_if stable_flush stables(2) spoken_speaking
      finishing_then(2) [OF finishing_begin] stable_session_return)
    (simp_all add: finishing_stable stables stable_event)

lemma stable_unless_draining:
  assumes "finishing m"
  shows "stable session_ok (sm_bind (sm_gets draining) (\<lambda>d. sm_then (sm_when (b \<and> \<not> d) m) (sm_return c)))"
  unfolding stable_def valid_def
proof (intro allI impI)
  fix s assume s: "session_ok s"
  show "case sm_bind (sm_gets draining) (\<lambda>d. sm_then (sm_when (b \<and> \<not> d) m) (sm_return c)) s of
      (Inl _, t) \<Rightarrow> wire_fine t | (Inr a, t) \<Rightarrow> session_ok t"
  proof (cases "draining s \<or> \<not> b")
    case True
    with s show ?thesis by (auto simp: sm_basic_defs)
  next
    case False
    with s have "speaking s" by (simp add: session_ok_def speaking_def)
    with assms have "case m s of (Inl _, t) \<Rightarrow> wire_fine t | (Inr a, t) \<Rightarrow> session_ok t"
      by (simp add: finishing_def valid_def)
    with False show ?thesis by (auto simp: sm_basic_defs split: prod.splits sum.splits)
  qed
qed

lemmas stable_bind = stable_intros(4) and stable_then = stable_intros(5)

lemma stable_on_response: "stable session_ok (on_response t resp)"
proof (cases "resp_error_code resp")
  case (Some code)
  then show ?thesis unfolding on_response_def by (auto intro: stables session_fine)
next
  case None
  have tail: "stable session_ok (if resp_finished resp then on_finished
      else sm_bind (sm_gets draining) (\<lambda>d. sm_then (sm_when (b \<and> \<not> d) (hand_over t)) (sm_return Continue)))" for b
    by (simp add: stable_unless_draining finishing_hand_over stable_quiet(2) silences)
  show ?thesis
    unfolding on_response_def None option.case
    by (rule stable_then, rule stable_quiet(2), rule silences)
      (rule stable_bind, rule stable_quiet(2), rule silences, rule stable_then, rule stable_quiet(2), rule silences,
       rule stable_bind, rule stables, rule stable_then, rule stable_quiet(2), rule silences, rule tail)
qed

lemma stable_on_message: "stable session_ok (on_message t)"
  unfolding on_message_def
  by (rule stable_bind, rule stable_quiet(2), rule silences)
    (auto split: inbound_message.split sum.split intro!: stables stable_on_response session_fine)

lemma finishing_on_control: "finishing (sm_bind recv_control (on_control t))"
proof -
  have "finishing (on_control t c)" for c
    unfolding on_control_def
    by (auto split: option.split stt_control.split
        intro!: finishing_finish_lane finishing_then(1) [OF stable_modify finishing_finish_lane],
       auto intro!: finishing_stable stables spoken_rules stable_flush stable_finalize stable_control stable_seq)
  moreover have "stable speaking recv_control" by (rule stable_quiet(1)) (auto intro: silences)
  ultimately show ?thesis by (intro finishing_bind)
qed

lemma stable_recv_audio: "stable speaking recv_audio"
  by (rule stable_quiet(1)) (auto intro: silences)

lemma finishing_on_catch_up: "finishing (on_catch_up t)"
  unfolding on_catch_up_def catch_up_block_def
  by (rule finishing_stable, rule stable_bind, rule stable_quiet(1), rule silences, simp)
    (auto split: option.split intro!: stables spoken_rules stable_seq)

lemma finishing_on_audio: "finishing (on_audio t config)"
proof -
  have closer: "stable speaking (close_long_utterance t config quiet pcm)" for quiet pcm
    unfolding close_long_utterance_def
    by (rule stable_bind, rule stables, rule stables, rule stable_bind, rule stable_quiet(1), rule silences, simp)
      (auto intro!: stables stable_finalize)
  have tail: "stable session_ok (sm_then (sm_modify (\<lambda>s. s\<lparr>handing_over := True\<rparr>)) (sm_return ()))"
    by (intro stables stable_quiet(2) silences) simp
  have sends: "stable speaking (sm_seq [send_message (AudioFrame pcm) ''Soniox stream audio send'' (write_timeout t),
      on_recovery (record_sent pcm), sm_modify (\<lambda>s. s\<lparr>sent_audio := True\<rparr>), close_long_utterance t config quiet pcm])"
    for quiet pcm unfolding sm_seq.simps by (auto intro!: stables spoken_rules closer)
  have cut: "finishing (sm_then (sm_seq [begin_drain t, sm_modify (\<lambda>s. s\<lparr>handing_over := True\<rparr>)]) (sm_return c))"
    for c :: flow
    unfolding sm_seq.simps
    by (rule finishing_then(2), rule finishing_then(2) [OF finishing_begin tail]) (rule stable_session_return)
  have edge: "finishing (check_live_edge t)"
    by (rule finishing_stable, rule stable_quiet(1), rule silences) simp
  have block: "finishing (live_block t config pcm)" for pcm
    unfolding live_block_def
    by (rule finishing_bind, rule stable_quiet(1), rule silences, simp, rule finishing_then(1), rule sends,
        rule finishing_bind, rule stables, rule finishing_if, rule cut, rule edge)
  have some: "finishing (sm_bind (sm_gets lane_paused)
      (\<lambda>p. if \<not> p then live_block t config pcm else sm_return Continue))" for pcm
    by (rule finishing_bind, rule stables, rule finishing_if, rule block, rule finishing_stable, rule stables)
  have none: "finishing (sm_then (sm_modify (\<lambda>s. s\<lparr>audio_open := False\<rparr>)) (sm_return Continue))"
    by (rule finishing_stable) (auto intro!: stables stable_modify)
  show ?thesis
    unfolding on_audio_def
    by (rule finishing_bind, rule stable_recv_audio) (simp add: some none split: option.split)
qed

lemma finishing_timers: "finishing (on_keepalive t)" "finishing (on_handover_timer t)"
proof -
  show "finishing (on_keepalive t)"
    unfolding on_keepalive_def
    by (auto intro!: finishing_stable stables stable_seq stable_control spoken_rules)
  show "finishing (on_handover_timer t)"
    unfolding on_handover_timer_def
    by (rule finishing_bind, rule stables, rule finishing_if,
        rule finishing_then(2) [OF finishing_hand_over stable_session_return])
      (auto intro!: finishing_stable stables stable_modify split: option.splits)
qed

section \<open>The session and the lane\<close>

lemma finishing_at: "finishing m \<Longrightarrow> session_ok s \<Longrightarrow> \<not> draining s \<Longrightarrow>
    (case m s of (Inl _, t) \<Rightarrow> wire_fine t | (Inr a, t) \<Rightarrow> session_ok t)"
  by (simp add: finishing_def valid_def speaking_def session_ok_def)

lemma stable_at: "stable session_ok m \<Longrightarrow> session_ok s \<Longrightarrow>
    (case m s of (Inl _, t) \<Rightarrow> wire_fine t | (Inr a, t) \<Rightarrow> session_ok t)"
  by (simp add: stable_def valid_def)

lemma stable_session_step: "stable session_ok (session_step t config)"
  unfolding stable_def valid_def
proof (intro allI impI)
  fix s assume s: "session_ok s"
  have drain: "stable session_ok (on_drain_timeout t)" by (rule stable_quiet(2)) (rule silences)
  show "case session_step t config s of (Inl _, t) \<Rightarrow> wire_fine t | (Inr a, t) \<Rightarrow> session_ok t"
    by (rule session_step_cases)
      (use s in \<open>simp_all add: session_fine stable_at stable_on_message drain finishing_at
        finishing_on_control finishing_on_catch_up finishing_on_audio finishing_timers\<close>)
qed

lemma stable_world: "stable session_ok (sm_modify (fold world es))"
  by (rule stable_quiet(2)) (rule silent_modify, simp)

lemma stable_session_loop: "stable session_ok (session_loop t config script)"
proof (induction script)
  case Nil
  show ?case by (simp add: stables)
next
  case (Cons events script)
  show ?case
    unfolding session_loop.simps
    by (rule stable_then, rule stable_world, rule stable_bind, rule stable_session_step)
      (auto split: flow.split intro: stables Cons.IH)
qed

lemma talking_resume: "stable talking (resume_timeline t outage skips after_handover)"
proof -
  have announce: "stable talking (announce_recovery d)" for d
    by (rule stable_quiet(1), rule silences) simp
  have "stable talking (take_replay d)" for d by (rule stable_quiet(1), rule silences) simp
  moreover have "stable talking (send_replay t d replay)" for d replay
    unfolding send_replay_def by (auto intro!: stable_mapM stables spoken_rules)
  ultimately have "stable talking (rejoin t d skips)" for d
    unfolding rejoin_def by (auto simp: discard_queue_def intro!: stables announce spoken_rules)
  then show ?thesis
    unfolding resume_timeline_def
    by (auto split: option.split intro!: stables stable_recovery announce)
qed

lemma begin_session_valid:
  "valid talking (begin_session t config outage skips after_handover finish) (\<lambda>_. session_ok) wire_fine"
proof -
  have paused: "stable talking (close_paused_utterance t)"
    unfolding close_paused_utterance_def by (auto intro!: stables stable_flush stable_finalize)
  have start: "valid talking (sm_modify (start_loop_state t)) (\<lambda>_. speaking) wire_fine"
    by (rule valid_modify) (simp add: talking_def speaking_def start_loop_state_def)
  have pre: "valid talking (sm_seq [resume_timeline t outage skips after_handover, close_paused_utterance t,
      send_event Connected, sm_modify (start_loop_state t)]) (\<lambda>_. speaking) wire_fine"
    unfolding sm_seq.simps
    by (rule valid_then [OF talking_resume [unfolded stable_def]], rule valid_then [OF paused [unfolded stable_def]],
        rule valid_then [OF stable_event [unfolded stable_def], OF spoken_speaking(2)], rule valid_then [OF start])
      (rule valid_return)
  have "finishing (if finish then finish_lane t else sm_return Continue)"
    by (simp add: finishing_finish_lane finishing_stable stables)
  then show ?thesis
    unfolding begin_session_def by (intro valid_then [OF pre]) (simp add: finishing_def)
qed

lemma take_credential_frame:
  "take_credential display source waiting s = (r, u) \<Longrightarrow> wire u = wire s"
  by (auto simp: take_credential_def Let_def split: option.splits sum.splits)

lemma configure_valid:
  "valid (\<lambda>s. wire s = []) (configure_socket t config c dialed_at) (\<lambda>_. talking) wire_fine"
  by (auto simp: valid_def configure_socket_def sm_basic_defs send_message_def talking_def wire_fine_def
      split: list.split write_outcome.split)

lemma dial_valid:
  "valid wire_fine (dial_socket t outcome waiting c) (\<lambda>_ s. wire s = []) wire_fine"
  by (auto simp: valid_def dial_socket_def sm_basic_defs keep_unpresented_def wire_fine_def split: dial.split)

lemma open_valid: "valid wire_fine (open_socket display source t config a) (\<lambda>_. talking) wire_fine"
  unfolding open_socket_def
proof (rule valid_bind)
  show "valid wire_fine (take_credential display source (mint_wait a)) (\<lambda>_. wire_fine) wire_fine"
    by (auto simp: valid_def wire_fine_def take_credential_frame split: sum.split)
  show "valid wire_fine (sm_bind (sm_gets time_now) (\<lambda>dialed_at.
      sm_then (dial_socket t (dial_outcome a) (dial_wait a) c) (configure_socket t config c dialed_at)))
      (\<lambda>_. talking) wire_fine" for c
    by (rule valid_bind [of _ _ "\<lambda>_. wire_fine"], rule valid_gets, assumption)
      (rule valid_then [OF dial_valid configure_valid])
qed

lemma session_valid:
  "valid wire_fine (run_stream_session display source t config a outage skips after_handover finish)
     (\<lambda>_. wire_fine) wire_fine"
proof -
  have "valid session_ok (case flow of Done \<Rightarrow> sm_return Done | Continue \<Rightarrow> session_loop t config (loop_events a))
      (\<lambda>_. wire_fine) wire_fine" for flow
    using stable_session_loop [of t config "loop_events a"]
    by (auto simp: stable_def split: flow.split intro!: valid_return session_fine elim!: valid_weaken)
  then show ?thesis
    unfolding run_stream_session_def
    by (intro valid_then [OF open_valid] valid_bind [OF begin_session_valid])
qed

lemma wait_step_wire: "wire (snd (snd (wait_step wake_at shed fin (wait_open, s)))) = wire s"
  unfolding wait_step_def by (auto simp: Let_def split: list.split stt_control.split)

lemma wait_loop_wire: "wire (snd (wait_loop wake_at shed fin script (wait_open, s))) = wire s"
proof (induction script arbitrary: wait_open s)
  case (Cons events script)
  obtain r o' u where step: "wait_step wake_at shed fin (wait_open, fold world events s) = (r, o', u)"
    by (metis surj_pair)
  then have "wire u = wire s" using wait_step_wire [of wake_at shed fin wait_open "fold world events s"] by simp
  then show ?case using Cons.IH [of o' u] by (auto simp: step split: option.split)
qed simp

lemma send_event_wire: "wire (snd (send_event e s)) = wire s"
  by (simp add: send_event_def)

lemma await_retry_wire: "wire (snd (await_retry p script s)) = wire s"
  using wait_loop_wire send_event_wire [of "reconnecting_event p" s]
  by (auto simp: await_retry_def wait_for_reconnect_def split: prod.split sum.split option.split reconnect_wait.split)
    (metis snd_conv)+

lemma lane_turn_wire: "wire_fine s \<Longrightarrow> wire_fine (snd (lane_turn display source t config e rs s))"
proof -
  assume s: "wire_fine s"
  let ?run = "run_stream_session display source t config (attempt e)
      (map_option (\<lambda>started. time_now s - started) (disconnected_at rs)) (skip_to_live_edge rs) (handed_over rs)
      (finish_requested rs) (s\<lparr>session_connected := False\<rparr>)"
  have "wire_fine (s\<lparr>session_connected := False\<rparr>)" using s by (simp add: wire_fine_def)
  then have "case ?run of (Inl _, t) \<Rightarrow> wire_fine t | (Inr a, t) \<Rightarrow> wire_fine t"
    using session_valid [unfolded valid_def, rule_format, of "s\<lparr>session_connected := False\<rparr>"] by simp
  then have "wire_fine (snd ?run)" by (auto split: prod.splits sum.splits)
  then show ?thesis
    by (auto simp: lane_turn_def Let_def wire_fine_def await_retry_wire
        split: prod.split sum.split flow.split option.split)
qed

lemma run_stream_wire: "wire_fine s \<Longrightarrow> wire_fine (snd (run_stream display source t config es rs s))"
proof (induction es arbitrary: rs s)
  case (Cons e es)
  have "wire_fine (snd (lane_turn display source t config e rs s))" using Cons.prems by (rule lane_turn_wire)
  with Cons.IH show ?case by (auto split: prod.split turn.split)
qed simp

text \<open>C2. Every connection of a lane keeps the provider's protocol, whatever the world does and however
  the lane ends: the configuration comes first and once, and nothing is sent after the empty frame
  that finishes the stream.\<close>

theorem lane_keeps_protocol:
  "wire_ok (wire (snd (lane_task display source t config epochs origin)))"
proof -
  have "wire_fine (initial_lane origin)" by (simp add: wire_fine_def initial_lane_def)
  then have "wire_fine (snd (run_stream display source t config epochs first_attempt (initial_lane origin)))"
    by (rule run_stream_wire)
  then show ?thesis
    by (auto simp: lane_task_def wire_fine_def send_event_wire split: prod.split lane_result.split)
qed

end
