(* ===== verification/Stream_Lane.thy ===== *)
theory Stream_Lane
  imports Stream_Protocol
begin

text \<open>
  What the operations of a lane promise: the order of a response's events, the flush of accepted audio,
  how a lane ends and when it gives up, what an outage does to its credential and to its timeline.
\<close>

section \<open>Responses and flushes\<close>

lemma split_response_eq:
  "split_response r tokens =
     (map (\<lambda>t. token_of_wire (project_token r t)) (filter (\<lambda>t. control_event t = None) tokens),
      List.map_filter control_event tokens)"
  by (induction tokens) (auto simp: map_filter_simps split: option.split)

lemma send_events:
  "receiver_open s \<Longrightarrow> sm_mapM send_event es s = (Inr (), s\<lparr>emitted := emitted s @ es\<rparr>)"
  by (induction es arbitrary: s) (simp_all add: sm_basic_defs send_event_def)

text \<open>A response is delivered as one revision: all its words first, in their order and with their
  positions on the capture timeline, then its markers in their order; nothing of it is lost.\<close>

lemma response_order:
  assumes "receiver_open s"
  shows "emit_response_events tokens s = (Inr (), s\<lparr>emitted := emitted s @
    (let words = filter (\<lambda>t. control_event t = None) tokens
     in if words = [] then [] else [Tokens (map (\<lambda>t. token_of_wire (project_token (recovery s) t)) words)]) @
    List.map_filter control_event tokens\<rparr>)"
  using assms
  by (auto simp: emit_response_events_def split_response_eq sm_basic_defs send_events send_event_def Let_def
      filter_empty_conv)

definition word_token :: "string \<Rightarrow> token_wire" where
  "word_token w = \<lparr>token_text = lit w, token_start_ms = Some 10, token_end_ms = None, token_is_final = True,
     token_confidence = None, token_translation_status = None, token_language = None,
     token_source_language = None, token_speaker = None\<rparr>"

lemma send_message_Inr:
  "send_message f operation limit s = (Inr u, s') \<longleftrightarrow>
     (\<exists>ws. s' = s\<lparr>write_script := ws, wire := wire s @ [f]\<rparr> \<and>
        (write_script s = WriteOk # ws \<or> write_script s = [] \<and> ws = []))"
  by (auto simp: send_message_def split: list.split write_outcome.split)

lemma drain_replay_Inr:
  "drain_replay limit replay sent s = (Inr b, s') \<Longrightarrow>
     wire s' = wire s @ map AudioFrame replay \<and> audio_queue s' = audio_queue s \<and>
     recovery s' = recovery s \<and> (replay = [] \<and> catch_up_replay s' = catch_up_replay s \<or> catch_up_replay s' = []) \<and>
     b = (sent \<or> replay \<noteq> [])"
  by (induction replay arbitrary: sent s)
    (fastforce simp: sm_basic_defs send_message_Inr split: prod.splits sum.splits)+

lemma drain_queue_Inr:
  "drain_queue limit queue sent s = (Inr b, s') \<Longrightarrow>
     wire s' = wire s @ map AudioFrame queue \<and> catch_up_replay s' = catch_up_replay s \<and>
     recovery s' = clock_run (map RecordSent queue) (recovery s) \<and>
     (queue = [] \<and> audio_queue s' = audio_queue s \<or> audio_queue s' = []) \<and> b = (sent \<or> queue \<noteq> [])"
  by (induction queue arbitrary: sent s)
    (fastforce simp: sm_basic_defs send_message_Inr on_recovery_def split: prod.splits sum.splits)+

text \<open>The fence before a finalize, a pause or a finish sends everything accepted before it, oldest
  first: the replay still owed, then the queue. It leaves nothing queued, counts every queued block on
  the timeline once and no replayed block twice, and reports whether it sent anything.\<close>

lemma fence_sends_everything:
  assumes "drain_queued_audio limit s = (Inr sent, s')"
  shows "wire s' = wire s @ map AudioFrame (catch_up_replay s @ audio_queue s) \<and>
    catch_up_replay s' = [] \<and> audio_queue s' = [] \<and>
    recovery s' = clock_run (map RecordSent (audio_queue s)) (recovery s) \<and>
    sent = (catch_up_replay s @ audio_queue s \<noteq> [])"
proof -
  let ?s = "s\<lparr>catch_up_active := False\<rparr>"
  obtain b u where replay: "drain_replay limit (catch_up_replay s) False ?s = (Inr b, u)"
    and queue: "drain_queue limit (audio_queue u) b u = (Inr sent, s')"
    using assms
    by (auto simp: drain_queued_audio_def sm_basic_defs split: prod.splits sum.splits)
  from drain_replay_Inr [OF replay] drain_queue_Inr [OF queue] show ?thesis by auto
qed

section \<open>How a lane ends\<close>

definition ended :: "lane \<Rightarrow> bool" where
  "ended s \<longleftrightarrow> cancelled s \<or> (emitted s \<noteq> [] \<and> last (emitted s) = Finished)"

text \<open>\<open>ends_well m\<close>: when \<open>m\<close> ends the session in good order, the lane was cancelled or has just
  said \<open>Finished\<close>.\<close>

definition ends_well :: "flow run \<Rightarrow> bool" where
  "ends_well m \<longleftrightarrow> valid (\<lambda>_. True) m (\<lambda>r s. r = Done \<longrightarrow> ended s) (\<lambda>_. True)"

lemma any_valid: "valid (\<lambda>_. True) m (\<lambda>_ _. True) (\<lambda>_. True)"
  by (simp add: valid_def split: prod.split sum.split)

lemma ends_wellD: "ends_well m \<Longrightarrow> m s = (Inr Done, t) \<Longrightarrow> ended t"
  by (fastforce simp: ends_well_def valid_def dest: spec [of _ s])

lemma ends_well_intros:
  "ends_well n \<Longrightarrow> ends_well (sm_then u n)"
  "(\<And>a. ends_well (f a)) \<Longrightarrow> ends_well (sm_bind m f)"
  "ends_well (sm_return Continue)" "ends_well (sm_throw e)"
  "ends_well (sm_then (send_event Finished) (sm_return Done))"
proof -
  show "ends_well (sm_then u n)" if "ends_well n"
    unfolding ends_well_def by (rule valid_then [OF any_valid]) (use that in \<open>simp add: ends_well_def\<close>)
  show "ends_well (sm_bind m f)" if "\<And>a. ends_well (f a)"
    unfolding ends_well_def by (rule valid_bind [OF any_valid]) (use that in \<open>simp add: ends_well_def\<close>)
qed (auto simp: ends_well_def valid_def sm_basic_defs send_event_def ended_def)

lemma ends_well_finish_lane: "ends_well (finish_lane t)"
  unfolding finish_lane_def by (auto intro!: ends_well_intros(5) ends_well_intros(1-4))

lemma ends_well_branches:
  "ends_well (on_message t)" "ends_well (on_control t c)" "ends_well (on_catch_up t)"
  "ends_well (on_audio t config)" "ends_well (on_keepalive t)" "ends_well (on_drain_timeout t)"
  "ends_well (on_handover_timer t)"
proof -
  have finished: "ends_well on_finished"
    unfolding on_finished_def
    by (rule ends_well_intros(2)) (auto split: prod.split intro: ends_well_intros(3,4,5))
  have "ends_well (on_response t resp)" for resp
    unfolding on_response_def
    by (auto split: option.split intro!: ends_well_intros(1-4) finished)
  then show "ends_well (on_message t)"
    unfolding on_message_def
    by (auto split: inbound_message.split sum.split intro!: ends_well_intros(1-4))
  show "ends_well (on_control t c)"
    unfolding on_control_def
    by (auto split: option.split stt_control.split intro!: ends_well_intros(1-4) ends_well_finish_lane)
qed (auto simp: on_catch_up_def catch_up_block_def on_audio_def live_block_def check_live_edge_def
      on_keepalive_def on_drain_timeout_def on_handover_timer_def
    split: option.split intro!: ends_well_intros(1-4))

lemma ends_well_step: "ends_well (session_step t config)"
  unfolding ends_well_def valid_def
proof (intro allI impI)
  fix s :: lane
  have use: "case m s of (Inl _, t) \<Rightarrow> True | (Inr r, t) \<Rightarrow> r = Done \<longrightarrow> ended t" if "ends_well m" for m
    using that by (simp add: ends_well_def valid_def)
  have control: "ends_well (sm_bind recv_control (on_control t))"
    by (intro ends_well_intros(2) ends_well_branches)
  show "case session_step t config s of (Inl _, t) \<Rightarrow> True | (Inr r, t) \<Rightarrow> r = Done \<longrightarrow> ended t"
    by (rule session_step_cases) (simp_all add: use control ends_well_branches, simp add: ended_def)
qed

lemma ends_well_loop: "ends_well (session_loop t config script)"
proof (induction script)
  case Nil
  show ?case by (simp add: ends_well_intros)
next
  case (Cons events script)
  have after: "valid (\<lambda>s. flow = Done \<longrightarrow> ended s)
      (case flow of Done \<Rightarrow> sm_return Done | Continue \<Rightarrow> session_loop t config script)
      (\<lambda>r s. r = Done \<longrightarrow> ended s) (\<lambda>_. True)" for flow
    using Cons.IH by (cases flow) (auto simp: ends_well_def intro: valid_return)
  have "valid (\<lambda>_. True) (sm_bind (session_step t config) (\<lambda>flow.
      case flow of Done \<Rightarrow> sm_return Done | Continue \<Rightarrow> session_loop t config script))
      (\<lambda>r s. r = Done \<longrightarrow> ended s) (\<lambda>_. True)"
    by (rule valid_bind [OF ends_well_step [unfolded ends_well_def] after])
  then show ?case
    unfolding session_loop.simps by (intro ends_well_intros(1)) (simp add: ends_well_def)
qed

lemma ends_well_session:
  "ends_well (run_stream_session display source t config a outage skips after_handover finish)"
proof -
  have opens: "ends_well (begin_session t config outage skips after_handover finish)"
    unfolding begin_session_def by (auto intro!: ends_well_intros(1) ends_well_finish_lane ends_well_intros(3))
  have after: "valid (\<lambda>s. flow = Done \<longrightarrow> ended s)
      (case flow of Done \<Rightarrow> sm_return Done | Continue \<Rightarrow> session_loop t config (loop_events a))
      (\<lambda>r s. r = Done \<longrightarrow> ended s) (\<lambda>_. True)" for flow
    using ends_well_loop by (cases flow) (auto simp: ends_well_def intro: valid_return)
  show ?thesis
    unfolding run_stream_session_def
    by (rule ends_well_intros(1)) (simp add: ends_well_def valid_bind [OF opens [unfolded ends_well_def] after])
qed

lemma wait_loop_cancelled:
  "wait_loop wake_at shed fin script (wait_open, s) = (Some WaitCancelled, s') \<Longrightarrow> cancelled s'"
proof (induction script arbitrary: wait_open s)
  case (Cons events script)
  then show ?case
    by (auto simp: wait_step_def Let_def split: prod.splits option.splits if_splits list.splits stt_control.splits)
qed simp

lemma await_retry_turn:
  assumes "await_retry p script s = (turn, s')"
  shows "turn = Stop LaneEnded \<Longrightarrow> ended s'"
    and "turn = Stop (LaneFailed f) \<Longrightarrow> f = failure_event_delivery"
  using assms
  by (auto simp: await_retry_def wait_for_reconnect_def ended_def send_event_def
      split: prod.splits sum.splits option.splits reconnect_wait.splits if_splits
      dest: wait_loop_cancelled)

lemma lane_turn_turn:
  assumes "lane_turn display source t config e rs s = (turn, s')"
  shows "turn = Stop LaneEnded \<Longrightarrow> ended s'"
    and "turn = Stop (LaneFailed f) \<Longrightarrow> reconnect_outage_budget t = None \<Longrightarrow>
      \<not> is_retryable f \<or> f = failure_event_delivery"
proof -
  let ?run = "run_stream_session display source t config (attempt e)
      (map_option (\<lambda>started. time_now s - started) (disconnected_at rs)) (skip_to_live_edge rs) (handed_over rs)
      (finish_requested rs) (s\<lparr>session_connected := False\<rparr>)"
  obtain r u where run: "?run = (r, u)" by (metis surj_pair)
  have fin: "r = Inr Done \<Longrightarrow> ended u"
    using ends_wellD [OF ends_well_session] run by blast
  show "turn = Stop LaneEnded \<Longrightarrow> ended s'"
    using assms run fin
    by (auto simp: lane_turn_def Let_def split: sum.splits flow.splits option.splits if_splits
        dest: await_retry_turn(1))
  show "turn = Stop (LaneFailed f) \<Longrightarrow> reconnect_outage_budget t = None \<Longrightarrow>
      \<not> is_retryable f \<or> f = failure_event_delivery"
    using assms run
    by (auto simp: lane_turn_def Let_def plan_retry_def split: sum.splits flow.splits option.splits if_splits
        dest: await_retry_turn(2))
qed

lemma run_stream_result:
  assumes "run_stream display source t config es rs s = (r, s')"
  shows "r = LaneEnded \<Longrightarrow> ended s'"
    and "r = LaneFailed f \<Longrightarrow> reconnect_outage_budget t = None \<Longrightarrow>
      \<not> is_retryable f \<or> f = failure_event_delivery"
  using assms
proof (induction es arbitrary: rs s)
  case (Cons e es)
  { case 1
    obtain turn u where turn: "lane_turn display source t config e rs s = (turn, u)" by (metis surj_pair)
    with 1 show ?case using Cons.IH(1) lane_turn_turn(1) [OF turn] by (cases turn) auto }
  { case 2
    obtain turn u where turn: "lane_turn display source t config e rs s = (turn, u)" by (metis surj_pair)
    with 2 show ?case using Cons.IH(2) lane_turn_turn(2) [OF turn] by (cases turn) auto }
qed simp_all


text \<open>C6. A lane ends in good order only when it was told to: it was cancelled, or the last thing it
  reported is \<open>Finished\<close>.\<close>

theorem lane_ends_only_when_told:
  assumes "lane_task display source t config epochs origin = (LaneEnded, s)"
  shows "cancelled s \<or> last (emitted s) = Finished"
  using assms
  by (auto simp: lane_task_def ended_def split: prod.splits lane_result.splits dest: run_stream_result(1))

definition quiet_attempt :: "world_event list list \<Rightarrow> epoch" where
  "quiet_attempt events =
     \<lparr>attempt = \<lparr>mint_wait = [], dial_outcome = Dialed, dial_wait = [], loop_events = events\<rparr>,
      wait_events = []\<rparr>"

lemmas lane_eval = lane_task_def lane_turn_def run_stream_session_def open_socket_def take_credential_def
  dial_socket_def configure_socket_def begin_session_def resume_timeline_def close_paused_utterance_def
  start_loop_state_def session_step_def quiet_attempt_def first_attempt_def initial_lane_def sm_basic_defs
  send_message_def send_event_def on_recovery_def recv_control_def on_control_def finish_lane_def
  flush_audio_def drain_queued_audio_def uncapped_def

theorem lane_ends_only_when_told_witness:
  "last (emitted (snd (lane_task (\<lambda>_. []) (\<lambda>_. Inr (uncapped [])) default_timeouts default_config
     [quiet_attempt [[ArriveControl Finish]]] 0))) = Finished"
proof -
  let ?lane = "lane_task (\<lambda>_. []) (\<lambda>_. Inr (uncapped [])) default_timeouts default_config
     [quiet_attempt [[ArriveControl Finish]]] 0"
  have "fst ?lane = LaneEnded \<and> \<not> cancelled (snd ?lane)"
    by (simp add: lane_eval)
  then have "?lane = (LaneEnded, snd ?lane)" and "\<not> cancelled (snd ?lane)" by (metis prod.collapse)+
  with lane_ends_only_when_told show ?thesis by blast
qed

definition sample_progress :: "u64 \<Rightarrow> stream_response" where
  "sample_progress total_ms = \<lparr>resp_tokens = [], resp_finished = False, resp_error_code = None,
     resp_error_type = None, resp_request_id = None, resp_final_ms = None, resp_total_ms = Some total_ms\<rparr>"

theorem progress_never_goes_back_witness:
  "progress_totals (emitted (snd (lane_task (\<lambda>_. []) (\<lambda>_. Inr (uncapped [])) default_timeouts default_config
     [quiet_attempt [[ArriveMessage (TextFrame (Inr (sample_progress 40)))]]] 5000))) = [5000] \<and>
   5000 \<le> next_audio_ms (recovery (snd (lane_task (\<lambda>_. []) (\<lambda>_. Inr (uncapped [])) default_timeouts
     default_config [quiet_attempt [[ArriveMessage (TextFrame (Inr (sample_progress 40)))]]] 5000)))"
proof -
  let ?lane = "lane_task (\<lambda>_. []) (\<lambda>_. Inr (uncapped [])) default_timeouts default_config
     [quiet_attempt [[ArriveMessage (TextFrame (Inr (sample_progress 40)))]]] 5000"
  have run: "progress_totals (emitted (snd ?lane)) = [5000]"
    by (simp add: lane_eval first_connection_def starting_at_def begin_provider_clock_def sample_progress_def
        on_message_def next_message_def on_response_def report_progress_def acknowledge_def drop_frames_until_def Let_def
        filter_replayed_def suppression_filter_def no_suppression_def note_boundary_def has_text_def
        emit_response_events_def progress_totals_def)
  have "5000 \<le> u64_max" by (simp add: u64_max_def)
  from progress_never_goes_back [OF this, of "\<lambda>_. []" "\<lambda>_. Inr (uncapped [])" default_timeouts default_config
      "[quiet_attempt [[ArriveMessage (TextFrame (Inr (sample_progress 40)))]]]"] run
  show ?thesis by simp
qed

text \<open>C5. With the timeouts of production a lane never gives up on an outage: it fails only on a failure
  that is not retryable, or because nobody listens to its events any more.\<close>

theorem lane_never_gives_up_on_an_outage:
  assumes "lane_task display source default_timeouts config epochs origin = (LaneFailed f, s)"
  shows "\<not> is_retryable f \<or> f = failure_event_delivery"
proof -
  have "reconnect_outage_budget default_timeouts = None" by (simp add: default_timeouts_def)
  with assms show ?thesis
    by (auto simp: lane_task_def split: prod.splits lane_result.splits dest: run_stream_result(2))
qed

theorem lane_never_gives_up_on_an_outage_witness:
  "\<not> is_retryable (failure_credential (\<lambda>_. []) (AuthFailed []))"
proof -
  let ?f = "failure_credential (\<lambda>_. []) (AuthFailed [])"
  let ?lane = "lane_task (\<lambda>_. []) (\<lambda>_. Inl (AuthFailed [])) default_timeouts default_config [quiet_attempt []] 0"
  have "fst ?lane = LaneFailed ?f"
    by (simp add: lane_eval failure_credential_def failure_def is_retryable_def lit_simps)
  then have "?lane = (LaneFailed ?f, snd ?lane)" by (metis prod.collapse)
  from lane_never_gives_up_on_an_outage [OF this] show ?thesis
    by (simp add: failure_credential_def failure_event_delivery_def failure_def)
qed

section \<open>Credentials over an outage\<close>

text \<open>An attempt whose dial never connects, after waiting \<open>d\<close>.\<close>

definition failed_attempt :: "attempt_script" where
  "failed_attempt = \<lparr>mint_wait = [], dial_outcome = DialTimeout, dial_wait = [], loop_events = []\<rparr>"

fun failed_attempts ::
    "(stt_error \<Rightarrow> ustring) \<Rightarrow> credential_source \<Rightarrow> stream_timeouts \<Rightarrow> stt_config \<Rightarrow> duration \<Rightarrow> nat \<Rightarrow>
     lane \<Rightarrow> lane" where
  "failed_attempts display source t config d 0 s = s"
| "failed_attempts display source t config d (Suc n) s =
     failed_attempts display source t config d n
       (snd (open_socket display source t config failed_attempt (world (Tick d) s)))"

lemma failed_attempt_reuses:
  assumes "d < UNPRESENTED_CREDENTIAL_REUSE_WINDOW" and "unpresented_credential s = Some (c, time_now s)"
  shows "open_socket display source t config failed_attempt (world (Tick d) s) =
    (Inl (failure_timeout (lit ''Soniox stream connect'') (connect_timeout t)),
     s\<lparr>time_now := time_now s + d, unpresented_credential := Some (c, time_now s + d)\<rparr>)"
  using assms
  by (simp add: open_socket_def failed_attempt_def take_credential_def into_still_redeemable_def
      then_some_def dial_socket_def keep_unpresented_def sm_basic_defs)

text \<open>An outage spends one credential: as long as two attempts are less than the reuse window
  apart, every dial that fails hands its key on to the next, and none is minted, however long the
  outage lasts. The window restarts at every failed dial, so the key in hand at the end can be older
  than the window by the whole outage.\<close>

lemma outage_spends_one_credential:
  assumes "d < UNPRESENTED_CREDENTIAL_REUSE_WINDOW" and "unpresented_credential s = Some (c, time_now s)"
  shows "failed_attempts display source t config d n s =
    s\<lparr>time_now := time_now s + n * d, unpresented_credential := Some (c, time_now s + n * d)\<rparr>"
  using assms
proof (induction n arbitrary: s)
  case (Suc n)
  let ?u = "s\<lparr>time_now := time_now s + d, unpresented_credential := Some (c, time_now s + d)\<rparr>"
  have "failed_attempts display source t config d n ?u =
      ?u\<lparr>time_now := time_now ?u + n * d, unpresented_credential := Some (c, time_now ?u + n * d)\<rparr>"
    by (rule Suc.IH) (use Suc.prems in simp_all)
  with failed_attempt_reuses [OF Suc.prems] show ?case by (simp add: add.assoc)
qed simp

section \<open>Rejoining after an outage\<close>

lemma reported_outage_ge: "outage \<le> reported_outage outage skips r"
  by (auto simp: reported_outage_def le_max_iff_disj)

lemma prepare_replay_long:
  "outage > CONTINUITY_WINDOW \<Longrightarrow> fst (prepare_replay outage r) = []"
  "outage > CONTINUITY_WINDOW \<Longrightarrow> next_audio_ms (snd (prepare_replay outage r)) = next_audio_ms r"
  by (simp_all add: prepare_replay_def begin_provider_clock_def)

lemma fold_discarded_ms:
  "next_audio_ms (fold (\<lambda>pcm. note_discarded (length pcm)) queue r) =
     fold (\<lambda>pcm ms. sat_add ms (block_ms (length pcm))) queue (next_audio_ms r)"
  by (induction queue arbitrary: r) (simp_all add: note_discarded_def)

text \<open>After an outage too long to continue a lane that is not paused rejoins at the live edge: what
  queued meanwhile is dropped without a byte sent, every dropped block still counts its duration on the
  timeline, and the new connection's clock, the acknowledged position and the live edge coincide.\<close>

lemma long_outage_rejoins_at_live_edge:
  assumes "outage > CONTINUITY_WINDOW" and "receiver_open s" and "\<not> lane_paused s"
    and "begin_session t config (Some outage) skips after_handover False s = (r, s')"
  shows "r = Inr Continue \<and> wire s' = wire s \<and> audio_queue s' = [] \<and> sent_frames (recovery s') = [] \<and>
    next_audio_ms (recovery s') =
      fold (\<lambda>pcm ms. sat_add ms (block_ms (length pcm))) (audio_queue s) (next_audio_ms (recovery s)) \<and>
    connection_origin_ms (recovery s') = next_audio_ms (recovery s') \<and>
    acknowledged_ms (recovery s') = next_audio_ms (recovery s')"
proof -
  let ?d = "reported_outage outage skips (recovery s)"
  let ?r = "snd (prepare_replay ?d (recovery s))"
  let ?disc = "re_anchor_to_live_edge (fold (\<lambda>pcm. note_discarded (length pcm)) (audio_queue s) ?r)"
  have long: "?d > CONTINUITY_WINDOW" using assms(1) reported_outage_ge by (metis less_le_trans)
  have "rejoin t outage skips s = (Inr (), s\<lparr>recovery := ?disc, audio_queue := [],
      replay_filter := after_replay (replay_duplicate_until_provider_ms ?r),
      emitted := emitted s @ [RecoveryStarted (as_millis_u64 ?d),
        AudioProgress (acknowledged_ms (recovery s)) (acknowledged_ms (recovery s)) (as_millis_u64 ?d)]\<rparr>)"
    using long assms(2)
    by (simp add: rejoin_def sm_basic_defs announce_recovery_def send_event_def take_replay_def
        send_replay_def split_beta Let_def prepare_replay_long discard_queue_def)
  then have "s' = start_loop_state t (s\<lparr>recovery := ?disc, audio_queue := [],
      replay_filter := after_replay (replay_duplicate_until_provider_ms ?r),
      emitted := emitted s @ [RecoveryStarted (as_millis_u64 ?d),
        AudioProgress (acknowledged_ms (recovery s)) (acknowledged_ms (recovery s)) (as_millis_u64 ?d),
        Connected]\<rparr>) \<and> r = Inr Continue"
    using assms
    by (auto simp: begin_session_def resume_timeline_def close_paused_utterance_def sm_basic_defs send_event_def)
  then show ?thesis
    using long
    by (auto simp: start_loop_state_def re_anchor_to_live_edge_def begin_provider_clock_def fold_discarded_ms
        prepare_replay_long)
qed

section \<open>Failed writes and silent connections\<close>

text \<open>A live block whose write times out is lost: it leaves the queue, and it is neither kept for a
  replay nor counted on the timeline, unlike audio that is discarded while the lane is away.\<close>

lemma failed_write_loses_the_block:
  assumes "audio_queue s = pcm # queue" and "\<not> lane_paused s" and "write_script s = WriteTimeout # ws"
    and "on_audio t config s = (r, s')"
  shows "r = Inl (failure_timeout (lit ''Soniox stream audio send'') (write_timeout t)) \<and>
    recovery s' = recovery s \<and> audio_queue s' = queue \<and> wire s' = wire s"
  using assms
  by (auto simp: on_audio_def recv_audio_def live_block_def observe_quiet_def sm_basic_defs send_message_def
      split_beta Let_def)

text \<open>The hand-over deadline finishes the connection even when it never carried audio, and the
  provider's refusal of that (400, \<open>invalid_request\<close>) is final for the lane.\<close>

lemma handover_deadline_finishes_silent_connection:
  assumes "waiting_for_pause s" "\<not> draining s" "\<not> catch_up_active s" "\<not> sent_audio s" "write_script s = []"
  shows "wire (snd (on_handover_timer t s)) = wire s @ [FinishFrame]"
    and "\<not> is_retryable (failure_of_error_frame 400 (Some (lit ''invalid_request'')) rid)"
proof -
  show "wire (snd (on_handover_timer t s)) = wire s @ [FinishFrame]"
    using assms
    by (simp add: on_handover_timer_def hand_over_def begin_drain_def sm_basic_defs send_message_def)
  have e: "ends_at_session_duration_cap 400 (Some (lit ''invalid_request'')) = False"
    by (simp add: ends_at_session_duration_cap_def trim_def lit_def is_whitespace_def)
  have "canonical_soniox_error_type 400 (Some (lit ''invalid_request'')) = lit ''invalid_request''"
    by (simp add: canonical_soniox_error_type_def to_ascii_lowercase_def lit_def Let_def starts_with_def)
  with e show "\<not> is_retryable (failure_of_error_frame 400 (Some (lit ''invalid_request'')) rid)"
    by (simp add: failure_of_error_frame_def failure_provider_def failure_def is_retryable_def)
qed

end
