(* ===== verification/Task_Queue.thy ===== *)
theory Task_Queue
  imports Prelude
begin

text \<open>
  Crate \<open>vt-pipeline\<close>, \<open>task_queue.rs\<close>: the durable queue of post-recording transcription
  tasks. The SQL table \<open>tasks\<close> is the list of its rows in insertion order, a statement is a
  function on that list, and the connection's lock makes every operation atomic. \<open>now\<close> is the
  wall clock in milliseconds; an operation reads it once. \<open>encode\<close> and \<open>decode\<close> stand for the
  JSON form of a payload. The column \<open>updated_at\<close>, which no statement reads, is left out.
  Where SQL leaves the order of equal rows open, the model takes insertion order.
\<close>

section \<open>Values\<close>

definition REMOTE_TASK_AUTHORIZATION_SCHEMA_V1 :: ustring where
  "REMOTE_TASK_AUTHORIZATION_SCHEMA_V1 = lit ''zutalk.remote_processing_authorization.v1''"

definition REMOTE_TASK_AUTHORIZATION_PROVIDER_SONIOX :: ustring where
  "REMOTE_TASK_AUTHORIZATION_PROVIDER_SONIOX = lit ''soniox''"

definition REMOTE_TASK_AUTHORIZATION_DATA_RECORDED_AUDIO :: ustring where
  "REMOTE_TASK_AUTHORIZATION_DATA_RECORDED_AUDIO = lit ''recorded_audio''"

definition REMOTE_TASK_AUTHORIZATION_PURPOSE_POST_RECORDING_TRANSCRIPTION :: ustring where
  "REMOTE_TASK_AUTHORIZATION_PURPOSE_POST_RECORDING_TRANSCRIPTION = lit ''post_recording_transcription''"

record remote_authorization =
  auth_schema :: ustring
  auth_provider :: ustring
  auth_data_class :: ustring
  auth_purpose :: ustring
  authorized :: bool
  authorized_at_ms :: int

datatype task_payload = Transcribe ustring "ustring option" "remote_authorization option"

datatype task_queue_error =
    DbError ustring
  | SerializeError ustring
  | NotFound ustring
  | ValidationFailed ustring

fun display_error :: "task_queue_error \<Rightarrow> ustring" where
  "display_error (DbError e) = lit ''database error: '' @ e"
| "display_error (SerializeError e) = lit ''serialization error: '' @ e"
| "display_error (NotFound e) = lit ''task not found: '' @ e"
| "display_error (ValidationFailed e) = lit ''validation error: '' @ e"

datatype task_status = Pending | Running | Completed | Failed

datatype task_priority = Low | Normal | High

fun priority_as_i32 :: "task_priority \<Rightarrow> int" where
  "priority_as_i32 Low = 0"
| "priority_as_i32 Normal = 5"
| "priority_as_i32 High = 10"

fun as_str :: "task_status \<Rightarrow> ustring" where
  "as_str Pending = lit ''pending''"
| "as_str Running = lit ''running''"
| "as_str Completed = lit ''completed''"
| "as_str Failed = lit ''failed''"

definition soniox_post_recording_at :: "int \<Rightarrow> remote_authorization" where
  "soniox_post_recording_at ms =
     \<lparr>auth_schema = REMOTE_TASK_AUTHORIZATION_SCHEMA_V1,
      auth_provider = REMOTE_TASK_AUTHORIZATION_PROVIDER_SONIOX,
      auth_data_class = REMOTE_TASK_AUTHORIZATION_DATA_RECORDED_AUDIO,
      auth_purpose = REMOTE_TASK_AUTHORIZATION_PURPOSE_POST_RECORDING_TRANSCRIPTION,
      authorized = True, authorized_at_ms = ms\<rparr>"

fun payload_session_id :: "task_payload \<Rightarrow> ustring" where
  "payload_session_id (Transcribe sid hint auth) = sid"

definition validate_authorization :: "remote_authorization \<Rightarrow> task_queue_error + unit" where
  "validate_authorization a =
     (if auth_schema a = REMOTE_TASK_AUTHORIZATION_SCHEMA_V1
         \<and> auth_provider a = REMOTE_TASK_AUTHORIZATION_PROVIDER_SONIOX
         \<and> auth_data_class a = REMOTE_TASK_AUTHORIZATION_DATA_RECORDED_AUDIO
         \<and> auth_purpose a = REMOTE_TASK_AUTHORIZATION_PURPOSE_POST_RECORDING_TRANSCRIPTION
         \<and> authorized a \<and> authorized_at_ms a > 0
      then Inr ()
      else Inl (ValidationFailed (lit ''remote_authorization_invalid: transcription requires an explicit Soniox authorization snapshot'')))"

fun validate_payload :: "task_payload \<Rightarrow> task_queue_error + unit" where
  "validate_payload (Transcribe sid hint auth) =
     (if trim sid = [] then Inl (ValidationFailed (lit ''transcribe session_id must not be empty''))
      else case auth of
          None \<Rightarrow> Inl (ValidationFailed (lit ''remote_authorization_required: transcription requires explicit authorization''))
        | Some a \<Rightarrow> validate_authorization a)"

section \<open>Machine integers\<close>

definition i64_max :: int where
  "i64_max = 2 ^ 63 - 1"

definition sat_i64 :: "int \<Rightarrow> int" where
  "sat_i64 x = max (- (2 ^ 63)) (min x i64_max)"

text \<open>\<open>u64 as i64\<close>.\<close>

definition as_i64 :: "u64 \<Rightarrow> int" where
  "as_i64 n = (let x = int n mod 2 ^ 64 in if x \<le> i64_max then x else x - 2 ^ 64)"

definition lease_end :: "int \<Rightarrow> u64 \<Rightarrow> int" where
  "lease_end now lease_seconds = sat_i64 (now + sat_i64 (as_i64 lease_seconds * 1000))"

section \<open>The table\<close>

record task_row =
  row_id :: ustring
  row_payload :: ustring
  row_status :: task_status
  row_priority :: int
  row_retry_count :: int
  row_max_retries :: int
  row_lease :: "int option"
  row_heartbeat :: "int option"
  row_error :: "ustring option"
  row_created :: int

record task_queue =
  task_rows :: "task_row list"
  permits :: nat

type_synonym 'a tq = "(task_queue, task_queue_error, 'a) sm"

definition new_queue :: task_queue where
  "new_queue = \<lparr>task_rows = [], permits = 2\<rparr>"

text \<open>\<open>UPDATE .. WHERE\<close>, which changes the rows by \<open>map_where\<close> and returns their number, and
  \<open>SELECT\<close> by key.\<close>

definition execute_update :: "(task_row \<Rightarrow> bool) \<Rightarrow> (task_row \<Rightarrow> task_row) \<Rightarrow> nat tq" where
  "execute_update p f = (\<lambda>q.
     (Inr (length (filter p (task_rows q))), q\<lparr>task_rows := map_where p f (task_rows q)\<rparr>))"

definition find_row :: "ustring \<Rightarrow> task_row list \<Rightarrow> task_row option" where
  "find_row i rows = find (\<lambda>r. row_id r = i) rows"

text \<open>\<open>lease_expires_at_ms = NULL, last_heartbeat_at_ms = NULL\<close>.\<close>

definition settle :: "task_status \<Rightarrow> task_row \<Rightarrow> task_row" where
  "settle st r = r\<lparr>row_status := st, row_lease := None, row_heartbeat := None\<rparr>"

definition fail_row :: "task_status \<Rightarrow> ustring \<Rightarrow> task_row \<Rightarrow> task_row" where
  "fail_row st e r = (settle st r)\<lparr>row_retry_count := row_retry_count r + 1, row_error := Some e\<rparr>"

definition require_updated :: "ustring \<Rightarrow> nat \<Rightarrow> string \<Rightarrow> unit tq" where
  "require_updated task_id updated action = (\<lambda>q.
     if updated = 1 then (Inr (), q)
     else if find_row task_id (task_rows q) \<noteq> None
       then (Inl (ValidationFailed (lit ''task '' @ task_id @ lit '' cannot '' @ lit action
               @ lit '' from its current state'')), q)
     else (Inl (NotFound task_id), q))"

section \<open>Operations\<close>

definition recover_abandoned_tasks :: "nat tq" where
  "recover_abandoned_tasks = execute_update (\<lambda>r. row_status r = Running) (settle Pending)"

definition new_row :: "int \<Rightarrow> ustring \<Rightarrow> ustring \<Rightarrow> task_priority \<Rightarrow> int \<Rightarrow> task_row" where
  "new_row now i payload priority max_retries =
     \<lparr>row_id = i, row_payload = payload, row_status = Pending, row_priority = priority_as_i32 priority,
      row_retry_count = 0, row_max_retries = max_retries, row_lease = None, row_heartbeat = None,
      row_error = None, row_created = now div 1000\<rparr>"

definition enqueue_with_stable_id_and_max_retries ::
    "(task_payload \<Rightarrow> ustring) \<Rightarrow> int \<Rightarrow> ustring \<Rightarrow> task_payload \<Rightarrow> task_priority \<Rightarrow> int \<Rightarrow> (ustring \<times> bool) tq" where
  "enqueue_with_stable_id_and_max_retries encode now raw_id payload priority max_retries = (\<lambda>q.
     let stable_id = trim raw_id
     in if stable_id = [] then (Inl (ValidationFailed (lit ''stable task id must not be empty'')), q)
        else if \<not> (1 \<le> max_retries \<and> max_retries \<le> 20) then
          (Inl (ValidationFailed (lit ''max retries must be between 1 and 20'')), q)
        else case validate_payload payload of
            Inl e \<Rightarrow> (Inl e, q)
          | Inr _ \<Rightarrow>
              (let json = encode payload
               in case find_row stable_id (task_rows q) of
                    None \<Rightarrow> (Inr (stable_id, True),
                      q\<lparr>task_rows := task_rows q @ [new_row now stable_id json priority max_retries]\<rparr>)
                  | Some existing \<Rightarrow>
                      (if row_payload existing \<noteq> json \<or> row_max_retries existing \<noteq> max_retries
                       then (Inl (ValidationFailed (lit ''stable task id '' @ stable_id
                              @ lit '' is already bound to another payload or retry policy'')), q)
                       else (Inr (stable_id, False), q))))"

definition enqueue_with_stable_id ::
    "(task_payload \<Rightarrow> ustring) \<Rightarrow> int \<Rightarrow> ustring \<Rightarrow> task_payload \<Rightarrow> task_priority \<Rightarrow> (ustring \<times> bool) tq" where
  "enqueue_with_stable_id encode now i payload priority =
     enqueue_with_stable_id_and_max_retries encode now i payload priority 3"

definition enqueue_once_with_stable_id ::
    "(task_payload \<Rightarrow> ustring) \<Rightarrow> int \<Rightarrow> ustring \<Rightarrow> task_payload \<Rightarrow> task_priority \<Rightarrow> (ustring \<times> bool) tq" where
  "enqueue_once_with_stable_id encode now i payload priority =
     enqueue_with_stable_id_and_max_retries encode now i payload priority 1"

text \<open>\<open>uuid\<close> is the fresh random identifier.\<close>

definition enqueue_with_priority ::
    "(task_payload \<Rightarrow> ustring) \<Rightarrow> ustring \<Rightarrow> int \<Rightarrow> task_payload \<Rightarrow> task_priority \<Rightarrow> ustring tq" where
  "enqueue_with_priority encode uuid now payload priority =
     sm_bind (enqueue_with_stable_id encode now uuid payload priority) (\<lambda>(i, _). sm_return i)"

definition claimable :: "int \<Rightarrow> task_row \<Rightarrow> bool" where
  "claimable now r \<longleftrightarrow> row_status r = Pending \<or>
     (row_status r = Running \<and> option_ok (\<lambda>l. l \<le> now) (row_lease r))"

text \<open>\<open>ORDER BY priority DESC, created_at ASC LIMIT 1\<close>.\<close>

definition precedes :: "task_row \<Rightarrow> task_row \<Rightarrow> bool" where
  "precedes a b \<longleftrightarrow> row_priority a > row_priority b \<or>
     (row_priority a = row_priority b \<and> row_created a < row_created b)"

fun first_row :: "task_row list \<Rightarrow> task_row option" where
  "first_row [] = None"
| "first_row (r # rs) =
     (case first_row rs of None \<Rightarrow> Some r | Some b \<Rightarrow> if precedes b r then Some b else Some r)"

definition decode_valid :: "(ustring \<Rightarrow> ustring + task_payload) \<Rightarrow> ustring \<Rightarrow> task_queue_error + task_payload" where
  "decode_valid decode json =
     (case decode json of
        Inl e \<Rightarrow> Inl (SerializeError e)
      | Inr p \<Rightarrow> (case validate_payload p of Inl e \<Rightarrow> Inl e | Inr _ \<Rightarrow> Inr p))"

record task =
  task_id :: ustring
  task_payload_of :: task_payload
  task_retry_count :: int

definition lease_row :: "int \<Rightarrow> u64 \<Rightarrow> task_row \<Rightarrow> task_row" where
  "lease_row now lease_seconds r =
     r\<lparr>row_status := Running, row_lease := Some (lease_end now lease_seconds), row_heartbeat := Some now\<rparr>"

definition unsupported :: "task_queue_error \<Rightarrow> ustring \<Rightarrow> task_row list \<Rightarrow> task_row list" where
  "unsupported e i rows =
     map_where (\<lambda>r. row_id r = i) (fail_row Failed (lit ''unsupported_task_payload: '' @ display_error e)) rows"

lemma first_row_in: "first_row rs = Some r \<Longrightarrow> r \<in> set rs"
  by (induction rs) (auto split: option.splits if_splits)

lemma unsupported_shrinks:
  assumes "first_row (filter (claimable now) rows) = Some r"
  shows "length (filter (claimable now) (unsupported e (row_id r) rows)) < length (filter (claimable now) rows)"
proof -
  have r: "r \<in> set rows" "claimable now r" using first_row_in [OF assms] by auto
  let ?keep = "\<lambda>s. claimable now s \<and> row_id s \<noteq> row_id r"
  have fail: "\<not> claimable now (fail_row Failed m s)" for m s
    by (simp add: claimable_def fail_row_def settle_def)
  have "length (filter (claimable now) (unsupported e (row_id r) rows)) = length (filter ?keep rows)"
    unfolding unsupported_def map_where_def by (induction rows) (auto simp: fail)
  also have "\<dots> < length (filter (claimable now) rows)"
    using r
  proof (induction rows)
    case (Cons s rows)
    show ?case
    proof (cases "s = r")
      case True
      have "length (filter ?keep rows) \<le> length (filter (claimable now) rows)"
        by (induction rows) auto
      with True Cons.prems show ?thesis by (simp add: le_imp_less_Suc)
    next
      case False
      with Cons show ?thesis by auto
    qed
  qed simp
  finally show ?thesis .
qed

lemma selected_is_updated:
  assumes "first_row (filter (claimable now) rows) = Some r"
  shows "filter (\<lambda>s. row_id s = row_id r \<and> claimable now s) rows \<noteq> []"
  using first_row_in [OF assms] by (auto simp: filter_empty_conv)

text \<open>The loop of \<open>claim_next\<close>. A claimable row that cannot be decoded or authorized is failed and
  the loop goes on; the update that finds its row gone would retry.\<close>

function claim_loop ::
    "(ustring \<Rightarrow> ustring + task_payload) \<Rightarrow> int \<Rightarrow> u64 \<Rightarrow> task_row list \<Rightarrow> task option \<times> task_row list" where
  "claim_loop decode now lease rows =
     (case first_row (filter (claimable now) rows) of
        None \<Rightarrow> (None, rows)
      | Some r \<Rightarrow>
          (case decode_valid decode (row_payload r) of
             Inl e \<Rightarrow> claim_loop decode now lease (unsupported e (row_id r) rows)
           | Inr p \<Rightarrow>
               (let hit = (\<lambda>s. row_id s = row_id r \<and> claimable now s)
                in if filter hit rows = [] then claim_loop decode now lease rows
                   else (Some \<lparr>task_id = row_id r, task_payload_of = p, task_retry_count = row_retry_count r\<rparr>,
                         map_where hit (lease_row now lease) rows))))"
  by pat_completeness auto
termination
  by (relation "measure (\<lambda>(decode, now, lease, rows). length (filter (claimable now) rows))")
    (use selected_is_updated in \<open>auto simp: unsupported_shrinks\<close>)

declare claim_loop.simps [simp del]

definition claim_next :: "(ustring \<Rightarrow> ustring + task_payload) \<Rightarrow> int \<Rightarrow> u64 \<Rightarrow> task option tq" where
  "claim_next decode now lease = (\<lambda>q.
     if permits q = 0 then (Inr None, q)
     else (case claim_loop decode now lease (task_rows q) of
         (None, rows) \<Rightarrow> (Inr None, q\<lparr>task_rows := rows\<rparr>)
       | (Some t, rows) \<Rightarrow> (Inr (Some t), q\<lparr>task_rows := rows, permits := permits q - 1\<rparr>)))"

definition claim_by_id ::
    "(ustring \<Rightarrow> ustring + task_payload) \<Rightarrow> int \<Rightarrow> ustring \<Rightarrow> u64 \<Rightarrow> task option tq" where
  "claim_by_id decode now i lease = (\<lambda>q.
     if permits q = 0 then (Inr None, q)
     else (case find (\<lambda>r. row_id r = i \<and> claimable now r) (task_rows q) of
         None \<Rightarrow> (Inr None, q)
       | Some r \<Rightarrow>
           (case decode_valid decode (row_payload r) of
              Inl e \<Rightarrow> (Inl e, q)
            | Inr p \<Rightarrow>
                (let hit = (\<lambda>s. row_id s = row_id r \<and> claimable now s)
                 in if filter hit (task_rows q) = [] then (Inr None, q)
                    else (Inr (Some \<lparr>task_id = row_id r, task_payload_of = p, task_retry_count = row_retry_count r\<rparr>),
                          q\<lparr>task_rows := map_where hit (lease_row now lease) (task_rows q),
                            permits := permits q - 1\<rparr>)))))"

text \<open>A \<open>Task\<close> that is dropped gives its permit back.\<close>

definition drop_task :: "task_queue \<Rightarrow> task_queue" where
  "drop_task q = q\<lparr>permits := permits q + 1\<rparr>"

definition running_row :: "ustring \<Rightarrow> task_row \<Rightarrow> bool" where
  "running_row i r \<longleftrightarrow> row_id r = i \<and> row_status r = Running"

definition heartbeat :: "int \<Rightarrow> ustring \<Rightarrow> u64 \<Rightarrow> unit tq" where
  "heartbeat now i lease =
     sm_bind (execute_update (running_row i)
        (\<lambda>r. r\<lparr>row_lease := Some (lease_end now lease), row_heartbeat := Some now\<rparr>))
       (\<lambda>updated. require_updated i updated ''heartbeat'')"

definition complete :: "ustring \<Rightarrow> unit tq" where
  "complete i =
     sm_bind (execute_update (running_row i) (\<lambda>r. (settle Completed r)\<lparr>row_error := None\<rparr>))
       (\<lambda>updated. require_updated i updated ''complete'')"

definition complete_from_durable_provider_receipt :: "ustring \<Rightarrow> unit tq" where
  "complete_from_durable_provider_receipt i =
     sm_bind (execute_update (\<lambda>r. row_id r = i \<and> row_status r \<in> {Pending, Running, Failed})
        (\<lambda>r. (settle Completed r)\<lparr>row_error := None\<rparr>))
       (\<lambda>updated q.
          if updated = 1 then (Inr (), q)
          else case find_row i (task_rows q) of
              Some r \<Rightarrow> (if row_status r = Completed then (Inr (), q)
                else (Inl (ValidationFailed (lit ''cannot complete task '' @ i
                  @ lit '' from durable provider receipt while status is '' @ as_str (row_status r))), q))
            | None \<Rightarrow> (Inl (NotFound i), q))"

definition release_without_retry :: "ustring \<Rightarrow> unit tq" where
  "release_without_retry i =
     sm_bind (execute_update (running_row i) (settle Pending))
       (\<lambda>updated. require_updated i updated ''release without retry'')"

definition fail :: "ustring \<Rightarrow> ustring \<Rightarrow> unit tq" where
  "fail i e = (\<lambda>q.
     case find_row i (task_rows q) of
       None \<Rightarrow> (Inl (NotFound i), q)
     | Some r \<Rightarrow>
         (let st = (if row_retry_count r + 1 \<ge> row_max_retries r then Failed else Pending)
          in sm_bind (execute_update (running_row i) (fail_row st e))
               (\<lambda>updated. require_updated i updated ''fail'') q))"

definition fail_terminal :: "ustring \<Rightarrow> ustring \<Rightarrow> unit tq" where
  "fail_terminal i e =
     sm_bind (execute_update (\<lambda>r. row_id r = i) (fail_row Failed e))
       (\<lambda>updated. require_updated i updated ''fail terminal'')"

definition fail_local_preflight :: "ustring \<Rightarrow> ustring \<Rightarrow> unit tq" where
  "fail_local_preflight i e =
     sm_bind (execute_update (running_row i) (\<lambda>r. (settle Failed r)\<lparr>row_error := Some e\<rparr>))
       (\<lambda>updated. require_updated i updated ''fail local preflight'')"

definition purge_task :: "ustring \<Rightarrow> bool tq" where
  "purge_task i = (\<lambda>q.
     (Inr (length (filter (\<lambda>r. row_id r = i) (task_rows q)) = 1),
      q\<lparr>task_rows := filter (\<lambda>r. row_id r \<noteq> i) (task_rows q)\<rparr>))"

text \<open>\<open>SELECT id, payload FROM tasks ORDER BY id\<close>, by the code units of the ids, then the rows of
  the session; a row that cannot be decoded fails the audit.\<close>

fun audit_rows ::
    "(ustring \<Rightarrow> ustring + task_payload) \<Rightarrow> ustring \<Rightarrow> task_row list \<Rightarrow> task_queue_error + ustring list" where
  "audit_rows decode sid [] = Inr []"
| "audit_rows decode sid (r # rs) =
     (case decode (row_payload r) of
        Inl e \<Rightarrow> Inl (SerializeError (lit ''cannot audit task '' @ row_id r
            @ lit '' during session purge: '' @ e))
      | Inr p \<Rightarrow> (case audit_rows decode sid rs of
            Inl e \<Rightarrow> Inl e
          | Inr ids \<Rightarrow> Inr (if payload_session_id p = sid then row_id r # ids else ids)))"

fun id_less :: "ustring \<Rightarrow> ustring \<Rightarrow> bool" where
  "id_less _ [] = False"
| "id_less [] (_ # _) = True"
| "id_less (a # as) (b # bs) = (a < b \<or> (a = b \<and> id_less as bs))"

fun insert_by_id :: "task_row \<Rightarrow> task_row list \<Rightarrow> task_row list" where
  "insert_by_id r [] = [r]"
| "insert_by_id r (s # ss) = (if id_less (row_id s) (row_id r) then s # insert_by_id r ss else r # s # ss)"

definition matching_task_ids ::
    "(ustring \<Rightarrow> ustring + task_payload) \<Rightarrow> ustring \<Rightarrow> task_row list \<Rightarrow> task_queue_error + ustring list" where
  "matching_task_ids decode sid rows = audit_rows decode sid (foldr insert_by_id rows [])"

definition purge_session :: "(ustring \<Rightarrow> ustring + task_payload) \<Rightarrow> ustring \<Rightarrow> nat tq" where
  "purge_session decode sid = (\<lambda>q.
     case matching_task_ids decode sid (task_rows q) of
       Inl e \<Rightarrow> (Inl e, q)
     | Inr ids \<Rightarrow> (Inr (length ids),
         q\<lparr>task_rows := fold (\<lambda>i. filter (\<lambda>r. row_id r \<noteq> i)) ids (task_rows q)\<rparr>))"

definition list_session_task_ids :: "(ustring \<Rightarrow> ustring + task_payload) \<Rightarrow> ustring \<Rightarrow> ustring list tq" where
  "list_session_task_ids decode sid = (\<lambda>q. (matching_task_ids decode sid (task_rows q), q))"

definition list_tasks :: "ustring option \<Rightarrow> task_row list tq" where
  "list_tasks status_filter = (\<lambda>q.
     (case status_filter of
        None \<Rightarrow> Inr (sort_key (\<lambda>r. - row_created r) (task_rows q))
      | Some st \<Rightarrow>
          (if st \<notin> set (map as_str [Pending, Running, Completed, Failed])
           then Inl (ValidationFailed (lit ''invalid task status filter: '' @ st))
           else Inr (sort_key (\<lambda>r. - row_created r) (filter (\<lambda>r. as_str (row_status r) = st) (task_rows q)))), q))"

definition get_status :: "ustring \<Rightarrow> task_status tq" where
  "get_status i = (\<lambda>q.
     (case find_row i (task_rows q) of None \<Rightarrow> Inl (NotFound i) | Some r \<Rightarrow> Inr (row_status r), q))"

definition get_task :: "ustring \<Rightarrow> task_row tq" where
  "get_task i = (\<lambda>q.
     (case find_row i (task_rows q) of None \<Rightarrow> Inl (NotFound i) | Some r \<Rightarrow> Inr r, q))"

section \<open>Opening the database\<close>

definition TASK_QUEUE_SCHEMA_VERSION :: int where
  "TASK_QUEUE_SCHEMA_VERSION = 1"

definition int_str :: "int \<Rightarrow> ustring" where
  "int_str n = (if n < 0 then 45 # nat_str (nat (- n)) else nat_str (nat n))"

datatype schema_action = CreateTable | KeepTable

text \<open>\<open>columns_found\<close> says whether the columns the queue reads can be selected
  (\<open>validate_task_schema\<close>), \<open>user_objects\<close> whether the database holds anything.\<close>

definition validate_task_schema :: "bool \<Rightarrow> task_queue_error + unit" where
  "validate_task_schema columns_found =
     (if columns_found then Inr () else Inl (ValidationFailed (lit ''task schema 1 is incomplete; reset required'')))"

definition initialize_task_schema :: "int \<Rightarrow> bool \<Rightarrow> bool \<Rightarrow> task_queue_error + schema_action" where
  "initialize_task_schema version user_objects columns_found =
     (if version = 0 \<and> user_objects
      then Inl (ValidationFailed (lit ''unsupported task schema 0; reset required''))
      else if version = 0 then Inr CreateTable
      else if version = TASK_QUEUE_SCHEMA_VERSION
        then (case validate_task_schema columns_found of Inl e \<Rightarrow> Inl e | Inr _ \<Rightarrow> Inr KeepTable)
      else Inl (ValidationFailed (lit ''unsupported task schema '' @ int_str version @ lit ''; reset required'')))"

text \<open>A database that holds anything the queue did not create is never touched.\<close>

lemma foreign_database_is_refused:
  "initialize_task_schema version True columns_found = Inr a \<Longrightarrow> version = TASK_QUEUE_SCHEMA_VERSION \<and> columns_found \<and> a = KeepTable"
  by (auto simp: initialize_task_schema_def validate_task_schema_def split: if_splits)

section \<open>Runs of the queue\<close>

text \<open>A process reads and writes the table through these operations; a crash is the end of the
  process's permits, and the next owner recovers the abandoned tasks.\<close>

datatype queue_op =
    Enqueue ustring task_payload task_priority int
  | ClaimNext u64
  | ClaimById ustring u64
  | DropTask
  | Heartbeat ustring u64
  | Complete ustring
  | CompleteFromReceipt ustring
  | Release ustring
  | Fail ustring ustring
  | FailTerminal ustring ustring
  | FailPreflight ustring ustring
  | PurgeTask ustring
  | PurgeSession ustring
  | Restart

fun queue_step ::
    "(task_payload \<Rightarrow> ustring) \<Rightarrow> (ustring \<Rightarrow> ustring + task_payload) \<Rightarrow> int \<times> queue_op \<Rightarrow> task_queue \<Rightarrow> task_queue" where
  "queue_step enc dec (now, Enqueue i p pr n) q = snd (enqueue_with_stable_id_and_max_retries enc now i p pr n q)"
| "queue_step enc dec (now, ClaimNext l) q = snd (claim_next dec now l q)"
| "queue_step enc dec (now, ClaimById i l) q = snd (claim_by_id dec now i l q)"
| "queue_step enc dec (now, DropTask) q = drop_task q"
| "queue_step enc dec (now, Heartbeat i l) q = snd (heartbeat now i l q)"
| "queue_step enc dec (now, Complete i) q = snd (complete i q)"
| "queue_step enc dec (now, CompleteFromReceipt i) q = snd (complete_from_durable_provider_receipt i q)"
| "queue_step enc dec (now, Release i) q = snd (release_without_retry i q)"
| "queue_step enc dec (now, Fail i e) q = snd (fail i e q)"
| "queue_step enc dec (now, FailTerminal i e) q = snd (fail_terminal i e q)"
| "queue_step enc dec (now, FailPreflight i e) q = snd (fail_local_preflight i e q)"
| "queue_step enc dec (now, PurgeTask i) q = snd (purge_task i q)"
| "queue_step enc dec (now, PurgeSession s) q = snd (purge_session dec s q)"
| "queue_step enc dec (now, Restart) q = (snd (recover_abandoned_tasks q))\<lparr>permits := 2\<rparr>"

inductive reachable ::
    "(task_payload \<Rightarrow> ustring) \<Rightarrow> (ustring \<Rightarrow> ustring + task_payload) \<Rightarrow> task_queue \<Rightarrow> bool"
  for enc dec where
  opened: "reachable enc dec new_queue"
| step: "reachable enc dec q \<Longrightarrow> reachable enc dec (queue_step enc dec (now, op) q)"

section \<open>What every operation does to a row\<close>

text \<open>The rows of a table keep their ids: an operation changes, appends or removes rows.\<close>

definition row_ok :: "task_row \<Rightarrow> bool" where
  "row_ok r \<longleftrightarrow> row_id r \<noteq> [] \<and> 0 \<le> row_retry_count r \<and> 1 \<le> row_max_retries r \<and> row_max_retries r \<le> 20 \<and>
     (row_status r = Running \<longleftrightarrow> row_lease r \<noteq> None) \<and> (row_lease r = None \<longleftrightarrow> row_heartbeat r = None) \<and>
     (row_status r \<in> {Pending, Running} \<longrightarrow> row_retry_count r < row_max_retries r)"

definition table_ok :: "task_row list \<Rightarrow> bool" where
  "table_ok rows \<longleftrightarrow> distinct (map row_id rows) \<and> list_all row_ok rows"

interpretation settled: keyed_update row_id "settle st" for st
  by unfold_locales (simp add: settle_def)

interpretation failed: keyed_update row_id "fail_row st e" for st e
  by unfold_locales (simp add: fail_row_def settle_def)

interpretation leased: keyed_update row_id "lease_row now l" for now l
  by unfold_locales (simp add: lease_row_def)

lemma map_where_ids [simp]:
  "(\<And>r. row_id (f r) = row_id r) \<Longrightarrow> map row_id (map_where p f rows) = map row_id rows"
  by (simp add: map_where_def)

lemma table_ok_update:
  assumes "table_ok rows" and "\<And>r. row_id (f r) = row_id r" and "\<And>r. row_ok r \<Longrightarrow> p r \<Longrightarrow> row_ok (f r)"
  shows "table_ok (map_where p f rows)"
  using assms by (auto simp: table_ok_def list_all_iff map_where_def comp_def if_distrib cong: if_cong)

lemma table_ok_filter: "table_ok rows \<Longrightarrow> table_ok (filter p rows)"
  by (auto simp: table_ok_def list_all_iff distinct_map intro: inj_on_subset)

lemma settle_ok: "row_ok r \<Longrightarrow> st \<noteq> Running \<Longrightarrow> (st = Pending \<longrightarrow> row_status r = Running) \<Longrightarrow> row_ok (settle st r)"
  by (auto simp: row_ok_def settle_def)

lemma settle_id [simp]: "row_id (settle st r) = row_id r" "row_id (fail_row st e r) = row_id r"
    "row_id (lease_row now l r) = row_id r"
  by (simp_all add: settle_def fail_row_def lease_row_def)

lemma fail_row_ok:
  "row_ok r \<Longrightarrow> st \<noteq> Running \<Longrightarrow> (st = Pending \<longrightarrow> row_retry_count r + 1 < row_max_retries r) \<Longrightarrow>
     row_ok (fail_row st e r)"
  by (auto simp: row_ok_def settle_def fail_row_def)

lemma lease_row_ok: "row_ok r \<Longrightarrow> claimable now s \<Longrightarrow> row_status r \<in> {Pending, Running} \<Longrightarrow> row_ok (lease_row now l r)"
  by (auto simp: row_ok_def lease_row_def)

lemma error_ok [simp]: "row_ok (r\<lparr>row_error := e\<rparr>) = row_ok r"
  by (simp add: row_ok_def)

lemma claimable_status: "claimable now r \<Longrightarrow> row_status r \<in> {Pending, Running}"
  by (auto simp: claimable_def)

lemma require_updated_state [simp]: "snd (require_updated i n action q) = q"
  by (simp add: require_updated_def)

lemma execute_then [simp]:
  "snd (sm_bind (execute_update p f) (\<lambda>n. require_updated i n action) q) =
     q\<lparr>task_rows := map_where p f (task_rows q)\<rparr>"
  by (simp add: sm_bind_def execute_update_def)

lemma recover_state [simp]:
  "task_rows (snd (recover_abandoned_tasks q)) =
     map_where (\<lambda>r. row_status r = Running) (settle Pending) (task_rows q)"
  by (simp add: recover_abandoned_tasks_def execute_update_def)

lemma receipt_state [simp]:
  "snd (complete_from_durable_provider_receipt i q) =
     q\<lparr>task_rows := map_where (\<lambda>r. row_id r = i \<and> row_status r \<in> {Pending, Running, Failed})
        (\<lambda>r. (settle Completed r)\<lparr>row_error := None\<rparr>) (task_rows q)\<rparr>"
  by (simp add: complete_from_durable_provider_receipt_def sm_bind_def execute_update_def split: option.split)

lemma fail_state:
  "task_rows (snd (fail i e q)) =
     (case find_row i (task_rows q) of None \<Rightarrow> task_rows q
      | Some r \<Rightarrow> map_where (running_row i)
          (fail_row (if row_retry_count r + 1 \<ge> row_max_retries r then Failed else Pending) e) (task_rows q))"
  by (simp add: fail_def Let_def split: option.split)

lemma claim_loop_ok:
  "table_ok rows \<Longrightarrow> table_ok (snd (claim_loop decode now lease rows))"
proof (induction decode now lease rows rule: claim_loop.induct)
  case (1 decode now lease rows)
  show ?case
  proof (cases "first_row (filter (claimable now) rows)")
    case None
    with 1 show ?thesis by (subst claim_loop.simps) simp
  next
    case (Some r)
    show ?thesis
    proof (cases "decode_valid decode (row_payload r)")
      case (Inl e)
      have "table_ok (unsupported e (row_id r) rows)"
        unfolding unsupported_def by (rule table_ok_update [OF 1(3)]) (simp_all add: fail_row_ok)
      with 1(1) [OF Some Inl] Some Inl show ?thesis by (subst claim_loop.simps) simp
    next
      case (Inr p)
      have "table_ok (map_where (\<lambda>s. row_id s = row_id r \<and> claimable now s) (lease_row now lease) rows)"
        by (rule table_ok_update [OF 1(3)]) (auto intro: lease_row_ok dest: claimable_status)
      with Some Inr selected_is_updated [OF Some] show ?thesis
        by (subst claim_loop.simps) (simp add: Let_def)
    qed
  qed
qed

lemma find_row_None: "find_row i rows = None \<longleftrightarrow> i \<notin> set (map row_id rows)"
  unfolding find_row_def by (rule find_key_None)

lemma find_row_Some: "find_row i rows = Some r \<Longrightarrow> r \<in> set rows \<and> row_id r = i"
  unfolding find_row_def by (rule find_key_Some)

lemma distinct_row:
  "distinct (map row_id rows) \<Longrightarrow> r \<in> set rows \<Longrightarrow> s \<in> set rows \<Longrightarrow> row_id r = row_id s \<Longrightarrow> r = s"
  by (auto simp: distinct_map dest: inj_onD)

lemma table_ok_enqueue:
  assumes "table_ok (task_rows q)"
  shows "table_ok (task_rows (snd (enqueue_with_stable_id_and_max_retries enc now i p pr n q)))"
  using assms
  by (auto simp: enqueue_with_stable_id_and_max_retries_def Let_def table_ok_def new_row_def row_ok_def
      find_row_None split: option.split sum.split)

lemma table_ok_fail:
  assumes "table_ok (task_rows q)"
  shows "table_ok (task_rows (snd (fail i e q)))"
proof (cases "find_row i (task_rows q)")
  case None
  with assms show ?thesis by (simp add: fail_state)
next
  case (Some r)
  have same: "s = r" if "s \<in> set (task_rows q)" "running_row i s" for s
    using assms that find_row_Some [OF Some] by (auto simp: table_ok_def running_row_def intro: distinct_row)
  let ?st = "if row_retry_count r + 1 \<ge> row_max_retries r then Failed else Pending"
  have "table_ok (map_where (running_row i) (fail_row ?st e) (task_rows q))"
    using assms same
    by (auto simp: table_ok_def list_all_iff map_where_def comp_def if_distrib fail_row_ok cong: if_cong)
  with Some show ?thesis by (simp add: fail_state)
qed

lemma fold_filter_rows: "fold (\<lambda>i. filter (\<lambda>r. row_id r \<noteq> i)) ids rows = filter (\<lambda>r. row_id r \<notin> set ids) rows"
  by (induction ids arbitrary: rows) (auto intro: filter_cong)

lemma table_ok_claim:
  assumes "table_ok (task_rows q)"
  shows "table_ok (task_rows (snd (claim_next decode now lease q)))"
    and "table_ok (task_rows (snd (claim_by_id decode now i lease q)))"
proof -
  show "table_ok (task_rows (snd (claim_next decode now lease q)))"
    using assms claim_loop_ok [OF assms, of decode now lease]
    by (auto simp: claim_next_def split: prod.split option.split)
  show "table_ok (task_rows (snd (claim_by_id decode now i lease q)))"
    using assms
    by (auto simp: claim_by_id_def Let_def split: option.split sum.split
        intro!: table_ok_update intro: lease_row_ok dest: claimable_status)
qed

lemma queue_step_ok:
  assumes "table_ok (task_rows q)" shows "table_ok (task_rows (queue_step enc dec (now, op) q))"
proof (cases op)
  case (PurgeSession s)
  with assms show ?thesis
    by (auto simp: purge_session_def fold_filter_rows table_ok_filter split: sum.split)
next
  case (Heartbeat i l)
  with assms show ?thesis
    by (auto simp: heartbeat_def running_row_def intro!: table_ok_update) (auto simp: row_ok_def)
qed (use assms in \<open>auto simp: table_ok_enqueue table_ok_claim table_ok_fail drop_task_def complete_def
    release_without_retry_def fail_terminal_def fail_local_preflight_def purge_task_def table_ok_filter
    running_row_def
    intro!: table_ok_update settle_ok fail_row_ok\<close>)

section \<open>Properties\<close>

text \<open>C25. Whatever is done to the queue, and across restarts, its table is well formed: ids are unique, a
  row has a lease exactly while it runs, and a row that may still be claimed has an attempt left.\<close>

theorem reachable_table_ok:
  assumes "reachable enc dec q"
  shows "distinct (map row_id (task_rows q)) \<and>
    (\<forall>r \<in> set (task_rows q). (row_status r = Running \<longleftrightarrow> row_lease r \<noteq> None) \<and>
       (row_status r \<in> {Pending, Running} \<longrightarrow> row_retry_count r < row_max_retries r \<and> row_max_retries r \<le> 20))"
proof -
  have "table_ok (task_rows q)"
    using assms
  proof (induction rule: reachable.induct)
    case opened
    show ?case by (simp add: table_ok_def new_queue_def)
  next
    case (step q now op)
    then show ?case by (intro queue_step_ok)
  qed
  then show ?thesis by (auto simp: table_ok_def list_all_iff row_ok_def)
qed

definition sample_payload :: "ustring \<Rightarrow> task_payload" where
  "sample_payload sid = Transcribe sid None (Some (soniox_post_recording_at 1))"

theorem reachable_table_ok_witness:
  "distinct (map row_id (task_rows (queue_step (\<lambda>_. []) (\<lambda>_. Inl []) (5000, Enqueue [49] (sample_payload [50]) High 3) new_queue)))"
proof -
  have "reachable (\<lambda>_. []) (\<lambda>_. Inl []) (queue_step (\<lambda>_. []) (\<lambda>_. Inl []) (5000, Enqueue [49] (sample_payload [50]) High 3) new_queue)"
    by (intro reachable.intros)
  from reachable_table_ok [OF this] show ?thesis by blast
qed

lemma precedes_rules:
  "\<not> precedes r r" "precedes r s \<Longrightarrow> \<not> precedes s r" "precedes s r \<Longrightarrow> precedes s c \<or> precedes c r"
  unfolding precedes_def by linarith+

lemma first_row_best: "first_row rs = Some b \<Longrightarrow> s \<in> set rs \<Longrightarrow> \<not> precedes s b"
proof (induction rs arbitrary: b)
  case (Cons r rs)
  show ?case
  proof (cases "first_row rs")
    case None
    then have "rs = []" by (cases rs) (auto split: option.splits if_splits)
    with Cons.prems show ?thesis by (simp add: precedes_rules)
  next
    case (Some c)
    have c: "s \<in> set rs \<Longrightarrow> \<not> precedes s c" using Cons.IH Some by blast
    show ?thesis
    proof (cases "precedes c r")
      case True
      with Some Cons.prems c show ?thesis by (auto simp: precedes_rules(2))
    next
      case False
      with Some Cons.prems have "b = r" by simp
      with False Cons.prems c show ?thesis using precedes_rules(1,3) by auto
    qed
  qed
qed simp

lemma first_row_None: "first_row rs = None \<longleftrightarrow> rs = []"
  by (cases rs) (auto split: option.splits)

text \<open>The rows a claim may take: claimable, with a payload that decodes and is authorized.\<close>

definition eligible :: "(ustring \<Rightarrow> ustring + task_payload) \<Rightarrow> int \<Rightarrow> task_row \<Rightarrow> bool" where
  "eligible decode now r \<longleftrightarrow> claimable now r \<and> (case decode_valid decode (row_payload r) of Inl _ \<Rightarrow> False | Inr _ \<Rightarrow> True)"

lemma eligible_unsupported:
  assumes "distinct (map row_id rows)" and "r \<in> set rows" and "\<not> eligible decode now r"
  shows "filter (eligible decode now) (unsupported e (row_id r) rows) = filter (eligible decode now) rows"
proof -
  have "\<not> eligible decode now (fail_row Failed m s)" for m s
    by (simp add: eligible_def claimable_def fail_row_def settle_def)
  moreover have "s = r" if "s \<in> set rows" "row_id s = row_id r" for s
    using assms(1,2) that by (metis distinct_row)
  ultimately have "filter (eligible decode now) (unsupported e (row_id r) rs) = filter (eligible decode now) rs"
    if "set rs \<subseteq> set rows" for rs
    using that assms(3) by (induction rs) (auto simp: unsupported_def map_where_def)
  then show ?thesis by simp
qed

lemma distinct_unsupported:
  "distinct (map row_id rows) \<Longrightarrow> distinct (map row_id (unsupported e i rows))"
  by (simp add: unsupported_def)

lemma claim_loop_best:
  assumes "distinct (map row_id rows)"
  shows "case claim_loop decode now lease rows of
      (None, rows') \<Rightarrow> filter (eligible decode now) rows = []
    | (Some t, rows') \<Rightarrow> \<exists>r \<in> set rows. row_id r = task_id t \<and> claimable now r \<and>
        decode_valid decode (row_payload r) = Inr (task_payload_of t) \<and>
        task_retry_count t = row_retry_count r \<and>
        (\<forall>s \<in> set (filter (eligible decode now) rows). \<not> precedes s r) \<and> lease_row now lease r \<in> set rows'"
  using assms
proof (induction decode now lease rows rule: claim_loop.induct)
  case (1 decode now lease rows)
  show ?case
  proof (cases "first_row (filter (claimable now) rows)")
    case None
    then show ?thesis by (subst claim_loop.simps) (auto simp: first_row_None filter_empty_conv eligible_def)
  next
    case (Some r)
    have r: "r \<in> set rows" "claimable now r" using first_row_in [OF Some] by auto
    show ?thesis
    proof (cases "decode_valid decode (row_payload r)")
      case (Inl e)
      let ?rows = "unsupported e (row_id r) rows"
      have same: "filter (eligible decode now) ?rows = filter (eligible decode now) rows"
        by (rule eligible_unsupported [OF 1(3) r(1)]) (simp add: eligible_def Inl)
      have origin: "s \<in> set rows" if "s \<in> set ?rows" "claimable now s" for s
        using that by (auto simp: unsupported_def map_where_def claimable_def fail_row_def settle_def split: if_splits)
      have "claim_loop decode now lease rows = claim_loop decode now lease ?rows"
        using Some Inl by (subst claim_loop.simps) simp
      with 1(1) [OF Some Inl distinct_unsupported [OF 1(3)]] same origin show ?thesis
        by (auto split: prod.split option.split) blast
    next
      case (Inr p)
      have best: "\<not> precedes s r" if "s \<in> set rows" "claimable now s" for s
        using first_row_best [OF Some, of s] that by simp
      have "lease_row now lease r \<in> set (map_where (\<lambda>s. row_id s = row_id r \<and> claimable now s) (lease_row now lease) rows)"
        using r by (auto simp: map_where_def image_iff intro!: bexI [of _ r])
      with Some Inr selected_is_updated [OF Some] r best show ?thesis
        by (subst claim_loop.simps) (auto simp: Let_def eligible_def intro!: bexI [of _ r])
    qed
  qed
qed

text \<open>C24. A claim takes the right task: an eligible row that no eligible row precedes, by priority and then
  by age, and leaves it running under the new lease; it comes back empty-handed only when no permit
  is free or no row is eligible.\<close>

theorem claim_next_takes_the_best:
  assumes "distinct (map row_id (task_rows q))" and "claim_next decode now lease q = (Inr res, q')"
  shows "case res of
      None \<Rightarrow> permits q = 0 \<or> filter (eligible decode now) (task_rows q) = []
    | Some t \<Rightarrow> permits q = permits q' + 1 \<and> (\<exists>r \<in> set (task_rows q). row_id r = task_id t \<and> claimable now r \<and>
        decode_valid decode (row_payload r) = Inr (task_payload_of t) \<and>
        task_retry_count t = row_retry_count r \<and>
        (\<forall>s \<in> set (filter (eligible decode now) (task_rows q)). \<not> precedes s r) \<and>
        lease_row now lease r \<in> set (task_rows q'))"
  using claim_loop_best [OF assms(1), of decode now lease] assms(2)
  by (auto simp: claim_next_def split: prod.splits option.splits if_splits)

definition sample_rows :: "task_row list" where
  "sample_rows = [new_row 1000 [49] [49] Normal 3, new_row 2000 [50] [50] High 3]"

theorem claim_next_takes_the_best_witness:
  "\<exists>r \<in> set sample_rows. row_id r = [50] \<and>
     lease_row 5000 60 r \<in> set (task_rows (snd (claim_next (\<lambda>_. Inr (sample_payload [51])) 5000 60
       \<lparr>task_rows = sample_rows, permits = 2\<rparr>)))"
proof -
  let ?q = "\<lparr>task_rows = sample_rows, permits = 2\<rparr>"
  let ?d = "\<lambda>_. Inr (sample_payload [51])"
  have d: "distinct (map row_id (task_rows ?q))" by (simp add: sample_rows_def new_row_def)
  have valid: "validate_payload (sample_payload [51]) = Inr ()"
    by (simp add: sample_payload_def validate_authorization_def soniox_post_recording_at_def trim_def is_whitespace_def)
  have run: "claim_next ?d 5000 60 ?q =
      (Inr (Some \<lparr>task_id = [50], task_payload_of = sample_payload [51], task_retry_count = 0\<rparr>), snd (claim_next ?d 5000 60 ?q))"
    by (simp add: claim_next_def claim_loop.simps sample_rows_def new_row_def claimable_def precedes_def
        decode_valid_def valid Let_def)
  show ?thesis using claim_next_takes_the_best [OF d run] by auto
qed

section \<open>Who may change a row\<close>

text \<open>\<open>owner_op i op\<close>: an operation of the worker that holds task \<open>i\<close>, of the recovery or the
  purge that names it, or the restart after its process died.\<close>

fun owner_op :: "ustring \<Rightarrow> queue_op \<Rightarrow> bool" where
  "owner_op i (Heartbeat j l) = (j = i)"
| "owner_op i (Complete j) = (j = i)"
| "owner_op i (CompleteFromReceipt j) = (j = i)"
| "owner_op i (Release j) = (j = i)"
| "owner_op i (Fail j e) = (j = i)"
| "owner_op i (FailTerminal j e) = (j = i)"
| "owner_op i (FailPreflight j e) = (j = i)"
| "owner_op i (PurgeTask j) = (j = i)"
| "owner_op i (PurgeSession s) = True"
| "owner_op i Restart = True"
| "owner_op i _ = False"

text \<open>The operations that can change a settled row: a durable receipt, a terminal failure, a purge.\<close>

fun overriding_op :: "ustring \<Rightarrow> queue_op \<Rightarrow> bool" where
  "overriding_op i (CompleteFromReceipt j) = (j = i)"
| "overriding_op i (FailTerminal j e) = (j = i)"
| "overriding_op i (PurgeTask j) = (j = i)"
| "overriding_op i (PurgeSession s) = True"
| "overriding_op i _ = False"

lemma in_map_where: "r \<in> set rows \<Longrightarrow> \<not> p r \<Longrightarrow> r \<in> set (map_where p f rows)"
  by (auto simp: map_where_def image_iff intro!: bexI [of _ r])

lemma claim_loop_keeps:
  assumes "distinct (map row_id rows)" and "r \<in> set rows" and "\<not> claimable now r"
  shows "r \<in> set (snd (claim_loop decode now lease rows)) \<and>
    (case fst (claim_loop decode now lease rows) of None \<Rightarrow> True | Some t \<Rightarrow> task_id t \<noteq> row_id r)"
  using assms
proof (induction decode now lease rows rule: claim_loop.induct)
  case (1 decode now lease rows)
  show ?case
  proof (cases "first_row (filter (claimable now) rows)")
    case None
    with 1 show ?thesis by (subst (1 2) claim_loop.simps) simp
  next
    case (Some s)
    have s: "s \<in> set rows" "claimable now s" using first_row_in [OF Some] by auto
    have other: "row_id r \<noteq> row_id s" using distinct_row [OF 1(3) 1(4) s(1)] s(2) 1(5) by metis
    show ?thesis
    proof (cases "decode_valid decode (row_payload s)")
      case (Inl e)
      have "r \<in> set (unsupported e (row_id s) rows)"
        unfolding unsupported_def using 1(4) other by (intro in_map_where) simp_all
      with 1(1) [OF Some Inl distinct_unsupported [OF 1(3)]] 1(5) Some Inl show ?thesis
        by (subst (1 2) claim_loop.simps) simp
    next
      case (Inr p)
      have "r \<in> set (map_where (\<lambda>u. row_id u = row_id s \<and> claimable now u) (lease_row now lease) rows)"
        using 1(4) other by (intro in_map_where) simp_all
      with Some Inr selected_is_updated [OF Some] other show ?thesis
        by (subst (1 2) claim_loop.simps) (simp add: Let_def)
    qed
  qed
qed

text \<open>The task an operation hands to a worker.\<close>

fun claimed_by :: "(ustring \<Rightarrow> ustring + task_payload) \<Rightarrow> int \<times> queue_op \<Rightarrow> task_queue \<Rightarrow> ustring option" where
  "claimed_by dec (now, ClaimNext l) q =
     (case fst (claim_next dec now l q) of Inr (Some t) \<Rightarrow> Some (task_id t) | _ \<Rightarrow> None)"
| "claimed_by dec (now, ClaimById i l) q =
     (case fst (claim_by_id dec now i l q) of Inr (Some t) \<Rightarrow> Some (task_id t) | _ \<Rightarrow> None)"
| "claimed_by dec _ q = None"

lemma claim_keeps:
  assumes "distinct (map row_id (task_rows q))" and "r \<in> set (task_rows q)" and "\<not> claimable now r"
  shows "r \<in> set (task_rows (snd (claim_next decode now lease q)))"
    and "r \<in> set (task_rows (snd (claim_by_id decode now i lease q)))"
    and "claimed_by decode (now, ClaimNext lease) q \<noteq> Some (row_id r)"
    and "claimed_by decode (now, ClaimById i lease) q \<noteq> Some (row_id r)"
proof -
  note keep = claim_loop_keeps [OF assms, of decode lease]
  show "r \<in> set (task_rows (snd (claim_next decode now lease q)))"
    using keep assms(2) by (auto simp: claim_next_def split: prod.split option.split)
  show "claimed_by decode (now, ClaimNext lease) q \<noteq> Some (row_id r)"
    using keep by (auto simp: claim_next_def split: prod.splits option.splits sum.splits if_splits)
  have other: "row_id s \<noteq> row_id r" if "find (\<lambda>r. row_id r = i \<and> claimable now r) (task_rows q) = Some s" for s
    using that assms by (auto simp: find_Some_iff) (metis distinct_row nth_mem)
  show "r \<in> set (task_rows (snd (claim_by_id decode now i lease q)))"
    using assms other
    by (auto simp: claim_by_id_def Let_def split: option.split sum.split intro!: in_map_where)
  show "claimed_by decode (now, ClaimById i lease) q \<noteq> Some (row_id r)"
    using other by (auto simp: claim_by_id_def Let_def split: option.splits sum.splits if_splits)
qed

lemma fail_keeps: "r \<in> set (task_rows q) \<Longrightarrow> \<not> running_row i r \<Longrightarrow> r \<in> set (task_rows (snd (fail i e q)))"
  by (auto simp: fail_state in_map_where split: option.split)

lemma enqueue_keeps:
  "r \<in> set (task_rows q) \<Longrightarrow> r \<in> set (task_rows (snd (enqueue_with_stable_id_and_max_retries enc now i p pr n q)))"
  by (auto simp: enqueue_with_stable_id_and_max_retries_def Let_def split: option.split sum.split)

lemmas keep_rules = in_map_where fail_keeps enqueue_keeps claim_keeps(1,2)

lemma step_keeps:
  assumes "distinct (map row_id (task_rows q))" and "r \<in> set (task_rows q)" and "\<not> claimable now r"
    and "if row_status r = Running then \<not> owner_op (row_id r) op else \<not> overriding_op (row_id r) op"
  shows "r \<in> set (task_rows (queue_step enc dec (now, op) q))"
proof -
  have settled: "row_status r \<noteq> Pending" using assms(3) by (auto simp: claimable_def)
  show ?thesis
    using assms settled
    by (cases op)
      (auto simp: heartbeat_def complete_def release_without_retry_def fail_terminal_def fail_local_preflight_def
        drop_task_def purge_task_def running_row_def split: if_splits intro!: keep_rules)
qed

text \<open>C22. A live lease is exclusive: until it expires, and as long as its holder, a purge or a restart
  does not touch it, no sequence of operations of others changes the row or hands the task out again.\<close>

theorem live_lease_is_exclusive:
  assumes "table_ok (task_rows q)" and "r \<in> set (task_rows q)"
    and "row_status r = Running" and "row_lease r = Some l"
    and "\<forall>(now, op) \<in> set (ops @ [last_op]). now < l \<and> \<not> owner_op (row_id r) op"
  shows "r \<in> set (task_rows (fold (queue_step enc dec) (ops @ [last_op]) q)) \<and>
    claimed_by dec last_op (fold (queue_step enc dec) ops q) \<noteq> Some (row_id r)"
  using assms
proof (induction ops arbitrary: q)
  case Nil
  obtain now op where op: "last_op = (now, op)" by (cases last_op)
  have busy: "\<not> claimable now r" using Nil op by (simp add: claimable_def option_ok_def)
  have d: "distinct (map row_id (task_rows q))" using Nil.prems(1) by (simp add: table_ok_def)
  have "claimed_by dec (now, op) q \<noteq> Some (row_id r)"
    using claim_keeps(3,4) [OF d Nil.prems(2) busy] by (cases op) simp_all
  with step_keeps [OF d Nil.prems(2) busy, of op] Nil.prems op show ?case by simp
next
  case (Cons nop ops)
  obtain now op where op: "nop = (now, op)" by (cases nop)
  have busy: "\<not> claimable now r" using Cons.prems op by (simp add: claimable_def option_ok_def)
  have d: "distinct (map row_id (task_rows q))" using Cons.prems(1) by (simp add: table_ok_def)
  have "r \<in> set (task_rows (queue_step enc dec nop q))"
    using step_keeps [OF d Cons.prems(2) busy, of op] Cons.prems op by simp
  moreover have "table_ok (task_rows (queue_step enc dec nop q))"
    unfolding op by (rule queue_step_ok) (rule Cons.prems(1))
  ultimately show ?case using Cons.IH [of "queue_step enc dec nop q"] Cons.prems by simp
qed

definition leased_row :: task_row where
  "leased_row = lease_row 5000 60 (new_row 1000 [49] [49] Normal 3)"

lemma leased_row_simps [simp]:
  "row_status leased_row = Running" "row_lease leased_row = Some 65000" "row_id leased_row = [49]"
  by (simp_all add: leased_row_def lease_row_def lease_end_def sat_i64_def as_i64_def i64_max_def new_row_def Let_def)

lemma leased_table_ok: "table_ok [leased_row]"
  by (simp add: table_ok_def row_ok_def leased_row_def lease_row_def new_row_def)

theorem live_lease_is_exclusive_witness:
  "claimed_by (\<lambda>_. Inr (sample_payload [51])) (64000, ClaimNext 60)
     (fold (queue_step (\<lambda>_. []) (\<lambda>_. Inr (sample_payload [51])))
       [(6000, Enqueue [50] (sample_payload [51]) High 3), (7000, Complete [50])]
       \<lparr>task_rows = [leased_row], permits = 2\<rparr>) \<noteq> Some [49]"
proof -
  let ?q = "\<lparr>task_rows = [leased_row], permits = 2\<rparr>"
  let ?ops = "[(6000, Enqueue [50] (sample_payload [51]) High 3), (7000, Complete [50])]"
  have h: "table_ok (task_rows ?q)" "leased_row \<in> set (task_rows ?q)" "row_status leased_row = Running"
      "row_lease leased_row = Some 65000"
    by (simp_all add: leased_table_ok)
  have quiet: "\<forall>(now, op) \<in> set (?ops @ [(64000, ClaimNext 60)]). now < (65000 :: int) \<and> \<not> owner_op (row_id leased_row) op"
    by simp
  show ?thesis
    using live_lease_is_exclusive [OF h quiet, of "\<lambda>_. []" "\<lambda>_. Inr (sample_payload [51])"] by simp
qed



lemma find_row_update:
  "distinct (map row_id rows) \<Longrightarrow> r \<in> set rows \<Longrightarrow> find_row (row_id r) rows = Some r"
  unfolding find_row_def by (rule find_key)

lemma distinct_rows: "distinct (map row_id rows) \<Longrightarrow> distinct rows"
  by (simp add: distinct_map)

lemma filter_one: "distinct xs \<Longrightarrow> x \<in> set xs \<Longrightarrow> length (filter (\<lambda>y. y = x) xs) = 1"
  by (induction xs) (auto simp: filter_empty_conv)

text \<open>A provider failure is counted, and the last attempt is final: the running task goes back to
  the queue with one attempt less while one is left, and fails for good otherwise; so a task enqueued
  for one attempt fails at its first failure.\<close>

lemma failure_is_counted:
  assumes "table_ok (task_rows q)" and "r \<in> set (task_rows q)" and "row_status r = Running"
    and "fail (row_id r) e q = (res, q')"
  shows "res = Inr () \<and> find_row (row_id r) (task_rows q') =
    Some (r\<lparr>row_status := (if row_retry_count r + 1 = row_max_retries r then Failed else Pending),
      row_lease := None, row_heartbeat := None, row_retry_count := row_retry_count r + 1, row_error := Some e\<rparr>)"
proof -
  have d: "distinct (map row_id (task_rows q))" using assms(1) by (simp add: table_ok_def)
  have found: "find_row (row_id r) (task_rows q) = Some r" by (rule find_row_update [OF d assms(2)])
  have left: "row_retry_count r < row_max_retries r"
    using assms(1-3) by (auto simp: table_ok_def list_all_iff row_ok_def)
  have only: "running_row (row_id r) s \<longleftrightarrow> s = r" if "s \<in> set (task_rows q)" for s
    using that assms(2,3) distinct_row [OF d] by (auto simp: running_row_def)
  have "filter (running_row (row_id r)) (task_rows q) = filter (\<lambda>s. s = r) (task_rows q)"
    by (rule filter_cong) (simp_all add: only)
  also have "length \<dots> = 1"
    using filter_one [OF distinct_rows [OF d] assms(2)] .
  finally have one: "length (filter (running_row (row_id r)) (task_rows q)) = 1" .
  let ?st = "if row_retry_count r + 1 = row_max_retries r then Failed else Pending"
  have st: "(if row_retry_count r + 1 \<ge> row_max_retries r then Failed else Pending) = ?st" using left by simp
  have run: "res = Inr () \<and> task_rows q' = map_where (running_row (row_id r)) (fail_row ?st e) (task_rows q)"
    using assms(4) found one
    by (auto simp: fail_def st sm_bind_def execute_update_def require_updated_def Let_def)
  have "find_row (row_id r) (map_where (running_row (row_id r)) (fail_row ?st e) (task_rows q)) = Some (fail_row ?st e r)"
    using found assms(2) only unfolding find_row_def failed.find_kept by simp
  with run show ?thesis by (simp add: fail_row_def settle_def)
qed

text \<open>A stable task id is bound once: after a successful enqueue the same request at any later time
  finds the task and changes nothing, and a request that binds the id to another payload or retry
  policy is refused and changes nothing.\<close>

lemma enqueue_binds_once:
  assumes "enqueue_with_stable_id_and_max_retries enc now i p pr n q = (Inr (sid, inserted), q')"
  shows "sid = trim i \<and> inserted = (find_row sid (task_rows q) = None) \<and>
    map_option (\<lambda>r. (row_payload r, row_max_retries r)) (find_row sid (task_rows q')) = Some (enc p, n) \<and>
    enqueue_with_stable_id_and_max_retries enc later i p pr' n q' = (Inr (sid, False), q') \<and>
    (enc p' \<noteq> enc p \<or> n' \<noteq> n \<longrightarrow>
       (\<exists>e. enqueue_with_stable_id_and_max_retries enc later i p' pr' n' q' = (Inl e, q')))"
proof -
  have found: "find_row (row_id r) (rows @ [r]) = Some r" if "find_row (row_id r) rows = None" for r rows
    using that by (induction rows) (auto simp: find_row_def split: if_splits)
  have checks: "trim i \<noteq> []" "1 \<le> n" "n \<le> 20" "validate_payload p = Inr ()" and sid: "sid = trim i"
    using assms by (auto simp: enqueue_with_stable_id_and_max_retries_def Let_def split: if_splits sum.splits option.splits)
  have bound: "\<exists>r. find_row sid (task_rows q') = Some r \<and> row_payload r = enc p \<and> row_max_retries r = n"
  proof (cases "find_row sid (task_rows q)")
    case None
    let ?r = "new_row now sid (enc p) pr n"
    have "task_rows q' = task_rows q @ [?r]"
      using assms checks None sid by (simp add: enqueue_with_stable_id_and_max_retries_def Let_def) auto
    moreover have "row_id ?r = sid" by (simp add: new_row_def)
    ultimately have "find_row sid (task_rows q') = Some ?r" using found [of ?r "task_rows q"] None by simp
    then show ?thesis by (simp add: new_row_def)
  next
    case (Some r)
    with assms checks sid show ?thesis
      by (auto simp: enqueue_with_stable_id_and_max_retries_def Let_def split: if_splits)
  qed
  have "inserted = (find_row sid (task_rows q) = None)"
    using assms checks sid
    by (auto simp: enqueue_with_stable_id_and_max_retries_def Let_def split: option.splits if_splits)
  with bound checks sid show ?thesis
    by (auto simp: enqueue_with_stable_id_and_max_retries_def Let_def split: sum.split)
qed

text \<open>A restart returns a task that was running, and so may have reached the provider, to the queue
  with its attempt uncounted, also when it was enqueued for a single attempt.\<close>

lemma restart_repeats_a_single_attempt:
  assumes "table_ok (task_rows q)" "r \<in> set (task_rows q)" "row_status r = Running" "row_max_retries r = 1"
  shows "find_row (row_id r) (task_rows (queue_step enc dec (now, Restart) q)) =
      Some (r\<lparr>row_status := Pending, row_lease := None, row_heartbeat := None\<rparr>) \<and>
    claimable now (r\<lparr>row_status := Pending, row_lease := None, row_heartbeat := None\<rparr>)"
proof -
  have d: "distinct (map row_id (task_rows q))" using assms(1) by (simp add: table_ok_def)
  have "find_row (row_id r) (map_where (\<lambda>r. row_status r = Running) (settle Pending) (task_rows q)) =
      Some (settle Pending r)"
    unfolding find_row_def settled.find_kept using find_key [OF d assms(2)] assms(3) by simp
  then show ?thesis by (simp add: settle_def claimable_def)
qed

text \<open>A session purge removes exactly the tasks of the session, or nothing when a task cannot be read.\<close>

lemma audit_rows_ids:
  "audit_rows decode sid rows = Inr ids \<Longrightarrow>
     set ids = row_id ` {r \<in> set rows. \<exists>p. decode (row_payload r) = Inr p \<and> payload_session_id p = sid}"
  by (induction rows arbitrary: ids) (auto split: sum.splits if_splits)

lemma set_insert_by_id: "set (foldr insert_by_id rows []) = set rows"
proof -
  have "set (insert_by_id r rs) = insert r (set rs)" for r rs
    by (induction rs) auto
  then show ?thesis by (induction rows) simp_all
qed

lemma purge_session_exact:
  assumes "table_ok (task_rows q)" and "purge_session decode sid q = (res, q')"
  shows "case res of Inl e \<Rightarrow> q' = q
    | Inr n \<Rightarrow> task_rows q' = filter (\<lambda>r. case decode (row_payload r) of
          Inl _ \<Rightarrow> True | Inr p \<Rightarrow> payload_session_id p \<noteq> sid) (task_rows q)"
proof (cases "matching_task_ids decode sid (task_rows q)")
  case (Inl e)
  with assms(2) show ?thesis by (auto simp: purge_session_def)
next
  case (Inr ids)
  have d: "distinct (map row_id (task_rows q))" using assms(1) by (simp add: table_ok_def)
  have ids: "set ids = row_id ` {r \<in> set (task_rows q). \<exists>p. decode (row_payload r) = Inr p \<and> payload_session_id p = sid}"
    using audit_rows_ids [OF Inr [unfolded matching_task_ids_def]] by (simp add: set_insert_by_id)
  have mine: "row_id r \<in> set ids \<longleftrightarrow> (\<exists>p. decode (row_payload r) = Inr p \<and> payload_session_id p = sid)"
    if r: "r \<in> set (task_rows q)" for r
  proof
    assume "row_id r \<in> set ids"
    then obtain s where s: "s \<in> set (task_rows q)" "row_id r = row_id s"
        "\<exists>p. decode (row_payload s) = Inr p \<and> payload_session_id p = sid"
      unfolding ids by blast
    from distinct_row [OF d r s(1,2)] s(3) show "\<exists>p. decode (row_payload r) = Inr p \<and> payload_session_id p = sid"
      by simp
  next
    assume "\<exists>p. decode (row_payload r) = Inr p \<and> payload_session_id p = sid"
    with r show "row_id r \<in> set ids" unfolding ids by blast
  qed
  have "row_id r \<notin> set ids \<longleftrightarrow> (case decode (row_payload r) of Inl _ \<Rightarrow> True | Inr p \<Rightarrow> payload_session_id p \<noteq> sid)"
    if "r \<in> set (task_rows q)" for r
    using mine [OF that] by (cases "decode (row_payload r)") simp_all
  then have "filter (\<lambda>r. row_id r \<notin> set ids) (task_rows q) =
      filter (\<lambda>r. case decode (row_payload r) of Inl _ \<Rightarrow> True | Inr p \<Rightarrow> payload_session_id p \<noteq> sid) (task_rows q)"
    by (rule filter_cong [OF refl])
  with Inr assms(2) show ?thesis by (auto simp: purge_session_def fold_filter_rows)
qed

end
