(* ===== verification/Transcript_Projection.thy ===== *)
theory Transcript_Projection
  imports Prelude "HOL-Library.AList" "HOL-Library.Sublist"
begin

text \<open>
  Crate \<open>vt-store\<close>, \<open>transcript_projection.rs\<close>: every write to a transcript document, over the
  lanes of \<open>document_schema.rs\<close>. The document is the sequence of its utterance blocks, each with the
  four fields its schema requires; a lane table is an association list. \<open>accepts\<close> stands for
  \<open>Mirror::set_state\<close>: given the new sequence it commits it, or refuses with a message and leaves
  the document as it was.
\<close>

section \<open>Blocks\<close>

definition SUPPORTED_LANES :: "ustring list" where
  "SUPPORTED_LANES = map lit [''en'', ''th'', ''ja'', ''ko'', ''fr'', ''es'', ''de'', ''zh'']"

definition USER_OWNER :: ustring where
  "USER_OWNER = lit ''user''"

type_synonym lanes = "(ustring \<times> ustring) list"

record block =
  block_id :: ustring
  block_owner :: ustring
  block_text :: ustring
  block_lanes :: lanes

datatype projection_error =
    LaneOutOfScope ustring
  | BlockNotFound ustring
  | EmptyBlockId
  | SessionSliceInterleaved ustring
  | MirrorError ustring

text \<open>The fields of \<open>MachineBlockWrite\<close> are those of a block.\<close>

record machine_upsert =
  upsert_write :: block
  frozen_lanes :: "ustring list"
  insert_before :: "ustring option"

type_synonym accepts = "block list \<Rightarrow> ustring option"
type_synonym 'a projection = "(block list, projection_error, 'a) sm"

fun validate_lanes :: "ustring list \<Rightarrow> projection_error + unit" where
  "validate_lanes [] = Inr ()"
| "validate_lanes (lane # rest) =
     (if lane \<notin> set SUPPORTED_LANES then Inl (LaneOutOfScope lane) else validate_lanes rest)"

definition commit :: "accepts \<Rightarrow> block list \<Rightarrow> unit projection" where
  "commit accepts items = (\<lambda>doc.
     case accepts items of Some e \<Rightarrow> (Inl (MirrorError e), doc) | None \<Rightarrow> (Inr (), items))"

definition find_block :: "ustring \<Rightarrow> block list \<Rightarrow> block option" where
  "find_block i items = find (\<lambda>b. block_id b = i) items"

text \<open>\<open>items.iter().position(..)\<close> of the block with an id.\<close>

fun position :: "ustring \<Rightarrow> block list \<Rightarrow> nat option" where
  "position i [] = None"
| "position i (b # bs) = (if block_id b = i then Some 0 else map_option Suc (position i bs))"

text \<open>\<open>Vec::insert\<close>.\<close>

definition insert_at :: "nat \<Rightarrow> 'a \<Rightarrow> 'a list \<Rightarrow> 'a list" where
  "insert_at n x xs = take n xs @ x # drop n xs"

text \<open>The change \<open>iter_mut().find(..)\<close> makes: the first block with the id.\<close>

fun change_first :: "ustring \<Rightarrow> (block \<Rightarrow> block) \<Rightarrow> block list \<Rightarrow> block list" where
  "change_first i f [] = []"
| "change_first i f (b # bs) = (if block_id b = i then f b # bs else b # change_first i f bs)"

section \<open>Machine writes\<close>

fun write_lanes :: "ustring list \<Rightarrow> lanes \<Rightarrow> lanes \<Rightarrow> lanes" where
  "write_lanes frozen [] lanes = lanes"
| "write_lanes frozen ((lane, txt) # rest) lanes =
     write_lanes frozen rest (if lane \<in> set frozen then lanes else AList.update lane txt lanes)"

definition machine_update :: "machine_upsert \<Rightarrow> block \<Rightarrow> block" where
  "machine_update u b =
     b\<lparr>block_text := block_text (upsert_write u),
       block_lanes := write_lanes (frozen_lanes u) (block_lanes (upsert_write u)) (block_lanes b)\<rparr>"

definition apply_machine_upsert :: "machine_upsert \<Rightarrow> block list \<Rightarrow> projection_error + block list" where
  "apply_machine_upsert u items =
     (let write = upsert_write u
      in case find_block (block_id write) items of
           Some _ \<Rightarrow> Inr (change_first (block_id write) (machine_update u) items)
         | None \<Rightarrow>
             (case insert_before u of
                None \<Rightarrow> Inr (items @ [write])
              | Some anchor \<Rightarrow>
                  (case position anchor items of
                     None \<Rightarrow> Inl (BlockNotFound anchor)
                   | Some n \<Rightarrow> Inr (insert_at n write items))))"

fun apply_machine_upserts :: "machine_upsert list \<Rightarrow> block list \<Rightarrow> projection_error + block list" where
  "apply_machine_upserts [] items = Inr items"
| "apply_machine_upserts (u # us) items =
     (case apply_machine_upsert u items of Inl e \<Rightarrow> Inl e | Inr items' \<Rightarrow> apply_machine_upserts us items')"

fun validate_upserts :: "machine_upsert list \<Rightarrow> projection_error + unit" where
  "validate_upserts [] = Inr ()"
| "validate_upserts (u # us) =
     (if block_id (upsert_write u) = [] then Inl EmptyBlockId
      else case validate_lanes (map fst (block_lanes (upsert_write u))) of
          Inl e \<Rightarrow> Inl e
        | Inr _ \<Rightarrow> validate_upserts us)"

definition machine_upsert_blocks :: "accepts \<Rightarrow> machine_upsert list \<Rightarrow> unit projection" where
  "machine_upsert_blocks accepts upserts = (\<lambda>doc.
     if upserts = [] then (Inr (), doc)
     else case validate_upserts upserts of
         Inl e \<Rightarrow> (Inl e, doc)
       | Inr _ \<Rightarrow>
           (case apply_machine_upserts upserts doc of
              Inl e \<Rightarrow> (Inl e, doc)
            | Inr items \<Rightarrow> commit accepts items doc))"

definition machine_upsert_block ::
    "accepts \<Rightarrow> block \<Rightarrow> ustring list \<Rightarrow> ustring option \<Rightarrow> unit projection" where
  "machine_upsert_block accepts write frozen before =
     machine_upsert_blocks accepts
       [\<lparr>upsert_write = write, frozen_lanes = frozen, insert_before = before\<rparr>]"

section \<open>User edits\<close>

definition mutate_block :: "accepts \<Rightarrow> ustring \<Rightarrow> (block \<Rightarrow> block) \<Rightarrow> unit projection" where
  "mutate_block accepts i f = (\<lambda>doc.
     case find_block i doc of
       None \<Rightarrow> (Inl (BlockNotFound i), doc)
     | Some _ \<Rightarrow> commit accepts (change_first i f doc) doc)"

definition user_replace_lane :: "accepts \<Rightarrow> ustring \<Rightarrow> ustring \<Rightarrow> ustring \<Rightarrow> unit projection" where
  "user_replace_lane accepts i lane txt = (\<lambda>doc.
     case validate_lanes [lane] of
       Inl e \<Rightarrow> (Inl e, doc)
     | Inr _ \<Rightarrow> mutate_block accepts i (\<lambda>b. b\<lparr>block_lanes := AList.update lane txt (block_lanes b)\<rparr>) doc)"

definition user_replace_text :: "accepts \<Rightarrow> ustring \<Rightarrow> ustring \<Rightarrow> unit projection" where
  "user_replace_text accepts i txt = mutate_block accepts i (\<lambda>b. b\<lparr>block_text := txt\<rparr>)"

definition insert_annotation :: "accepts \<Rightarrow> nat \<Rightarrow> ustring \<Rightarrow> ustring \<Rightarrow> unit projection" where
  "insert_annotation accepts index i txt = (\<lambda>doc.
     if i = [] then (Inl EmptyBlockId, doc)
     else commit accepts
       (insert_at (min index (length doc))
         \<lparr>block_id = i, block_owner = USER_OWNER, block_text = txt, block_lanes = []\<rparr> doc) doc)"

section \<open>Purges and moves\<close>

definition capture_owner :: "ustring \<Rightarrow> ustring" where
  "capture_owner session_id = lit ''capture:'' @ session_id"

definition purge_session_blocks :: "accepts \<Rightarrow> ustring \<Rightarrow> nat projection" where
  "purge_session_blocks accepts session_id = (\<lambda>doc.
     let items = filter (\<lambda>b. block_owner b \<noteq> capture_owner session_id) doc;
         removed = length doc - length items
     in if removed = 0 then (Inr 0, doc)
        else sm_then (commit accepts items) (sm_return removed) doc)"

text \<open>The indices of the blocks of an owner, ascending.\<close>

definition owned_indices :: "ustring \<Rightarrow> block list \<Rightarrow> nat list" where
  "owned_indices owner items = filter (\<lambda>n. block_owner (items ! n) = owner) [0..<length items]"

definition session_slice_range :: "block list \<Rightarrow> ustring \<Rightarrow> projection_error + (nat \<times> nat) option" where
  "session_slice_range items session_id =
     (let owner = capture_owner session_id
      in case owned_indices owner items of
           [] \<Rightarrow> Inr None
         | start # rest \<Rightarrow>
             (let last_capture = (if rest = [] then start else last rest)
              in if list_ex (\<lambda>b. block_owner b \<noteq> owner \<and> block_owner b \<noteq> USER_OWNER)
                      (take (Suc last_capture - start) (drop start items))
                 then Inl (SessionSliceInterleaved session_id)
                 else Inr (Some (start, Suc last_capture +
                        length (takeWhile (\<lambda>b. block_owner b = USER_OWNER) (drop (Suc last_capture) items))))))"

definition session_slice :: "ustring \<Rightarrow> block list projection" where
  "session_slice session_id = (\<lambda>doc.
     (case session_slice_range doc session_id of
        Inl e \<Rightarrow> Inl e
      | Inr None \<Rightarrow> Inr []
      | Inr (Some (a, b)) \<Rightarrow> Inr (take (b - a) (drop a doc)), doc))"

text \<open>The loop of \<open>splice_session_slice\<close> with its \<open>cursor\<close> and \<open>inserted\<close>.\<close>

fun splice_loop :: "block list \<Rightarrow> nat \<Rightarrow> nat \<Rightarrow> block list \<Rightarrow> nat \<times> block list" where
  "splice_loop [] cursor inserted items = (inserted, items)"
| "splice_loop (b # bs) cursor inserted items =
     (if list_ex (\<lambda>c. block_id c = block_id b) items then splice_loop bs cursor inserted items
      else splice_loop bs (Suc cursor) (Suc inserted) (insert_at cursor b items))"

definition validate_all_lanes :: "block list \<Rightarrow> projection_error + unit" where
  "validate_all_lanes blocks = validate_lanes (concat (map (\<lambda>b. map fst (block_lanes b)) blocks))"

definition splice_session_slice :: "accepts \<Rightarrow> block list \<Rightarrow> ustring option \<Rightarrow> nat projection" where
  "splice_session_slice accepts blocks before = (\<lambda>doc.
     if list_ex (\<lambda>b. block_id b = []) blocks then (Inl EmptyBlockId, doc)
     else case validate_all_lanes blocks of
         Inl e \<Rightarrow> (Inl e, doc)
       | Inr _ \<Rightarrow>
           (case (case before of None \<Rightarrow> Inr (length doc)
                  | Some anchor \<Rightarrow> (case position anchor doc of
                        None \<Rightarrow> Inl (BlockNotFound anchor) | Some n \<Rightarrow> Inr n)) of
              Inl e \<Rightarrow> (Inl e, doc)
            | Inr cursor \<Rightarrow>
                (let (inserted, items) = splice_loop blocks cursor 0 doc
                 in if inserted = 0 then (Inr 0, doc)
                    else sm_then (commit accepts items) (sm_return inserted) doc)))"

definition remove_session_slice :: "accepts \<Rightarrow> ustring \<Rightarrow> nat projection" where
  "remove_session_slice accepts session_id = (\<lambda>doc.
     case session_slice_range doc session_id of
       Inl e \<Rightarrow> (Inl e, doc)
     | Inr None \<Rightarrow> (Inr 0, doc)
     | Inr (Some (a, b)) \<Rightarrow>
         sm_then (commit accepts (take a doc @ drop b doc)) (sm_return (b - a)) doc)"

section \<open>The machine yields to the user\<close>

interpretation machine: keyed_update block_id "machine_update u" for u
  by unfold_locales (simp add: machine_update_def)

abbreviation ids :: "block list \<Rightarrow> ustring list" where
  "ids items \<equiv> map block_id items"

lemma change_first_where: "distinct (ids items) \<Longrightarrow> change_first i f items = map_where (\<lambda>b. block_id b = i) f items"
proof (induction items)
  case (Cons b items)
  have "map_where (\<lambda>b. block_id b = i) f items = items" if "block_id b = i"
    unfolding map_where_def using Cons.prems that by (intro map_idI) (auto simp: image_iff)
  with Cons show ?case by (simp add: map_where_def)
qed (simp add: map_where_def)

lemma insert_at_props:
  "set (insert_at n x xs) = insert x (set xs)" "subseq xs (insert_at n x xs)"
  "map f (insert_at n x xs) = insert_at n (f x) (map f xs)"
proof -
  have "set xs = set (take n xs) \<union> set (drop n xs)" by (metis append_take_drop_id set_append)
  then show "set (insert_at n x xs) = insert x (set xs)" by (auto simp: insert_at_def)
  have "subseq (take n xs @ drop n xs) (take n xs @ x # drop n xs)"
    by (rule list_emb_append_mono) (auto intro: list_emb.list_emb_Cons)
  then show "subseq xs (insert_at n x xs)" by (simp add: insert_at_def)
  show "map f (insert_at n x xs) = insert_at n (f x) (map f xs)"
    by (simp add: insert_at_def take_map drop_map)
qed

lemma distinct_insert_at: "distinct xs \<Longrightarrow> x \<notin> set xs \<Longrightarrow> distinct (insert_at n x xs)"
  by (auto simp: insert_at_def distinct_append dest: in_set_takeD in_set_dropD set_take_disj_set_drop_if_distinct)

text \<open>What a batch makes of one block: its own writes, in their order.\<close>

definition machine_result :: "machine_upsert list \<Rightarrow> block \<Rightarrow> block" where
  "machine_result us b =
     fold (\<lambda>u b. if block_id b = block_id (upsert_write u) then machine_update u b else b) us b"

lemma apply_machine_upsert_spec:
  assumes "apply_machine_upsert u items = Inr items'" and "distinct (ids items)"
  shows "distinct (ids items') \<and> subseq (ids items) (ids items') \<and>
    (\<forall>b \<in> set items. machine_result [u] b \<in> set items')"
proof (cases "find_block (block_id (upsert_write u)) items")
  case (Some b)
  then have "items' = map_where (\<lambda>b. block_id b = block_id (upsert_write u)) (machine_update u) items"
    using assms by (simp add: apply_machine_upsert_def Let_def change_first_where)
  moreover have "machine_result [u] b \<in> set (map_where (\<lambda>b. block_id b = block_id (upsert_write u)) (machine_update u) items)"
    if "b \<in> set items" for b
    using that by (auto simp: machine_result_def map_where_def)
  ultimately show ?thesis using assms(2) by (simp add: machine.keys_kept)
next
  case None
  let ?w = "upsert_write u"
  have new: "block_id ?w \<notin> set (ids items)" using None find_key_None unfolding find_block_def by metis
  obtain n where "items' = insert_at n ?w items"
    using assms(1) None
    by (auto simp: apply_machine_upsert_def Let_def insert_at_def split: option.splits intro: that [of "length items"])
  moreover have "machine_result [u] b = b" if "b \<in> set items" for b
    using that new by (auto simp: machine_result_def) (metis image_eqI)
  ultimately show ?thesis
    using assms(2) new by (auto simp: insert_at_props intro: distinct_insert_at)
qed

lemma machine_result_Cons: "machine_result (u # us) b = machine_result us (machine_result [u] b)"
  by (simp add: machine_result_def)

lemma apply_machine_upserts_spec:
  assumes "apply_machine_upserts us items = Inr items'" and "distinct (ids items)"
  shows "distinct (ids items') \<and> subseq (ids items) (ids items') \<and>
    (\<forall>b \<in> set items. machine_result us b \<in> set items')"
  using assms
proof (induction us arbitrary: items)
  case Nil
  then show ?case by (simp add: machine_result_def)
next
  case (Cons u us)
  then obtain mid where mid: "apply_machine_upsert u items = Inr mid" "apply_machine_upserts us mid = Inr items'"
    by (auto split: sum.splits)
  from apply_machine_upsert_spec [OF mid(1) Cons.prems(2)] Cons.IH [OF mid(2)]
  show ?case by (auto simp: machine_result_Cons [of u us] intro: subseq_order.trans)
qed

lemma write_lanes_kept:
  "l \<in> set frozen \<Longrightarrow> map_of (write_lanes frozen ws ls) l = map_of ls l"
  "map_of ls l \<noteq> None \<Longrightarrow> map_of (write_lanes frozen ws ls) l \<noteq> None"
  by (induction frozen ws ls rule: write_lanes.induct) (auto simp: update_conv' split: if_splits)

lemma machine_update_kept:
  "block_id (machine_update u b) = block_id b" "block_owner (machine_update u b) = block_owner b"
  "map_of (block_lanes b) l \<noteq> None \<Longrightarrow> map_of (block_lanes (machine_update u b)) l \<noteq> None"
  "l \<in> set (frozen_lanes u) \<Longrightarrow> map_of (block_lanes (machine_update u b)) l = map_of (block_lanes b) l"
  by (simp_all add: machine_update_def write_lanes_kept)

lemma machine_result_kept:
  "block_id (machine_result us b) = block_id b \<and> block_owner (machine_result us b) = block_owner b \<and>
   (map_of (block_lanes b) l \<noteq> None \<longrightarrow> map_of (block_lanes (machine_result us b)) l \<noteq> None) \<and>
   ((\<forall>u \<in> set us. block_id (upsert_write u) = block_id b \<longrightarrow> l \<in> set (frozen_lanes u)) \<longrightarrow>
      map_of (block_lanes (machine_result us b)) l = map_of (block_lanes b) l)"
proof (induction us arbitrary: b)
  case Nil
  show ?case by (simp add: machine_result_def)
next
  case (Cons u us)
  let ?c = "machine_result [u] b"
  have c: "block_id ?c = block_id b" "block_owner ?c = block_owner b"
      "map_of (block_lanes b) l \<noteq> None \<Longrightarrow> map_of (block_lanes ?c) l \<noteq> None"
      "(block_id (upsert_write u) = block_id b \<Longrightarrow> l \<in> set (frozen_lanes u)) \<Longrightarrow>
        map_of (block_lanes ?c) l = map_of (block_lanes b) l"
    by (simp_all add: machine_result_def machine_update_kept del: not_None_eq)
  from Cons.IH [of ?c] c show ?case unfolding machine_result_Cons [of u us] by auto
qed


definition sample_block :: "ustring \<Rightarrow> ustring \<Rightarrow> block" where
  "sample_block i owner = \<lparr>block_id = i, block_owner = owner, block_text = [1], block_lanes = [(lit ''en'', [2])]\<rparr>"


section \<open>A session's slice\<close>

lemma owned_indices_props:
  "set (owned_indices owner items) = {n. n < length items \<and> block_owner (items ! n) = owner}"
  "sorted_wrt (<) (owned_indices owner items)"
  by (auto simp: owned_indices_def intro: sorted_wrt_filter)

lemma sorted_wrt_hd_last:
  assumes "sorted_wrt (<) (n # ns :: nat list)" and "m \<in> set (n # ns)"
  shows "n \<le> m \<and> m \<le> (if ns = [] then n else last ns)"
proof -
  have "m \<le> last ns" if "m \<in> set ns" "sorted_wrt (<) ns" for ns
    using that by (induction ns) (auto split: if_splits intro: less_imp_le)
  with assms show ?thesis by (cases ns) (auto intro: less_imp_le le_trans)
qed

lemma takeWhile_stop: "length (takeWhile p xs) < length xs \<Longrightarrow> \<not> p (xs ! length (takeWhile p xs))"
  by (rule nth_length_takeWhile)

lemma session_slice_range_spec:
  assumes "session_slice_range doc sid = Inr slice"
  shows "case slice of
      None \<Rightarrow> \<forall>b \<in> set doc. block_owner b \<noteq> capture_owner sid
    | Some (a, b) \<Rightarrow> a < b \<and> b \<le> length doc \<and> block_owner (doc ! a) = capture_owner sid \<and>
        (\<forall>n < length doc. block_owner (doc ! n) = capture_owner sid \<longrightarrow> a \<le> n \<and> n < b) \<and>
        (\<forall>n \<in> {a..<b}. block_owner (doc ! n) \<in> {capture_owner sid, USER_OWNER}) \<and>
        (b < length doc \<longrightarrow> block_owner (doc ! b) \<noteq> USER_OWNER)"
proof (cases "owned_indices (capture_owner sid) doc")
  case Nil
  then have "{n. n < length doc \<and> block_owner (doc ! n) = capture_owner sid} = {}"
    using owned_indices_props(1) [of "capture_owner sid" doc] by simp
  with Nil assms show ?thesis by (auto simp: session_slice_range_def in_set_conv_nth)
next
  case (Cons a rest)
  let ?last = "if rest = [] then a else last rest"
  let ?tail = "takeWhile (\<lambda>b. block_owner b = USER_OWNER) (drop (Suc ?last) doc)"
  let ?b = "Suc ?last + length ?tail"
  have clean: "\<not> list_ex (\<lambda>b. block_owner b \<noteq> capture_owner sid \<and> block_owner b \<noteq> USER_OWNER)
      (take (Suc ?last - a) (drop a doc))" and slice: "slice = Some (a, ?b)"
    using assms Cons by (auto simp: session_slice_range_def Let_def split: if_splits)
  have mem: "n \<in> set (a # rest) \<longleftrightarrow> n < length doc \<and> block_owner (doc ! n) = capture_owner sid" for n
    using owned_indices_props(1) [of "capture_owner sid" doc] Cons by auto
  have between: "n < length doc \<and> block_owner (doc ! n) = capture_owner sid \<Longrightarrow> a \<le> n \<and> n \<le> ?last" for n
    using sorted_wrt_hd_last [of a rest n] owned_indices_props(2) [of "capture_owner sid" doc] Cons mem by simp
  have first: "a < length doc" "block_owner (doc ! a) = capture_owner sid" using mem [of a] by simp_all
  have "?last \<in> set (a # rest)" by simp
  then have l: "?last < length doc" "block_owner (doc ! ?last) = capture_owner sid" using mem by blast+
  have al: "a \<le> ?last" using between first by blast
  have tail_len: "length ?tail \<le> length doc - Suc ?last"
    using length_takeWhile_le [of _ "drop (Suc ?last) doc"] by simp
  have inside: "block_owner (doc ! n) \<in> {capture_owner sid, USER_OWNER}" if n: "a \<le> n" "n < ?b" for n
  proof (cases "n \<le> ?last")
    case True
    then have "doc ! n \<in> set (take (Suc ?last - a) (drop a doc))"
      using n l by (auto simp: in_set_conv_nth intro!: exI [of _ "n - a"])
    with clean show ?thesis by (auto simp: list_ex_iff)
  next
    case False
    let ?k = "n - Suc ?last"
    have k: "?k < length ?tail" "n = Suc ?last + ?k" using False n by linarith+
    then have "?tail ! ?k = doc ! n"
      using takeWhile_nth [OF k(1)] tail_len l by (metis Suc_leI nth_drop)
    moreover have "?tail ! ?k \<in> set ?tail" using k(1) by (rule nth_mem)
    ultimately show ?thesis by (auto dest: set_takeWhileD)
  qed
  have stop: "block_owner (doc ! ?b) \<noteq> USER_OWNER" if "?b < length doc"
  proof -
    have "length ?tail < length (drop (Suc ?last) doc)" using that by simp
    from takeWhile_stop [OF this] show ?thesis using that by (simp add: nth_drop)
  qed
  have b_le: "?b \<le> length doc" using tail_len l by linarith
  have own: "\<forall>n < length doc. block_owner (doc ! n) = capture_owner sid \<longrightarrow> a \<le> n \<and> n < ?b"
    using between by (metis le_imp_less_Suc trans_less_add1)
  show ?thesis
    unfolding slice option.case prod.case
    using first b_le own inside stop al by (intro conjI) (simp_all add: trans_less_add1 le_imp_less_Suc)
qed

lemma session_slice_range_None:
  "session_slice_range doc sid = Inr None \<Longrightarrow> \<forall>b \<in> set doc. block_owner b \<noteq> capture_owner sid"
  using session_slice_range_spec by fastforce

lemma session_slice_range_Some:
  assumes "session_slice_range doc sid = Inr (Some (a, b))"
  shows "a < b" "b \<le> length doc"
    "n < length doc \<Longrightarrow> block_owner (doc ! n) = capture_owner sid \<Longrightarrow> a \<le> n \<and> n < b"
  using session_slice_range_spec [OF assms] by simp_all

text \<open>C27. The slice of a session is what moves with it: it starts at a captured block of the session,
  holds every captured block of it and otherwise only annotations, ends where the annotations that
  trail it end, and there is none exactly when the session captured nothing here. A slice that another
  capture interrupts is refused.\<close>

theorem session_slice_is_whole:
  assumes "session_slice_range doc sid = Inr slice"
  shows "case slice of
      None \<Rightarrow> \<forall>b \<in> set doc. block_owner b \<noteq> capture_owner sid
    | Some (a, b) \<Rightarrow> a < b \<and> b \<le> length doc \<and> block_owner (doc ! a) = capture_owner sid \<and>
        (\<forall>n < length doc. block_owner (doc ! n) = capture_owner sid \<longrightarrow> a \<le> n \<and> n < b) \<and>
        (\<forall>n \<in> {a..<b}. block_owner (doc ! n) \<in> {capture_owner sid, USER_OWNER}) \<and>
        (b < length doc \<longrightarrow> block_owner (doc ! b) \<noteq> USER_OWNER)"
  by (rule session_slice_range_spec [OF assms])

definition sample_doc :: "block list" where
  "sample_doc = [sample_block [1] USER_OWNER, sample_block [2] (capture_owner [9]),
     sample_block [3] USER_OWNER, sample_block [4] (capture_owner [8])]"

lemma sample_slice: "session_slice_range sample_doc [9] = Inr (Some (1, 3))"
  by (simp add: session_slice_range_def sample_doc_def sample_block_def owned_indices_def capture_owner_def
      USER_OWNER_def lit_simps upt_rec Let_def)

theorem session_slice_is_whole_witness:
  "block_owner (sample_doc ! 1) = capture_owner [9] \<and>
   block_owner (sample_doc ! 2) \<in> {capture_owner [9], USER_OWNER} \<and> block_owner (sample_doc ! 3) \<noteq> USER_OWNER"
proof -
  have "3 < length sample_doc" by (simp add: sample_doc_def)
  moreover have "(2::nat) \<in> {1..<3}" by simp
  ultimately show ?thesis using session_slice_is_whole [OF sample_slice] by simp
qed

section \<open>Moving a slice\<close>

definition new_blocks :: "block list \<Rightarrow> block list \<Rightarrow> block list" where
  "new_blocks blocks items = filter (\<lambda>b. block_id b \<notin> set (ids items)) blocks"

lemma list_ex_id: "list_ex (\<lambda>c. block_id c = i) items \<longleftrightarrow> i \<in> set (ids items)"
  by (auto simp: list_ex_iff)

lemma splice_loop_spec:
  assumes "distinct (ids blocks)" and "cursor \<le> length items"
  shows "splice_loop blocks cursor inserted items =
    (inserted + length (new_blocks blocks items),
     take cursor items @ new_blocks blocks items @ drop cursor items)"
  using assms
proof (induction blocks arbitrary: cursor inserted items)
  case Nil
  then show ?case by (simp add: new_blocks_def)
next
  case (Cons b blocks)
  show ?case
  proof (cases "block_id b \<in> set (ids items)")
    case True
    with Cons show ?thesis by (simp add: list_ex_id new_blocks_def)
  next
    case False
    let ?items = "insert_at cursor b items"
    have same: "new_blocks blocks ?items = new_blocks blocks items"
      unfolding new_blocks_def using Cons.prems(1) by (intro filter_cong) (auto simp: insert_at_props image_iff)
    have cut: "take (Suc cursor) ?items = take cursor items @ [b]" "drop (Suc cursor) ?items = drop cursor items"
      using Cons.prems(2) by (simp_all add: insert_at_def min_absorb2)
    have "Suc cursor \<le> length ?items" using Cons.prems(2) by (simp add: insert_at_def)
    with Cons.IH [of "Suc cursor" ?items "Suc inserted"] Cons.prems(1)
    have "splice_loop blocks (Suc cursor) (Suc inserted) ?items =
        (Suc inserted + length (new_blocks blocks items), (take cursor items @ [b]) @ new_blocks blocks items @ drop cursor items)"
      by (simp only: same cut) simp
    with False show ?thesis by (simp add: list_ex_id) (simp add: new_blocks_def)
  qed
qed

lemma position_in: "position i items \<noteq> None \<longleftrightarrow> i \<in> set (ids items)"
  by (induction items) auto

lemma position_le: "position i items = Some n \<Longrightarrow> n \<le> length items"
  by (induction items arbitrary: n) (auto split: if_splits)

text \<open>C28. Moving a slice into a document converges: the blocks that were not there arrive together, in
  their order, at the place asked for; everything else stays as it was; and feeding the same slice
  again, as a replay after a crash does, changes nothing.\<close>

theorem splice_converges:
  assumes "distinct (ids blocks)" and "splice_session_slice accepts blocks before doc = (Inr n, doc')"
  shows "n = length (new_blocks blocks doc) \<and>
    (\<exists>pre post. doc = pre @ post \<and> doc' = pre @ new_blocks blocks doc @ post) \<and>
    splice_session_slice accepts blocks before doc' = (Inr 0, doc')"
proof -
  have named: "\<not> list_ex (\<lambda>b. block_id b = []) blocks" and lanes: "validate_all_lanes blocks = Inr ()"
    using assms(2) by (auto simp: splice_session_slice_def split: if_splits sum.splits)
  let ?start = "\<lambda>doc. case before of None \<Rightarrow> Inr (length doc)
      | Some anchor \<Rightarrow> (case position anchor doc of None \<Rightarrow> Inl (BlockNotFound anchor) | Some n \<Rightarrow> Inr n)"
  obtain c where c: "?start doc = Inr c"
    using assms(2) named lanes by (cases "?start doc") (auto simp: splice_session_slice_def)
  have le: "c \<le> length doc" using c by (auto split: option.splits dest: position_le)
  have "n = length (new_blocks blocks doc) \<and> doc' = take c doc @ new_blocks blocks doc @ drop c doc"
    using assms(2) named lanes c splice_loop_spec [OF assms(1) le, of 0]
    by (auto simp: splice_session_slice_def commit_def sm_then_def sm_bind_def sm_return_def
        split: if_splits option.splits)
  then have n: "n = length (new_blocks blocks doc)" and doc': "doc' = take c doc @ new_blocks blocks doc @ drop c doc"
    by simp_all
  have "set doc' = set (take c doc @ drop c doc) \<union> set (new_blocks blocks doc)"
    unfolding doc' set_append by blast
  then have members: "set doc' = set doc \<union> set (new_blocks blocks doc)" by (simp only: append_take_drop_id)
  then have "set (ids doc') = set (ids doc) \<union> set (ids (new_blocks blocks doc))" by (simp add: image_Un)
  then have "\<forall>b \<in> set blocks. block_id b \<in> set (ids doc')" by (auto simp: new_blocks_def)
  then have none: "new_blocks blocks doc' = []" by (simp add: new_blocks_def filter_empty_conv)
  have "\<exists>c'. ?start doc' = Inr c' \<and> c' \<le> length doc'"
  proof (cases before)
    case (Some anchor)
    with c have "anchor \<in> set (ids doc)" using position_in [of anchor doc] by (auto split: option.splits)
    then have "position anchor doc' \<noteq> None" using members position_in by auto
    then obtain k where "position anchor doc' = Some k" by blast
    with Some show ?thesis using position_le by fastforce
  qed simp
  then obtain c' where "?start doc' = Inr c'" "c' \<le> length doc'" by blast
  then have "splice_session_slice accepts blocks before doc' = (Inr 0, doc')"
    using named lanes splice_loop_spec [OF assms(1), of c' doc' 0] none by (simp add: splice_session_slice_def)
  with n doc' show ?thesis by (metis append_take_drop_id)
qed

theorem splice_converges_witness:
  "splice_session_slice (\<lambda>_. None) [sample_block [5] [8]] (Some [3])
     (snd (splice_session_slice (\<lambda>_. None) [sample_block [5] [8]] (Some [3]) sample_doc)) =
   (Inr 0, snd (splice_session_slice (\<lambda>_. None) [sample_block [5] [8]] (Some [3]) sample_doc))"
proof -
  let ?r = "splice_session_slice (\<lambda>_. None) [sample_block [5] [8]] (Some [3]) sample_doc"
  have d: "distinct (ids [sample_block [5] [8]])" by simp
  have "fst ?r = Inr (Suc 0)"
    by (simp add: splice_session_slice_def sample_doc_def sample_block_def validate_all_lanes_def
        SUPPORTED_LANES_def commit_def sm_basic_defs)
  then have "?r = (Inr (Suc 0), snd ?r)" by (metis prod.collapse)
  from splice_converges [OF d this] show ?thesis by blast
qed

text \<open>Clearing the source of a move removes exactly the slice and converges: what stays is the rest
  of the document in its order, none of the session's captures among it, and clearing again is a no-op.\<close>

lemma remove_slice_exact:
  assumes "remove_session_slice accepts sid doc = (Inr n, doc')" and "session_slice sid doc = (Inr moved, d)"
  shows "length moved = n \<and> (\<exists>pre post. doc = pre @ moved @ post \<and> doc' = pre @ post) \<and>
    (\<forall>b \<in> set doc'. block_owner b \<noteq> capture_owner sid) \<and>
    remove_session_slice accepts sid doc' = (Inr 0, doc')"
proof -
  obtain slice where range: "session_slice_range doc sid = Inr slice"
    using assms(1) by (auto simp: remove_session_slice_def split: sum.splits)
  have gone: "remove_session_slice accepts sid items = (Inr 0, items)"
    if "\<forall>b \<in> set items. block_owner b \<noteq> capture_owner sid" for items
  proof -
    have "owned_indices (capture_owner sid) items = []"
      using that by (auto simp: owned_indices_def filter_empty_conv)
    then show ?thesis by (simp add: remove_session_slice_def session_slice_range_def)
  qed
  show ?thesis
  proof (cases slice)
    case None
    have "\<forall>b \<in> set doc. block_owner b \<noteq> capture_owner sid"
      using session_slice_range_None [OF range [unfolded None]] .
    moreover have "moved = []" "n = 0" "doc' = doc"
      using None range assms by (auto simp: remove_session_slice_def session_slice_def)
    ultimately show ?thesis using gone [of doc] by (metis append_Nil length_0_conv)
  next
    case (Some ab)
    obtain a b where ab: "ab = (a, b)" by (cases ab)
    note slice = session_slice_range_Some [OF range [unfolded Some ab]]
    have m: "moved = take (b - a) (drop a doc)" using range Some ab assms(2) by (auto simp: session_slice_def)
    have doc': "doc' = take a doc @ drop b doc" and n: "n = b - a"
      using range Some ab assms(1)
      by (auto simp: remove_session_slice_def commit_def sm_basic_defs split: option.splits)
    have "doc = take a doc @ moved @ drop b doc"
      using slice(1,2) by (simp add: m) (metis append_take_drop_id drop_drop le_add_diff_inverse2 less_imp_le)
    moreover have "length moved = n" using slice(1,2) by (simp add: m n)
    moreover have clean: "\<forall>c \<in> set doc'. block_owner c \<noteq> capture_owner sid"
    proof
      fix c assume "c \<in> set doc'"
      then consider k where "k < a" "k < length doc" "c = doc ! k" | k where "b \<le> k" "k < length doc" "c = doc ! k"
        unfolding doc' using slice(2)
        by (auto simp: in_set_conv_nth nth_append split: if_splits) (metis add.commute le_add1 less_diff_conv)
      then show "block_owner c \<noteq> capture_owner sid" using slice(3) by cases (auto dest: leD)
    qed
    ultimately show ?thesis using gone [OF clean] doc' by blast
  qed
qed

lemma purge_exact:
  assumes "purge_session_blocks accepts sid doc = (Inr n, doc')"
  shows "doc' = filter (\<lambda>b. block_owner b \<noteq> capture_owner sid) doc \<and> n + length doc' = length doc"
proof -
  let ?items = "filter (\<lambda>b. block_owner b \<noteq> capture_owner sid) doc"
  have le: "length ?items \<le> length doc" by (rule length_filter_le)
  show ?thesis
  proof (cases "length doc - length ?items = 0")
    case True
    with le have "length ?items = length doc" by linarith
    then have "?items = doc" by (metis filter_id_conv length_filter_less nat_neq_iff)
    with True assms show ?thesis by (simp add: purge_session_blocks_def Let_def)
  next
    case False
    with assms have "doc' = ?items" "n = length doc - length ?items"
      by (auto simp: purge_session_blocks_def Let_def commit_def sm_basic_defs split: option.splits)
    with le show ?thesis by simp
  qed
qed

end
