(* ===== verification/Mirror_Lis.thy ===== *)
theory Mirror_Lis
  imports Prelude
begin

text \<open>
  Crate \<open>vt-mirror\<close>, \<open>lis.rs\<close>: the longest strictly increasing subsequence that decides which
  elements of a movable list stay in place. Sequences are of a linear order, as those of the callers
  are; \<open>usize::MAX\<close> is \<open>u64_max\<close>.
\<close>

section \<open>The algorithm\<close>

function lis_search :: "'a::linorder list \<Rightarrow> nat list \<Rightarrow> 'a \<Rightarrow> nat \<Rightarrow> nat \<Rightarrow> nat" where
  "lis_search sequence tails x low high =
     (if low < high then
        (let mid = (low + high) div 2
         in if sequence ! (tails ! mid) < x then lis_search sequence tails x (mid + 1) high
            else lis_search sequence tails x low mid)
      else low)"
  by pat_completeness auto
termination
  by (relation "measure (\<lambda>(sequence, tails, x, low, high). high - low)") auto

declare lis_search.simps [simp del]

text \<open>One turn of the loop over the sequence: \<open>predecessor\<close> and \<open>tails\<close>.\<close>

definition lis_step :: "'a::linorder list \<Rightarrow> nat \<Rightarrow> nat list \<times> nat list \<Rightarrow> nat list \<times> nat list" where
  "lis_step sequence i = (\<lambda>(predecessor, tails).
     let low = lis_search sequence tails (sequence ! i) 0 (length tails);
         tails' = (if low \<ge> length tails then tails @ [i] else tails[low := i])
     in (if low > 0 then predecessor[i := tails' ! (low - 1)] else predecessor, tails'))"

fun lis_unwind :: "nat list \<Rightarrow> nat \<Rightarrow> nat \<Rightarrow> nat list \<Rightarrow> nat list" where
  "lis_unwind predecessor 0 k lis = lis"
| "lis_unwind predecessor (Suc slot) k lis =
     lis_unwind predecessor slot (if slot > 0 then predecessor ! k else k) (k # lis)"

definition longest_increasing_subsequence :: "'a::linorder list \<Rightarrow> nat list" where
  "longest_increasing_subsequence sequence =
     (if sequence = [] then []
      else let (predecessor, tails) =
                 fold (lis_step sequence) [0..<length sequence] (replicate (length sequence) u64_max, [])
           in lis_unwind predecessor (length tails) (last tails) [])"

section \<open>Chains\<close>

definition increasing_chain :: "'a::linorder list \<Rightarrow> nat list \<Rightarrow> bool" where
  "increasing_chain sequence js \<longleftrightarrow>
     sorted_wrt (<) js \<and> sorted_wrt (\<lambda>a b. sequence ! a < sequence ! b) js \<and> list_all (\<lambda>j. j < length sequence) js"

text \<open>The search finds how many tails end below \<open>x\<close>.\<close>

lemma lis_search_spec:
  assumes "high \<le> length tails" and "low \<le> high"
    and "sorted_wrt (\<lambda>a b. sequence ! a < sequence ! b) tails"
    and "\<forall>l < low. sequence ! (tails ! l) < x"
    and "\<forall>l < length tails. high \<le> l \<longrightarrow> \<not> sequence ! (tails ! l) < x"
  shows "low \<le> lis_search sequence tails x low high \<and> lis_search sequence tails x low high \<le> high \<and>
    (\<forall>l < length tails. sequence ! (tails ! l) < x \<longleftrightarrow> l < lis_search sequence tails x low high)"
  using assms
proof (induction sequence tails x low high rule: lis_search.induct)
  case (1 sequence tails x low high)
  let ?mid = "(low + high) div 2"
  show ?case
  proof (cases "low < high")
    case False
    have eq: "lis_search sequence tails x low high = low"
      using False by (simp add: lis_search.simps [of sequence tails x low high])
    from False 1(4) have "low = high" by simp
    with 1(3,6,7) show ?thesis unfolding eq by (metis le_refl not_le)
  next
    case True
    have mid: "low \<le> ?mid" "?mid < high" using True by auto
    have mono: "sequence ! (tails ! a) < sequence ! (tails ! b)" if "a < b" "b < length tails" for a b
      using 1(5) that by (simp add: sorted_wrt_iff_nth_less)
    show ?thesis
    proof (cases "sequence ! (tails ! ?mid) < x")
      case below: True
      have "\<forall>l < ?mid + 1. sequence ! (tails ! l) < x"
      proof (intro allI impI)
        fix l assume l: "l < ?mid + 1"
        show "sequence ! (tails ! l) < x"
        proof (cases "l = ?mid")
          case False
          with l mid 1(3) have "sequence ! (tails ! l) < sequence ! (tails ! ?mid)" by (intro mono) simp_all
          with below show ?thesis by order
        qed (use below in simp)
      qed
      moreover have "lis_search sequence tails x low high = lis_search sequence tails x (?mid + 1) high"
        using True below by (simp add: lis_search.simps [of sequence tails x low high] Let_def)
      ultimately show ?thesis
        using 1(1) [OF True refl below 1(3) _ 1(5) _ 1(7)] mid by simp
    next
      case above: False
      have "\<forall>l < length tails. ?mid \<le> l \<longrightarrow> \<not> sequence ! (tails ! l) < x"
      proof (intro allI impI)
        fix l assume l: "l < length tails" "?mid \<le> l"
        show "\<not> sequence ! (tails ! l) < x"
        proof (cases "l = ?mid")
          case False
          with l have "sequence ! (tails ! ?mid) < sequence ! (tails ! l)" by (intro mono) simp_all
          with above show ?thesis by order
        qed (use above in simp)
      qed
      moreover have "lis_search sequence tails x low high = lis_search sequence tails x low ?mid"
        using True above by (simp add: lis_search.simps [of sequence tails x low high] Let_def)
      ultimately show ?thesis
        using 1(2) [OF True refl above _ mid(1) 1(5) 1(6)] mid 1(3) by simp
    qed
  qed
qed

text \<open>The invariant of the loop after the first \<open>i\<close> elements, with the length \<open>rank\<close> the longest
  chain ending at an element has over one.\<close>

definition lis_inv :: "'a::linorder list \<Rightarrow> nat \<Rightarrow> nat list \<times> nat list \<Rightarrow> (nat \<Rightarrow> nat) \<Rightarrow> bool" where
  "lis_inv sequence i st rank \<longleftrightarrow>
     (let (predecessor, tails) = st in
      length predecessor = length sequence \<and>
      (\<forall>l < length tails. tails ! l < i \<and> rank (tails ! l) = l) \<and>
      sorted_wrt (\<lambda>a b. sequence ! a < sequence ! b) tails \<and>
      (\<forall>t < i. rank t < length tails \<and> sequence ! (tails ! rank t) \<le> sequence ! t) \<and>
      (\<forall>t < i. 0 < rank t \<longrightarrow> predecessor ! t < t \<and> sequence ! (predecessor ! t) < sequence ! t \<and>
         rank (predecessor ! t) = rank t - 1) \<and>
      (\<forall>t < i. \<forall>j < t. sequence ! j < sequence ! t \<longrightarrow> rank j < rank t))"

lemma lis_step_inv:
  assumes inv: "lis_inv sequence i (predecessor, tails) rank" and i: "i < length sequence"
  shows "lis_inv sequence (Suc i) (lis_step sequence i (predecessor, tails))
    (rank(i := lis_search sequence tails (sequence ! i) 0 (length tails)))"
proof -
  let ?x = "sequence ! i"
  let ?low = "lis_search sequence tails ?x 0 (length tails)"
  let ?tails = "if ?low \<ge> length tails then tails @ [i] else tails[?low := i]"
  let ?pred = "if ?low > 0 then predecessor[i := ?tails ! (?low - 1)] else predecessor"
  let ?rank = "rank(i := ?low)"
  have len: "length predecessor = length sequence"
    and tl: "\<And>l. l < length tails \<Longrightarrow> tails ! l < i \<and> rank (tails ! l) = l"
    and srt: "sorted_wrt (\<lambda>a b. sequence ! a < sequence ! b) tails"
    and low_of: "\<And>t. t < i \<Longrightarrow> rank t < length tails \<and> sequence ! (tails ! rank t) \<le> sequence ! t"
    and pr: "\<And>t. t < i \<Longrightarrow> 0 < rank t \<Longrightarrow> predecessor ! t < t \<and> sequence ! (predecessor ! t) < sequence ! t \<and>
         rank (predecessor ! t) = rank t - 1"
    and best: "\<And>t j. t < i \<Longrightarrow> j < t \<Longrightarrow> sequence ! j < sequence ! t \<Longrightarrow> rank j < rank t"
    using inv by (auto simp: lis_inv_def Let_def)
  have s: "?low \<le> length tails" "\<And>l. l < length tails \<Longrightarrow> sequence ! (tails ! l) < ?x \<longleftrightarrow> l < ?low"
    using lis_search_spec [of "length tails" tails 0 sequence ?x] srt by simp_all
  have nth: "?tails ! l = (if l = ?low then i else tails ! l)" if "l < length ?tails" for l
    using that s(1) by (auto simp: nth_append)
  have length: "length ?tails = (if ?low = length tails then Suc (length tails) else length tails)"
    using s(1) by auto
  have mono: "sequence ! (tails ! a) < sequence ! (tails ! b)" if "a < b" "b < length tails" for a b
    using srt that by (simp add: sorted_wrt_iff_nth_less)
  have "sorted_wrt (\<lambda>a b. sequence ! a < sequence ! b) ?tails"
    unfolding sorted_wrt_iff_nth_less
  proof (intro allI impI)
    fix a b assume ab: "a < b" "b < length ?tails"
    consider "a = ?low" | "b = ?low" "a \<noteq> ?low" | "a \<noteq> ?low" "b \<noteq> ?low" by blast
    then show "sequence ! (?tails ! a) < sequence ! (?tails ! b)"
    proof cases
      case 1
      then have b: "b < length tails" using ab length by (auto split: if_splits)
      have "\<not> sequence ! (tails ! a) < ?x" using s(2) [of a] 1 ab b by simp
      moreover have "sequence ! (tails ! a) < sequence ! (tails ! b)" using mono ab b by blast
      ultimately have "?x < sequence ! (tails ! b)" by order
      then show ?thesis using 1 ab nth by simp
    next
      case 2
      then have "a < length tails" using ab s(1) by simp
      then have "sequence ! (tails ! a) < ?x" using s(2) 2 ab by simp
      then show ?thesis using 2 ab nth by simp
    next
      case 3
      then have "b < length tails" using ab length by (auto split: if_splits)
      then show ?thesis using mono 3 ab nth by simp
    qed
  qed
  moreover have "?tails ! l < Suc i \<and> ?rank (?tails ! l) = l" if "l < length ?tails" for l
  proof (cases "l = ?low")
    case False
    then have "l < length tails" using that length by (auto split: if_splits)
    with False tl [of l] nth [OF that] show ?thesis by simp
  qed (use nth that in simp)
  moreover have "?rank t < length ?tails \<and> sequence ! (?tails ! ?rank t) \<le> sequence ! t" if t: "t < Suc i" for t
  proof (cases "t = i")
    case True
    then show ?thesis using s(1) length nth [of ?low] by (auto split: if_splits)
  next
    case False
    then have ti: "t < i" using t by simp
    have r: "rank t < length ?tails" using low_of [OF ti] length by (auto split: if_splits)
    show ?thesis
    proof (cases "rank t = ?low")
      case True
      then have "\<not> sequence ! (tails ! rank t) < ?x" using s(2) [of "rank t"] low_of [OF ti] by simp
      moreover have "sequence ! (tails ! rank t) \<le> sequence ! t" using low_of [OF ti] by simp
      ultimately have "?x \<le> sequence ! t" by order
      with True False r nth [OF r] show ?thesis by simp
    next
      case other: False
      with low_of [OF ti] False r nth [OF r] show ?thesis by simp
    qed
  qed
  moreover have "?pred ! t < t \<and> sequence ! (?pred ! t) < sequence ! t \<and> ?rank (?pred ! t) = ?rank t - 1"
    if t: "t < Suc i" "0 < ?rank t" for t
  proof (cases "t = i")
    case True
    then have pos: "0 < ?low" using t by simp
    then have l: "?low - 1 < length tails" using s(1) by simp
    then have "?tails ! (?low - 1) = tails ! (?low - 1)" using pos by (simp add: nth_append)
    then have "?pred ! i = tails ! (?low - 1)" using pos i len by simp
    moreover have "sequence ! (tails ! (?low - 1)) < ?x" using s(2) [OF l] pos by simp
    ultimately show ?thesis using True tl [OF l] by simp
  next
    case False
    with t have ti: "t < i" "0 < rank t" by simp_all
    have "?pred ! t = predecessor ! t" using False by simp
    with pr [OF ti] ti show ?thesis by simp
  qed
  moreover have "?rank j < ?rank t" if t: "t < Suc i" "j < t" "sequence ! j < sequence ! t" for t j
  proof (cases "t = i")
    case True
    then have ji: "j < i" using t by simp
    have "sequence ! (tails ! rank j) < ?x" using low_of [OF ji] t True by (auto intro: le_less_trans)
    then show ?thesis using s(2) [of "rank j"] low_of [OF ji] True ji by simp
  next
    case False
    with t best [of t j] show ?thesis by simp
  qed
  moreover have "lis_step sequence i (predecessor, tails) = (?pred, ?tails)" by (simp add: lis_step_def Let_def)
  ultimately show ?thesis using len by (simp add: lis_inv_def Let_def)
qed

lemma lis_loop_inv:
  "i \<le> length sequence \<Longrightarrow>
     \<exists>rank. lis_inv sequence i (fold (lis_step sequence) [0..<i] (replicate (length sequence) u64_max, [])) rank"
proof (induction i)
  case 0
  show ?case by (simp add: lis_inv_def)
next
  case (Suc i)
  obtain rank where "lis_inv sequence i (fold (lis_step sequence) [0..<i] (replicate (length sequence) u64_max, [])) rank"
    using Suc by auto
  then have "\<exists>rank'. lis_inv sequence (Suc i)
      (lis_step sequence i (fold (lis_step sequence) [0..<i] (replicate (length sequence) u64_max, []))) rank'"
    using lis_step_inv Suc.prems by (metis Suc_le_lessD prod.collapse)
  then show ?case by simp
qed

text \<open>Unwinding follows the predecessors of \<open>k\<close>, one per rank.\<close>

lemma lis_unwind_chain:
  assumes inv: "lis_inv sequence n (predecessor, tails) rank"
    and "k < n" and "rank k = slot" and "n \<le> length sequence" and "increasing_chain sequence (k # acc)"
  shows "increasing_chain sequence (lis_unwind predecessor (Suc slot) k acc) \<and>
    length (lis_unwind predecessor (Suc slot) k acc) = Suc slot + length acc"
  using assms(2,3,5)
proof (induction slot arbitrary: k acc)
  case 0
  then show ?case by simp
next
  case (Suc slot)
  let ?p = "predecessor ! k"
  have p: "?p < k" "sequence ! ?p < sequence ! k" "rank ?p = slot"
    using inv Suc.prems(1,2) by (auto simp: lis_inv_def Let_def)
  have "increasing_chain sequence (?p # k # acc)"
    using Suc.prems p by (auto simp: increasing_chain_def intro: less_trans)
  moreover have "?p < n" using p(1) Suc.prems(1) by simp
  ultimately show ?case using Suc.IH [of ?p "k # acc"] p(3) by simp
qed

text \<open>No chain has more elements than the rank of its last one allows.\<close>

lemma chain_rank:
  assumes inv: "lis_inv sequence (length sequence) (predecessor, tails) rank"
    and "increasing_chain sequence (js @ [t])"
  shows "length js \<le> rank t"
  using assms(2)
proof (induction js arbitrary: t rule: rev_induct)
  case (snoc j js)
  have sub: "increasing_chain sequence (js @ [j])"
    using snoc.prems by (simp add: increasing_chain_def sorted_wrt_append)
  have "j < t" "sequence ! j < sequence ! t" "t < length sequence"
    using snoc.prems by (simp_all add: increasing_chain_def sorted_wrt_append)
  then have "rank j < rank t" using inv by (simp add: lis_inv_def Let_def)
  with snoc.IH [OF sub] show ?case by simp
qed simp

lemma lis_spec:
  "increasing_chain sequence (longest_increasing_subsequence sequence) \<and>
   (increasing_chain sequence js \<longrightarrow> length js \<le> length (longest_increasing_subsequence sequence))"
proof (cases "sequence = []")
  case True
  then show ?thesis by (cases js) (auto simp: longest_increasing_subsequence_def increasing_chain_def)
next
  case False
  obtain predecessor tails where loop:
    "fold (lis_step sequence) [0..<length sequence] (replicate (length sequence) u64_max, []) = (predecessor, tails)"
    by (metis surj_pair)
  obtain rank where inv: "lis_inv sequence (length sequence) (predecessor, tails) rank"
    using lis_loop_inv [of "length sequence" sequence] loop by auto
  have ranks: "rank t < length tails" if "t < length sequence" for t
    using inv that by (simp add: lis_inv_def Let_def)
  then have some: "tails \<noteq> []" using False by fastforce
  let ?k = "last tails"
  have k: "?k < length sequence" "rank ?k = length tails - 1"
    using inv some by (auto simp: lis_inv_def Let_def last_conv_nth)
  have result: "longest_increasing_subsequence sequence = lis_unwind predecessor (length tails) ?k []"
    using False loop by (simp add: longest_increasing_subsequence_def)
  have "increasing_chain sequence [?k]" using k(1) by (simp add: increasing_chain_def)
  from lis_unwind_chain [OF inv k order_refl this] some
  have chain: "increasing_chain sequence (longest_increasing_subsequence sequence)"
    and len: "length (longest_increasing_subsequence sequence) = length tails"
    by (simp_all add: result)
  have "length js \<le> length tails" if "increasing_chain sequence js"
  proof (cases js rule: rev_cases)
    case (snoc ks t)
    have "t < length sequence" using that snoc by (simp add: increasing_chain_def)
    with chain_rank [OF inv that [unfolded snoc]] ranks show ?thesis by (auto simp: snoc Suc_le_eq intro: le_less_trans)
  qed simp
  with chain len show ?thesis by simp
qed

text \<open>C39. The longest increasing subsequence is one: the indices returned ascend, so do the elements
  there, and no strictly increasing choice of indices is longer.\<close>

theorem lis_is_longest:
  "increasing_chain sequence (longest_increasing_subsequence sequence) \<and>
   (increasing_chain sequence js \<longrightarrow> length js \<le> length (longest_increasing_subsequence sequence))"
  by (rule lis_spec)

theorem lis_is_longest_witness:
  "2 \<le> length (longest_increasing_subsequence [3, 1, 2 :: nat])"
proof -
  have "increasing_chain [3, 1, 2 :: nat] [1, 2]" by (simp add: increasing_chain_def)
  then show ?thesis using lis_is_longest [of "[3, 1, 2 :: nat]" "[1, 2]"] by simp
qed

end
