(* ===== verification/Sync_Wire.thy ===== *)
theory Sync_Wire
  imports Prelude "HOL-Library.Word"
begin

text \<open>
  Crate \<open>vt-sync\<close>, \<open>wire.rs\<close> and \<open>protocol.rs\<close>: the messages two devices exchange, the frames
  they travel in and the chunks of an update. A stream is the list of the bytes that arrive before
  it ends. The body codec (postcard) is a parameter: \<open>encode\<close> and \<open>decode\<close>.
\<close>

type_synonym byte = "8 word"
type_synonym bytes = "byte list"
type_synonym docid = ustring
type_synonym digest = bytes

section \<open>Messages\<close>

definition PROTOCOL_VERSION :: "32 word" where
  "PROTOCOL_VERSION = 1"

definition UPDATE_CHUNK_BYTES :: nat where
  "UPDATE_CHUNK_BYTES = 1024 * 1024"

definition MAX_UPDATE_BYTES :: nat where
  "MAX_UPDATE_BYTES = 256 * 1024 * 1024"

datatype space_id = SpaceId bytes

text \<open>\<open>hex::encode\<close> (lower case) and \<open>hex::decode\<close> (either case).\<close>

definition hex_digit :: "nat \<Rightarrow> uchar" where
  "hex_digit n = (if n < 10 then 48 + n else 87 + n)"

definition hex_value :: "uchar \<Rightarrow> nat option" where
  "hex_value c = (if 48 \<le> c \<and> c \<le> 57 then Some (c - 48)
     else if 97 \<le> c \<and> c \<le> 102 then Some (c - 87)
     else if 65 \<le> c \<and> c \<le> 70 then Some (c - 55) else None)"

fun hex_encode :: "bytes \<Rightarrow> ustring" where
  "hex_encode [] = []"
| "hex_encode (b # bs) = hex_digit (unat b div 16) # hex_digit (unat b mod 16) # hex_encode bs"

fun hex_decode :: "ustring \<Rightarrow> bytes option" where
  "hex_decode [] = Some []"
| "hex_decode [c] = None"
| "hex_decode (c # d # cs) =
     (case (hex_value c, hex_value d, hex_decode cs) of
        (Some h, Some l, Some bs) \<Rightarrow> Some (of_nat (16 * h + l) # bs)
      | _ \<Rightarrow> None)"

fun to_hex :: "space_id \<Rightarrow> ustring" where
  "to_hex (SpaceId bs) = hex_encode bs"

definition from_hex :: "ustring \<Rightarrow> space_id option" where
  "from_hex text =
     (case hex_decode (trim text) of
        None \<Rightarrow> None
      | Some bs \<Rightarrow> if length bs = 32 then Some (SpaceId bs) else None)"

datatype sync_message =
    Hello space_id "32 word"
  | Summary "(docid \<times> digest) list" bool
  | Want docid bytes
  | RequestSummary
  | Update docid bytes bool

section \<open>Frames\<close>

definition MAX_FRAME_BYTES :: nat where
  "MAX_FRAME_BYTES = 4 * 1024 * 1024"

datatype wire_error = WireIo ustring | TooLarge nat | WireCodec ustring

definition to_le_bytes :: "32 word \<Rightarrow> bytes" where
  "to_le_bytes w = map (\<lambda>i. of_nat (unat w div 256 ^ i)) [0, 1, 2, 3]"

definition from_le_bytes :: "bytes \<Rightarrow> 32 word" where
  "from_le_bytes bs = of_nat (foldr (\<lambda>b n. unat b + 256 * n) bs 0)"

text \<open>\<open>write_frame\<close> on a stream that takes every byte: what it appends.\<close>

definition write_frame :: "('m \<Rightarrow> ustring + bytes) \<Rightarrow> 'm \<Rightarrow> wire_error + bytes" where
  "write_frame encode m =
     (case encode m of
        Inl e \<Rightarrow> Inl (WireCodec e)
      | Inr body \<Rightarrow>
          if length body > MAX_FRAME_BYTES then Inl (TooLarge (length body))
          else Inr (to_le_bytes (of_nat (length body)) @ body))"

definition read_exact :: "nat \<Rightarrow> bytes \<Rightarrow> (wire_error + bytes) \<times> bytes" where
  "read_exact n stream =
     (if length stream < n then (Inl (WireIo (lit ''early eof'')), [])
      else (Inr (take n stream), drop n stream))"

definition read_frame :: "(bytes \<Rightarrow> ustring + 'm) \<Rightarrow> bytes \<Rightarrow> (wire_error + 'm) \<times> bytes" where
  "read_frame decode stream =
     (case read_exact 4 stream of
        (Inl e, rest) \<Rightarrow> (Inl e, rest)
      | (Inr len_bytes, rest) \<Rightarrow>
          (let len = unat (from_le_bytes len_bytes)
           in if len > MAX_FRAME_BYTES then (Inl (TooLarge len), rest)
              else case read_exact len rest of
                (Inl e, rest') \<Rightarrow> (Inl e, rest')
              | (Inr body, rest') \<Rightarrow>
                  (case decode body of Inl e \<Rightarrow> (Inl (WireCodec e), rest') | Inr m \<Rightarrow> (Inr m, rest'))))"

text \<open>A reader that takes the messages one after the other, as the loops of the engine do.\<close>

fun read_frames :: "(bytes \<Rightarrow> ustring + 'm) \<Rightarrow> nat \<Rightarrow> bytes \<Rightarrow> 'm list" where
  "read_frames decode 0 stream = []"
| "read_frames decode (Suc n) stream =
     (case read_frame decode stream of (Inl e, rest) \<Rightarrow> [] | (Inr m, rest) \<Rightarrow> m # read_frames decode n rest)"

fun write_frames :: "('m \<Rightarrow> ustring + bytes) \<Rightarrow> 'm list \<Rightarrow> wire_error + bytes" where
  "write_frames encode [] = Inr []"
| "write_frames encode (m # ms) =
     (case (write_frame encode m, write_frames encode ms) of
        (Inl e, _) \<Rightarrow> Inl e | (Inr _, Inl e) \<Rightarrow> Inl e | (Inr bs, Inr rest) \<Rightarrow> Inr (bs @ rest))"

section \<open>Round trips\<close>

lemma unat_byte: "unat (of_nat n :: byte) = n mod 256"
  by (simp add: unat_of_nat)

lemma four_digits:
  "n < 2 ^ 32 \<Longrightarrow> n mod 256 + 256 * (n div 256 mod 256 + 256 * (n div 256 div 256 mod 256 +
    256 * (n div 256 div 256 div 256 mod 256))) = (n :: nat)"
proof -
  assume small: "n < 2 ^ 32"
  have "n mod (256 * (256 * (256 * 256))) = n mod 256 + 256 * (n div 256 mod 256 + 256 * (n div 256 div 256 mod 256 +
      256 * (n div 256 div 256 div 256 mod 256)))"
    by (simp only: mod_mult2_eq add.commute)
  moreover have "n mod (256 * (256 * (256 * 256))) = n" using small by simp
  ultimately show ?thesis by (metis (no_types))
qed

lemma le_bytes_length [simp]: "length (to_le_bytes w) = 4"
  by (simp add: to_le_bytes_def)

lemma le_bytes_roundtrip [simp]: "from_le_bytes (to_le_bytes w) = w"
proof -
  have "foldr (\<lambda>b n. unat b + 256 * n) (to_le_bytes w) 0 = unat w mod 256 + 256 * (unat w div 256 mod 256 +
      256 * (unat w div 256 div 256 mod 256 + 256 * (unat w div 256 div 256 div 256 mod 256)))"
    using div_mult2_eq [of "unat w" 256 256] div_mult2_eq [of "unat w" 65536 256]
    by (simp add: to_le_bytes_def unat_byte unsigned_ucast_eq take_bit_eq_mod)
  also have "\<dots> = unat w" using unsigned_less [where 'a = nat, of w] by (intro four_digits) simp
  finally show ?thesis by (simp add: from_le_bytes_def)
qed

lemma frame_length: "n \<le> MAX_FRAME_BYTES \<Longrightarrow> unat (of_nat n :: 32 word) = n"
  by (simp add: MAX_FRAME_BYTES_def unat_of_nat)

lemma read_written_frame:
  assumes "write_frame encode m = Inr bs" and "\<And>body. encode m = Inr body \<Longrightarrow> decode body = Inr m"
  shows "read_frame decode (bs @ rest) = (Inr m, rest)"
  using assms
  by (auto simp: write_frame_def read_frame_def read_exact_def frame_length split: sum.splits if_splits)

lemma read_written_frames:
  assumes "write_frames encode ms = Inr bs" and "\<And>m body. m \<in> set ms \<Longrightarrow> encode m = Inr body \<Longrightarrow> decode body = Inr m"
  shows "read_frames decode (length ms) (bs @ rest) = ms"
  using assms
proof (induction ms arbitrary: bs)
  case (Cons m ms)
  then obtain b c where b: "write_frame encode m = Inr b" and c: "write_frames encode ms = Inr c" and "bs = b @ c"
    by (auto split: sum.splits)
  with Cons.IH [OF c] Cons.prems(2) read_written_frame [OF b, of decode "c @ rest"] show ?case by simp
qed simp

lemma hex_digit_value [simp]: "n < 16 \<Longrightarrow> hex_value (hex_digit n) = Some n"
  by (auto simp: hex_value_def hex_digit_def)

lemma hex_roundtrip [simp]: "hex_decode (hex_encode bs) = Some bs"
proof (induction bs)
  case (Cons b bs)
  have "unat b < 256" using unsigned_less [where 'a = nat, of b] by simp
  then have "hex_value (hex_digit (unat b div 16)) = Some (unat b div 16)"
    "hex_value (hex_digit (unat b mod 16)) = Some (unat b mod 16)" by (simp_all add: less_mult_imp_div_less)
  moreover have "of_nat (16 * (unat b div 16) + unat b mod 16) = b" by (simp only: mult_div_mod_eq) simp
  ultimately show ?case using Cons by simp
qed simp

text \<open>C32. Framing is unambiguous.\<close>

theorem frames_roundtrip:
  assumes "write_frames encode ms = Inr bs" and "\<And>m body. m \<in> set ms \<Longrightarrow> encode m = Inr body \<Longrightarrow> decode body = Inr m"
  shows "read_frames decode (length ms) (bs @ rest) = ms"
  using assms by (rule read_written_frames)

theorem frames_roundtrip_witness:
  "read_frames Inr 2 ([1, 0, 0, 0, 7, 0, 0, 0, 0] @ [9]) = [[7], [] :: bytes]"
proof -
  have "write_frames Inr [[7], [] :: bytes] = Inr [1, 0, 0, 0, 7, 0, 0, 0, 0]"
    by (simp add: write_frame_def to_le_bytes_def MAX_FRAME_BYTES_def)
  from frames_roundtrip [OF this, of Inr "[9]"] show ?thesis by (simp add: numeral_2_eq_2)
qed

text \<open>A declared length is checked before the body.\<close>

lemma huge_frame_refused:
  assumes "MAX_FRAME_BYTES < unat n"
  shows "read_frame decode (to_le_bytes n @ rest) = (Inl (TooLarge (unat n)), rest)"
  using assms by (simp add: read_frame_def read_exact_def)

lemma hex_digit_visible: "n < 16 \<Longrightarrow> \<not> is_whitespace (hex_digit n)"
  by (auto simp: hex_digit_def is_whitespace_def)

lemma byte_digits: "unat (b :: byte) div 16 < 16" "unat b mod 16 < 16"
  using unsigned_less [where 'a = nat, of b] by (simp_all add: less_mult_imp_div_less)

lemma hex_encode_visible: "c \<in> set (hex_encode bs) \<Longrightarrow> \<not> is_whitespace c"
  using byte_digits by (induction bs) (auto simp: hex_digit_visible)

lemma space_id_roundtrip: "length bs = 32 \<Longrightarrow> from_hex (to_hex (SpaceId bs)) = Some (SpaceId bs)"
proof -
  have keep: "dropWhile is_whitespace s = s" if "\<forall>c \<in> set s. \<not> is_whitespace c" for s
    using that by (cases s) auto
  have "trim (hex_encode bs) = hex_encode bs" using keep [of "hex_encode bs"] keep [of "rev (hex_encode bs)"] hex_encode_visible [of _ bs] by (simp add: trim_def)
  then show "length bs = 32 \<Longrightarrow> ?thesis" by (simp add: from_hex_def)
qed

end
