(* ===== verification/Sync_Pairing.thy ===== *)
theory Sync_Pairing
  imports Sync_Wire "HOL-Library.AList"
begin

text \<open>
  Crate \<open>vt-sync\<close>, \<open>pairing.rs\<close> and the pairing handler of \<open>engine.rs\<close>: the invitations a
  device has open, the proof a joiner presents, and what the inviter answers. SHA-256, Unicode
  lower-casing and the ticket's base32 form are parameters, and so is the list of members, which
  the caller keeps. Time is the monotonic clock.
\<close>

type_synonym endpoint_id = bytes

section \<open>Device names\<close>

definition MAX_DEVICE_NAME_BYTES :: nat where
  "MAX_DEVICE_NAME_BYTES = 64"

fun take_bytes :: "ustring \<Rightarrow> ustring \<Rightarrow> ustring" where
  "take_bytes out [] = out"
| "take_bytes out (c # cs) =
     (if utf8_length out + len_utf8 c > MAX_DEVICE_NAME_BYTES then out else take_bytes (out @ [c]) cs)"

definition sanitize_device_name :: "ustring \<Rightarrow> ustring" where
  "sanitize_device_name raw = take_bytes [] (trim (filter (\<lambda>c. \<not> is_control c) raw))"

section \<open>Invitations\<close>

definition INVITE_TTL :: duration where
  "INVITE_TTL = seconds (10 * 60)"

datatype invite_purpose = ForDevice | ForTopic | ForBackup

record open_invite =
  invite_secret :: bytes
  invite_expires :: instant
  invite_space :: space_id
  invite_purpose :: invite_purpose
  invite_label :: ustring
  invite_context :: ustring

definition pair_domain :: bytes where
  "pair_domain = map of_char ''zutalk/pair/v1''"

definition proof_of :: "(bytes \<Rightarrow> bytes) \<Rightarrow> bytes \<Rightarrow> endpoint_id \<Rightarrow> endpoint_id \<Rightarrow> bytes" where
  "proof_of sha256 secret joiner inviter = sha256 (pair_domain @ secret @ joiner @ inviter)"

text \<open>The fold of \<open>constant_time_eq\<close> looks at every byte.\<close>

definition constant_time_eq :: "bytes \<Rightarrow> bytes \<Rightarrow> bool" where
  "constant_time_eq a b \<longleftrightarrow> foldl (\<lambda>acc (x, y). or acc (xor x y)) 0 (zip a b) = 0"

type_synonym invite_book = "open_invite list"

definition issue ::
    "instant \<Rightarrow> bytes \<Rightarrow> space_id \<Rightarrow> invite_purpose \<Rightarrow> ustring \<Rightarrow> ustring \<Rightarrow> duration \<Rightarrow> invite_book \<Rightarrow> invite_book" where
  "issue now secret space purpose label context ttl book =
     filter (\<lambda>i. invite_expires i > now) book @
       [\<lparr>invite_secret = secret, invite_expires = now + ttl, invite_space = space,
         invite_purpose = purpose, invite_label = label, invite_context = context\<rparr>]"

fun take_invite :: "(open_invite \<Rightarrow> bool) \<Rightarrow> invite_book \<Rightarrow> (open_invite \<times> invite_book) option" where
  "take_invite p [] = None"
| "take_invite p (i # is) =
     (if p i then Some (i, is) else map_option (\<lambda>(j, js). (j, i # js)) (take_invite p is))"

definition redeem ::
    "(bytes \<Rightarrow> bytes) \<Rightarrow> instant \<Rightarrow> bytes \<Rightarrow> endpoint_id \<Rightarrow> endpoint_id \<Rightarrow> invite_book \<Rightarrow>
     open_invite option \<times> invite_book" where
  "redeem sha256 now presented joiner inviter book =
     (let open_now = filter (\<lambda>i. invite_expires i > now) book
      in case take_invite (\<lambda>i. constant_time_eq (proof_of sha256 (invite_secret i) joiner inviter) presented) open_now of
           None \<Rightarrow> (None, open_now)
         | Some (i, rest) \<Rightarrow> (Some i, rest))"

definition revoke_space :: "space_id \<Rightarrow> invite_book \<Rightarrow> invite_book" where
  "revoke_space space book = filter (\<lambda>i. invite_space i \<noteq> space) book"

section \<open>The pairing exchange\<close>

datatype pair_rejection = InvalidOrExpired | Unavailable

datatype pair_message =
    Request bytes ustring endpoint_id
  | Accepted space_id invite_purpose ustring ustring ustring
  | Rejected pair_rejection

text \<open>\<open>PairAcceptor::accept\<close>: \<open>remote\<close> is the identity the connection proved, \<open>spaces\<close> the
  member lists of the local spaces, \<open>admit\<close> the caller's \<open>Membership::admit\<close>. The last
  component is the space that gained a member. A message that is no request gets no answer.\<close>

record 'm pair_host =
  book :: invite_book
  spaces :: "(space_id \<times> 'm) list"

definition accept_pairing ::
    "(bytes \<Rightarrow> bytes) \<Rightarrow> (endpoint_id \<Rightarrow> ustring \<Rightarrow> 'm \<Rightarrow> ustring + 'm) \<Rightarrow> ustring \<Rightarrow> endpoint_id \<Rightarrow> instant \<Rightarrow>
     endpoint_id \<Rightarrow> pair_message \<Rightarrow> 'm pair_host \<Rightarrow> (pair_message option \<times> space_id option) \<times> 'm pair_host" where
  "accept_pairing sha256 admit own_name me now remote message host =
     (case message of
        Request presented device_name joiner_addr \<Rightarrow>
          (let (redeemed, book') = (if joiner_addr = remote then redeem sha256 now presented remote me (book host)
                                    else (None, book host));
               host' = host\<lparr>book := book'\<rparr>
           in case redeemed of
                None \<Rightarrow> ((Some (Rejected InvalidOrExpired), None), host')
              | Some invite \<Rightarrow>
                  (case map_of (spaces host') (invite_space invite) of
                     None \<Rightarrow> ((Some (Rejected Unavailable), None), host')
                   | Some members \<Rightarrow>
                       (case admit remote (sanitize_device_name device_name) members of
                          Inl e \<Rightarrow> ((Some (Rejected Unavailable), None), host')
                        | Inr members' \<Rightarrow>
                            ((Some (Accepted (invite_space invite) (invite_purpose invite) (invite_label invite)
                                (invite_context invite) own_name), Some (invite_space invite)),
                             host'\<lparr>spaces := AList.update (invite_space invite) members' (spaces host')\<rparr>))))
      | _ \<Rightarrow> ((None, None), host))"

record joined =
  joined_space :: space_id
  joined_purpose :: invite_purpose
  joined_label :: ustring
  joined_context :: ustring
  joined_inviter :: endpoint_id
  inviter_name :: ustring

datatype pair_error = Unreachable ustring | PairRejected pair_rejection | Interrupted ustring

text \<open>What the joiner makes of the answer (\<open>SyncEngine::join\<close>).\<close>

definition on_reply :: "endpoint_id \<Rightarrow> pair_message \<Rightarrow> pair_error + joined" where
  "on_reply inviter reply =
     (case reply of
        Accepted space purpose label context name \<Rightarrow>
          Inr \<lparr>joined_space = space, joined_purpose = purpose, joined_label = sanitize_device_name label,
               joined_context = take 256 context, joined_inviter = inviter,
               inviter_name = sanitize_device_name name\<rparr>
      | Rejected reason \<Rightarrow> Inl (PairRejected reason)
      | Request _ _ _ \<Rightarrow> Inl (Interrupted [23545, 26041, 22238, 20102, 19968, 20010, 35831, 27714]))"

text \<open>\<open>PairingTicket::from_str\<close>: white space is dropped and case is folded before decoding.\<close>

definition ticket_from_str :: "(uchar \<Rightarrow> ustring) \<Rightarrow> (ustring \<Rightarrow> 'e + 't) \<Rightarrow> ustring \<Rightarrow> 'e + 't" where
  "ticket_from_str to_lowercase decode_string s =
     decode_string (concat (map to_lowercase (filter (\<lambda>c. \<not> is_whitespace c) s)))"

section \<open>Laws\<close>

lemma take_bytes_spec:
  "utf8_length out \<le> 64 \<Longrightarrow> \<exists>n. take_bytes out s = out @ take n s \<and> utf8_length (out @ take n s) \<le> 64 \<and>
     (n < length s \<longrightarrow> 64 < utf8_length (out @ take (Suc n) s))"
proof (induction s arbitrary: out)
  case Nil
  then show ?case by simp
next
  case (Cons c s)
  show ?case
  proof (cases "utf8_length out + len_utf8 c > 64")
    case True
    then show ?thesis using Cons.prems
      by (intro exI [of _ 0]) (simp add: MAX_DEVICE_NAME_BYTES_def utf8_length_def)
  next
    case False
    then have "utf8_length (out @ [c]) \<le> 64" by (simp add: utf8_length_def)
    from Cons.IH [OF this] obtain n where "take_bytes (out @ [c]) s = (out @ [c]) @ take n s"
      "utf8_length ((out @ [c]) @ take n s) \<le> 64" "n < length s \<longrightarrow> 64 < utf8_length ((out @ [c]) @ take (Suc n) s)"
      by blast
    then show ?thesis using False by (intro exI [of _ "Suc n"]) (simp add: MAX_DEVICE_NAME_BYTES_def)
  qed
qed

lemma set_trim: "set (trim s) \<subseteq> set s"
  by (auto simp: trim_def dest!: set_dropWhileD)

lemma xor_zero_iff: "xor x y = 0 \<longleftrightarrow> x = (y :: byte)"
  by (metis xor_self_eq bit.xor_left_self xor.right_neutral)

lemma or_zero_iff: "or x y = 0 \<longleftrightarrow> x = 0 \<and> y = (0 :: byte)"
  by (metis bit.conj_disj_distrib or.left_neutral or_eq_0_iff)

lemma constant_time_fold:
  "length a = length b \<Longrightarrow> foldl (\<lambda>acc (x, y). or acc (xor x y)) acc (zip a b) = 0 \<longleftrightarrow> acc = (0 :: byte) \<and> a = b"
  by (induction a b arbitrary: acc rule: list_induct2) (auto simp: or_zero_iff xor_zero_iff)

lemma constant_time_eq_iff: "length a = length b \<Longrightarrow> constant_time_eq a b \<longleftrightarrow> a = b"
  by (simp add: constant_time_eq_def constant_time_fold)

section \<open>Runs of an inviter\<close>

text \<open>What happens to the invitations of a device: it issues some, cancels some, and devices it does
  not know yet send it messages on the pairing channel.\<close>

datatype pair_event =
    Issue instant bytes space_id invite_purpose ustring ustring duration
  | Revoke space_id
  | Incoming instant endpoint_id pair_message

fun pair_step ::
    "(bytes \<Rightarrow> bytes) \<Rightarrow> (endpoint_id \<Rightarrow> ustring \<Rightarrow> 'm \<Rightarrow> ustring + 'm) \<Rightarrow> ustring \<Rightarrow> endpoint_id \<Rightarrow>
     pair_event \<Rightarrow> 'm pair_host \<Rightarrow> 'm pair_host" where
  "pair_step sha256 admit own_name me (Issue now secret space purpose label context ttl) host =
     host\<lparr>book := issue now secret space purpose label context ttl (book host)\<rparr>"
| "pair_step sha256 admit own_name me (Revoke space) host = host\<lparr>book := revoke_space space (book host)\<rparr>"
| "pair_step sha256 admit own_name me (Incoming now remote message) host =
     snd (accept_pairing sha256 admit own_name me now remote message host)"

definition pair_run ::
    "(bytes \<Rightarrow> bytes) \<Rightarrow> (endpoint_id \<Rightarrow> ustring \<Rightarrow> 'm \<Rightarrow> ustring + 'm) \<Rightarrow> ustring \<Rightarrow> endpoint_id \<Rightarrow>
     pair_event list \<Rightarrow> 'm pair_host \<Rightarrow> 'm pair_host" where
  "pair_run sha256 admit own_name me = fold (pair_step sha256 admit own_name me)"

text \<open>How many invitations carry a secret, and whether one came from these events and still stands.\<close>

definition copies :: "bytes \<Rightarrow> invite_book \<Rightarrow> nat" where
  "copies k is = length (filter (\<lambda>i. invite_secret i = k) is)"

fun issues_of :: "bytes \<Rightarrow> pair_event \<Rightarrow> nat" where
  "issues_of k (Issue now secret space purpose label context ttl) = (if secret = k then 1 else 0)"
| "issues_of k _ = 0"

definition stands :: "pair_event list \<Rightarrow> open_invite \<Rightarrow> bool" where
  "stands es i \<longleftrightarrow> (\<exists>pre now ttl post. es = pre @ Issue now (invite_secret i) (invite_space i) (invite_purpose i)
       (invite_label i) (invite_context i) ttl # post \<and> invite_expires i = now + ttl \<and>
     Revoke (invite_space i) \<notin> set post)"

lemma take_invite_Some:
  assumes "take_invite p is = Some (i, js)"
  shows "p i \<and> i \<in> set is \<and> set js \<subseteq> set is \<and> copies k is = copies k js + (if invite_secret i = k then 1 else 0)"
  using assms
proof (induction "is" arbitrary: js)
  case (Cons a as)
  then show ?case by (cases "p a") (fastforce simp: copies_def)+
qed simp

lemma copies_filter: "copies k (filter p is) \<le> copies k is"
  by (induction "is") (auto simp: copies_def)

lemma redeem_Some:
  assumes "redeem sha256 now presented joiner inviter is = (Some i, js)"
    and "\<And>x. length (sha256 x) = length presented"
  shows "presented = proof_of sha256 (invite_secret i) joiner inviter \<and> now < invite_expires i \<and> i \<in> set is \<and>
    set js \<subseteq> set is \<and> copies k js + (if invite_secret i = k then 1 else 0) \<le> copies k is"
proof -
  obtain js' where "take_invite (\<lambda>i. constant_time_eq (proof_of sha256 (invite_secret i) joiner inviter) presented)
      (filter (\<lambda>i. invite_expires i > now) is) = Some (i, js')" "js' = js"
    using assms(1) by (auto simp: redeem_def Let_def split: option.splits)
  from take_invite_Some [OF this(1), of k] this(2) copies_filter [of k "\<lambda>i. invite_expires i > now" "is"] assms(2)
  show ?thesis by (auto simp: proof_of_def constant_time_eq_iff)
qed

lemma redeem_None:
  assumes "redeem sha256 now presented joiner inviter is = (None, js)"
  shows "set js \<subseteq> set is \<and> copies k js \<le> copies k is"
  using assms copies_filter [of k _ "is"] by (auto simp: redeem_def Let_def split: option.splits)

lemma redeem_subset:
  assumes "\<And>x. length (sha256 x) = length presented"
  shows "set (snd (redeem sha256 now presented joiner inviter is)) \<subseteq> set is"
  using redeem_Some [OF _ assms] redeem_None by (cases "redeem sha256 now presented joiner inviter is"; cases "fst (redeem sha256 now presented joiner inviter is)") fastforce+

lemma stands_snoc: "stands es i \<Longrightarrow> e \<noteq> Revoke (invite_space i) \<Longrightarrow> stands (es @ [e]) i"
  unfolding stands_def by fastforce

lemma stands_new: "stands (es @ [Issue now secret space purpose label context ttl])
    \<lparr>invite_secret = secret, invite_expires = now + ttl, invite_space = space,
      invite_purpose = purpose, invite_label = label, invite_context = context\<rparr>"
  unfolding stands_def by fastforce

text \<open>An answer on the pairing channel, seen from the invitations. A proof is a hash value, so it has
  the hash's length.\<close>

definition hash_size :: "nat \<Rightarrow> (bytes \<Rightarrow> bytes) \<Rightarrow> bool" where
  "hash_size n sha256 \<longleftrightarrow> (\<forall>x. length (sha256 x) = n)"

definition presents :: "nat \<Rightarrow> pair_message \<Rightarrow> bool" where
  "presents n m = (case m of Request presented name addr \<Rightarrow> length presented = n | _ \<Rightarrow> True)"

lemma accept_pairing_book:
  assumes "hash_size n sha256" and "presents n m"
  shows "set (book (snd (accept_pairing sha256 admit own_name me now remote m host))) \<subseteq> set (book host) \<and>
    copies k (book (snd (accept_pairing sha256 admit own_name me now remote m host))) \<le> copies k (book host)"
proof (cases m)
  case (Request presented name addr)
  with assms have len: "\<And>x. length (sha256 x) = length presented" by (simp add: presents_def hash_size_def)
  obtain r js where r: "redeem sha256 now presented remote me (book host) = (r, js)" by force
  have "set js \<subseteq> set (book host) \<and> copies k js \<le> copies k (book host)"
  proof (cases r)
    case None
    with r redeem_None show ?thesis by blast
  next
    case (Some i)
    with r redeem_Some [OF _ len, where k = k] show ?thesis by fastforce
  qed
  with Request r show ?thesis
    by (auto simp: accept_pairing_def Let_def split: option.splits sum.splits)
qed (simp_all add: accept_pairing_def)

definition redeems :: "(bytes \<Rightarrow> bytes) \<Rightarrow> endpoint_id \<Rightarrow> pair_event \<Rightarrow> 'm pair_host \<Rightarrow> open_invite option" where
  "redeems sha256 me e host =
     (case e of
        Incoming now remote (Request presented name addr) \<Rightarrow>
          if addr = remote then fst (redeem sha256 now presented remote me (book host)) else None
      | _ \<Rightarrow> None)"

fun redeemed_in ::
    "(bytes \<Rightarrow> bytes) \<Rightarrow> (endpoint_id \<Rightarrow> ustring \<Rightarrow> 'm \<Rightarrow> ustring + 'm) \<Rightarrow> ustring \<Rightarrow> endpoint_id \<Rightarrow>
     pair_event list \<Rightarrow> 'm pair_host \<Rightarrow> open_invite list" where
  "redeemed_in sha256 admit own_name me [] host = []"
| "redeemed_in sha256 admit own_name me (e # es) host =
     (case redeems sha256 me e host of None \<Rightarrow> [] | Some i \<Rightarrow> [i]) @
     redeemed_in sha256 admit own_name me es (pair_step sha256 admit own_name me e host)"

fun event_ok :: "nat \<Rightarrow> pair_event \<Rightarrow> bool" where
  "event_ok n (Incoming now remote m) = presents n m"
| "event_ok n _ = True"

lemma copies_append [simp]: "copies k (xs @ ys) = copies k xs + copies k ys"
  by (simp add: copies_def)

lemma copies_step:
  assumes "hash_size n sha256" and "event_ok n e"
  shows "copies k (book (pair_step sha256 admit own_name me e host)) +
    copies k (case redeems sha256 me e host of None \<Rightarrow> [] | Some i \<Rightarrow> [i]) \<le> copies k (book host) + issues_of k e"
proof (cases e)
  case (Issue now secret space purpose label ctx ttl)
  then show ?thesis using copies_filter [of k "\<lambda>i. invite_expires i > now" "book host"]
    by (simp add: issue_def redeems_def) (simp add: copies_def)
next
  case (Revoke space)
  then show ?thesis using copies_filter [of k "\<lambda>i. invite_space i \<noteq> space" "book host"]
    by (simp add: revoke_space_def redeems_def) (simp add: copies_def)
next
  case (Incoming now remote m)
  show ?thesis
  proof (cases "redeems sha256 me e host")
    case None
    then show ?thesis using accept_pairing_book [OF assms(1), of m admit own_name me now remote host k] assms(2) Incoming
      by (simp add: copies_def [of k "[]"])
  next
    case (Some i)
    with Incoming obtain presented name where m: "m = Request presented name remote"
      and r: "fst (redeem sha256 now presented remote me (book host)) = Some i"
      by (auto simp: redeems_def split: pair_message.splits if_splits)
    with assms Incoming have len: "\<And>x. length (sha256 x) = length presented" by (simp add: presents_def hash_size_def)
    obtain js where js: "redeem sha256 now presented remote me (book host) = (Some i, js)" using r by (metis prod.collapse)
    have "book (pair_step sha256 admit own_name me e host) = js"
      using Incoming m js by (auto simp: accept_pairing_def Let_def split: option.splits sum.splits)
    with Some Incoming redeem_Some [OF js len, of k] show ?thesis
      by (auto simp: copies_def [of k "[i]"] split: if_splits)
  qed
qed

lemma copies_run:
  assumes "hash_size n sha256" and "list_all (event_ok n) es"
  shows "copies k (book (pair_run sha256 admit own_name me es host)) +
    copies k (redeemed_in sha256 admit own_name me es host) \<le> copies k (book host) + sum_list (map (issues_of k) es)"
  using assms(2)
proof (induction es arbitrary: host)
  case Nil
  then show ?case by (simp add: pair_run_def copies_def)
next
  case (Cons e es)
  have "event_ok n e" using Cons.prems by simp
  from copies_step [OF assms(1) this, of k admit own_name me host]
    Cons.IH [of "pair_step sha256 admit own_name me e host"] Cons.prems
  show ?case by (simp add: pair_run_def)
qed

lemma book_stands:
  assumes "hash_size n sha256" and "list_all (event_ok n) es" and "book host = []"
  shows "i \<in> set (book (pair_run sha256 admit own_name me es host)) \<Longrightarrow> stands es i"
  using assms(2)
proof (induction es arbitrary: i rule: rev_induct)
  case Nil
  then show ?case by (simp add: pair_run_def assms(3))
next
  case (snoc e es)
  let ?h = "pair_run sha256 admit own_name me es host"
  have run: "pair_run sha256 admit own_name me (es @ [e]) host = pair_step sha256 admit own_name me e ?h"
    by (simp add: pair_run_def)
  have prev: "j \<in> set (book ?h) \<Longrightarrow> stands es j" for j using snoc by simp
  show ?case
  proof (cases e)
    case (Issue now secret space purpose label ctx ttl)
    with snoc.prems(1) prev stands_new show ?thesis
      by (auto simp: run [unfolded Issue] issue_def intro: stands_snoc)
  next
    case (Revoke space)
    with snoc.prems(1) prev show ?thesis by (auto simp: run [unfolded Revoke] revoke_space_def intro: stands_snoc)
  next
    case (Incoming now remote m)
    with snoc.prems have "presents n m" by simp
    from accept_pairing_book [OF assms(1) this, of admit own_name me now remote ?h]
    have "i \<in> set (book ?h)" using snoc.prems(1) by (auto simp: Incoming run [unfolded Incoming])
    with prev Incoming show ?thesis by (simp add: stands_snoc)
  qed
qed

text \<open>C29. A pairing code works once.\<close>

theorem invitation_works_once:
  assumes "hash_size 32 sha256" and "list_all (event_ok 32) es" and "book host = []"
  shows "length (filter (\<lambda>i. invite_secret i = k) (redeemed_in sha256 admit own_name me es host))
    \<le> sum_list (map (issues_of k) es)"
  using copies_run [OF assms(1,2), of k admit own_name me host] assms(3) by (simp add: copies_def)

definition sample_invite :: pair_event where
  "sample_invite = Issue 0 [7] (SpaceId [1]) ForDevice [] [] INVITE_TTL"

definition sample_request :: pair_message where
  "sample_request = Request (replicate 32 0) (lit ''mac'') [5]"

theorem invitation_works_once_witness:
  "length (filter (\<lambda>i. invite_secret i = [7]) (redeemed_in (\<lambda>_. replicate 32 0) (\<lambda>d n ms. Inr (d # ms)) [] [9]
     [sample_invite, Incoming 1 [5] sample_request, Incoming 2 [5] sample_request]
     \<lparr>book = [], spaces = [(SpaceId [1], [])]\<rparr>)) \<le> 1"
proof -
  let ?es = "[sample_invite, Incoming 1 [5] sample_request, Incoming 2 [5] sample_request]"
  let ?h = "\<lparr>book = [], spaces = [(SpaceId [1], [])]\<rparr>"
  have "hash_size 32 (\<lambda>_. replicate 32 0)" "list_all (event_ok 32) ?es" "book ?h = []"
    by (simp_all add: hash_size_def sample_invite_def sample_request_def presents_def)
  from invitation_works_once [OF this, of "[7]" "\<lambda>d n ms. Inr (d # ms)" "[]" "[9]"] show ?thesis
    by (simp add: sample_invite_def)
qed

text \<open>C8. A device joins only by an invitation.\<close>

theorem device_joins_only_by_invitation:
  assumes "hash_size 32 sha256" and "list_all (event_ok 32) es" and "book start = []"
    and "host = pair_run sha256 admit own_name me es start" and "presents 32 m"
    and "map_of (spaces (snd (accept_pairing sha256 admit own_name me now remote m host))) sp \<noteq> map_of (spaces host) sp"
  shows "\<exists>i name. m = Request (proof_of sha256 (invite_secret i) remote me) name remote \<and> invite_space i = sp \<and>
    now < invite_expires i \<and> stands es i \<and>
    (\<exists>members members'. map_of (spaces host) sp = Some members \<and>
       admit remote (sanitize_device_name name) members = Inr members' \<and>
       map_of (spaces (snd (accept_pairing sha256 admit own_name me now remote m host))) sp = Some members')"
proof -
  obtain presented name where m: "m = Request presented name remote"
    using assms(6) by (auto simp: accept_pairing_def Let_def split: pair_message.splits option.splits if_splits)
  with assms(1,5) have len: "\<And>x. length (sha256 x) = length presented" by (simp add: presents_def hash_size_def)
  obtain r js where r: "redeem sha256 now presented remote me (book host) = (r, js)" by force
  then obtain i where i: "r = Some i"
    using assms(6) m by (cases r) (auto simp: accept_pairing_def Let_def)
  from redeem_Some [OF r [unfolded i] len]
  have inv: "presented = proof_of sha256 (invite_secret i) remote me" "now < invite_expires i" "i \<in> set (book host)" by blast+
  have "stands es i" using book_stands [OF assms(1,2,3)] inv(3) assms(4) by blast
  moreover have "invite_space i = sp \<and> (\<exists>members members'. map_of (spaces host) sp = Some members \<and>
       admit remote (sanitize_device_name name) members = Inr members' \<and>
       map_of (spaces (snd (accept_pairing sha256 admit own_name me now remote m host))) sp = Some members')"
    using assms(6) m r i
    by (auto simp: accept_pairing_def Let_def update_conv' split: option.splits sum.splits if_splits)
  ultimately show ?thesis using m inv by blast
qed

theorem device_joins_only_by_invitation_witness:
  "\<exists>i. stands [sample_invite] i \<and> invite_space i = SpaceId [1] \<and> 1 < invite_expires i"
proof -
  let ?admit = "\<lambda>d n ms. Inr (d # ms)"
  let ?start = "\<lparr>book = [], spaces = [(SpaceId [1], [])]\<rparr>"
  let ?host = "pair_run (\<lambda>_. replicate 32 0) ?admit [] [9] [sample_invite] ?start"
  have h: "hash_size 32 (\<lambda>_. replicate 32 0)" "list_all (event_ok 32) [sample_invite]" "book ?start = []" "?host = ?host"
    "presents 32 sample_request"
    by (simp_all add: hash_size_def sample_invite_def sample_request_def presents_def)
  have "map_of (spaces (snd (accept_pairing (\<lambda>_. replicate 32 0) ?admit [] [9] 1 [5] sample_request ?host)))
      (SpaceId [1]) \<noteq> map_of (spaces ?host) (SpaceId [1])"
    by (simp add: pair_run_def sample_invite_def sample_request_def issue_def accept_pairing_def redeem_def
        proof_of_def constant_time_eq_iff INVITE_TTL_def seconds_def)
  from device_joins_only_by_invitation [OF h this] show ?thesis by blast
qed

text \<open>Device names.\<close>

lemma device_name_fits:
  "utf8_length (sanitize_device_name raw) \<le> 64 \<and> list_all (\<lambda>c. \<not> is_control c) (sanitize_device_name raw) \<and>
   (\<exists>n. sanitize_device_name raw = take n (trim (filter (\<lambda>c. \<not> is_control c) raw)))"
proof -
  let ?s = "trim (filter (\<lambda>c. \<not> is_control c) raw)"
  have "utf8_length [] \<le> 64" by (simp add: utf8_length_def)
  from take_bytes_spec [OF this, of ?s] obtain n where n: "sanitize_device_name raw = take n ?s" "utf8_length (take n ?s) \<le> 64"
    by (auto simp: sanitize_device_name_def)
  have "list_all (\<lambda>c. \<not> is_control c) (take n ?s)"
    using set_trim [of "filter (\<lambda>c. \<not> is_control c) raw"] by (auto simp: list_all_iff dest!: in_set_takeD)
  with n show ?thesis by auto
qed

end
