(* ===== verification/Sync_Link.thy ===== *)
theory Sync_Link
  imports Sync_Wire "HOL-Library.AList" "HOL-Library.List_Lexorder"
begin

text \<open>
  Crate \<open>vt-sync\<close>, \<open>engine.rs\<close> and \<open>store.rs\<close>: one connection between two devices of a space.
  The store of the documents is the caller's: its operations are the record \<open>store_ops\<close>. A link
  is what the reading and the writing loop of a connection share. Every iteration of a loop is one
  step: what it reads from the store is what it acts on. \<open>up\<close> tells whether a store call returns
  (it does not when the store panics, and \<open>with_store\<close> then gives \<open>None\<close>).
\<close>

section \<open>The store\<close>

datatype store_error = NotAccepted docid | StoreRejected ustring | StoreFailed ustring

record 'st store_ops =
  summary_of :: "'st \<Rightarrow> (docid \<times> digest) list"
  digest_of :: "'st \<Rightarrow> docid \<Rightarrow> digest option"
  version_of :: "'st \<Rightarrow> docid \<Rightarrow> bytes option"
  updates_since :: "'st \<Rightarrow> docid \<Rightarrow> bytes \<Rightarrow> bytes option"
  apply_update :: "'st \<Rightarrow> docid \<Rightarrow> bytes \<Rightarrow> (store_error + bool) \<times> 'st"
  accepts_doc :: "'st \<Rightarrow> docid \<Rightarrow> bool"

definition with_store :: "bool \<Rightarrow> 'a \<Rightarrow> 'a option" where
  "with_store up x = (if up then Some x else None)"

section \<open>The link\<close>

datatype outbound = SendSummary | SendRequestSummary | SendWant docid | Serve docid bytes

record link =
  dialed_by_me :: bool
  established :: instant
  dirty :: "docid list"
  in_flight :: nat
  control :: "outbound list"
  pending :: "(docid \<times> bool) list"
  assembling :: "(docid \<times> bytes) option"

definition new_link :: "bool \<Rightarrow> instant \<Rightarrow> link" where
  "new_link by_me now = \<lparr>dialed_by_me = by_me, established = now, dirty = [], in_flight = 0,
     control = [SendSummary], pending = [], assembling = None\<rparr>"

text \<open>\<open>BTreeSet::insert\<close> into the set of changed documents.\<close>

definition mark_dirty :: "docid \<Rightarrow> link \<Rightarrow> link" where
  "mark_dirty doc l = l\<lparr>dirty := insort_insert doc (dirty l)\<rparr>"

definition enqueue :: "outbound \<Rightarrow> link \<Rightarrow> link" where
  "enqueue out l = l\<lparr>control := control l @ [out]\<rparr>"

section \<open>The reading loop\<close>

definition wanted :: "'st store_ops \<Rightarrow> 'st \<Rightarrow> (docid \<times> digest) list \<Rightarrow> docid list" where
  "wanted ops st docs =
     map fst (filter (\<lambda>(doc, digest). case digest_of ops st doc of
         Some mine \<Rightarrow> mine \<noteq> digest | None \<Rightarrow> accepts_doc ops st doc) docs)"

fun want_all :: "docid list \<Rightarrow> link \<Rightarrow> link" where
  "want_all [] l = l"
| "want_all (doc # docs) l =
     want_all docs
       (if map_of (pending l) doc \<noteq> None then l\<lparr>pending := AList.update doc True (pending l)\<rparr>
        else enqueue (SendWant doc) (l\<lparr>pending := AList.update doc False (pending l)\<rparr>))"

text \<open>What an iteration leaves: the link, the store, the document that changed and so goes to the
  other links (\<open>fan_out\<close>), and whether the peer counts as synced now (\<open>synced_at\<close>).\<close>

record 'st reading =
  read_link :: link
  read_store :: 'st
  fan_out :: "docid option"
  marked_synced :: bool

definition count_pending :: "'st reading \<Rightarrow> 'st reading" where
  "count_pending r = r\<lparr>read_link := (read_link r)\<lparr>in_flight := length (pending (read_link r))\<rparr>\<rparr>"

definition on_summary ::
    "'st store_ops \<Rightarrow> bool \<Rightarrow> (docid \<times> digest) list \<Rightarrow> bool \<Rightarrow> link \<Rightarrow> 'st \<Rightarrow> 'st reading" where
  "on_summary ops up docs whole l st =
     (let l' = want_all (case with_store up (wanted ops st docs) of None \<Rightarrow> [] | Some ds \<Rightarrow> ds) l
      in \<lparr>read_link = l', read_store = st, fan_out = None, marked_synced = (whole \<and> pending l' = [])\<rparr>)"

text \<open>The buffer of the update being received, after one more block.\<close>

definition assemble :: "docid \<Rightarrow> bytes \<Rightarrow> (docid \<times> bytes) option \<Rightarrow> wire_error + bytes" where
  "assemble doc bs buffered =
     (let joined = (case buffered of
            Some (current, buffer) \<Rightarrow>
              if current = doc then Inr (buffer @ bs)
              else Inl (WireIo [20004, 20221, 24046, 37327, 20132, 38169])
          | None \<Rightarrow> Inr bs)
      in case joined of
           Inl e \<Rightarrow> Inl e
         | Inr buffer \<Rightarrow> if length buffer > MAX_UPDATE_BYTES then Inl (TooLarge (length buffer)) else Inr buffer)"

definition apply_received ::
    "'st store_ops \<Rightarrow> bool \<Rightarrow> docid \<Rightarrow> bytes \<Rightarrow> 'st \<Rightarrow> docid option \<times> 'st" where
  "apply_received ops up doc update st =
     (if update = [] then (None, st)
      else case with_store up (apply_update ops st doc update) of
             Some (Inr True, st') \<Rightarrow> (Some doc, st')
           | Some (_, st') \<Rightarrow> (None, st')
           | None \<Rightarrow> (None, st))"

definition finish_update ::
    "'st store_ops \<Rightarrow> bool \<Rightarrow> docid \<Rightarrow> bytes \<Rightarrow> bool \<Rightarrow> link \<Rightarrow> 'st \<Rightarrow> 'st reading" where
  "finish_update ops up doc update stale l st =
     (let (changed, st') = apply_received ops up doc update st;
          l1 = l\<lparr>pending := AList.delete doc (pending l)\<rparr>;
          l2 = (if stale then enqueue (SendWant doc) (l1\<lparr>pending := AList.update doc False (pending l1)\<rparr>) else l1)
      in \<lparr>read_link = l2, read_store = st', fan_out = changed, marked_synced = (pending l2 = [])\<rparr>)"

definition on_update ::
    "'st store_ops \<Rightarrow> bool \<Rightarrow> docid \<Rightarrow> bytes \<Rightarrow> bool \<Rightarrow> link \<Rightarrow> 'st \<Rightarrow> wire_error + 'st reading" where
  "on_update ops up doc bs is_last l st =
     (case assemble doc bs (assembling l) of
        Inl e \<Rightarrow> Inl e
      | Inr buffer \<Rightarrow>
          if \<not> is_last then
            Inr \<lparr>read_link = l\<lparr>assembling := Some (doc, buffer)\<rparr>, read_store = st, fan_out = None,
                 marked_synced = False\<rparr>
          else case map_of (pending l) doc of
            None \<Rightarrow> Inr \<lparr>read_link = l\<lparr>assembling := None\<rparr>, read_store = st, fan_out = None,
                       marked_synced = False\<rparr>
          | Some stale \<Rightarrow> Inr (count_pending (finish_update ops up doc buffer stale (l\<lparr>assembling := None\<rparr>) st)))"

text \<open>One iteration of \<open>read_loop\<close> on a message.\<close>

definition read_step ::
    "'st store_ops \<Rightarrow> bool \<Rightarrow> sync_message \<Rightarrow> link \<Rightarrow> 'st \<Rightarrow> wire_error + 'st reading" where
  "read_step ops up m l st =
     (case m of
        Hello _ _ \<Rightarrow> Inl (WireIo ([37325, 22797, 30340] @ lit '' Hello''))
      | Summary docs whole \<Rightarrow> Inr (count_pending (on_summary ops up docs whole l st))
      | Want doc version \<Rightarrow>
          Inr (count_pending \<lparr>read_link = enqueue (Serve doc version) l, read_store = st, fan_out = None,
            marked_synced = False\<rparr>)
      | RequestSummary \<Rightarrow>
          Inr (count_pending \<lparr>read_link = enqueue SendSummary l, read_store = st, fan_out = None,
            marked_synced = False\<rparr>)
      | Update doc bs is_last \<Rightarrow> on_update ops up doc bs is_last l st)"

section \<open>The writing loop\<close>

fun blocks :: "nat \<Rightarrow> bytes \<Rightarrow> bytes list" where
  "blocks n [] = []"
| "blocks n (b # bs) = take (Suc n) (b # bs) # blocks n (drop n bs)"

text \<open>\<open>update.chunks(UPDATE_CHUNK_BYTES)\<close>, each in its frame, the last one marked.\<close>

definition write_update :: "docid \<Rightarrow> bytes \<Rightarrow> sync_message list" where
  "write_update doc update =
     (if update = [] then [Update doc [] True]
      else let cs = blocks (UPDATE_CHUNK_BYTES - 1) update
           in map (\<lambda>c. Update doc c False) (butlast cs) @ [Update doc (last cs) True])"

definition write_item :: "'st store_ops \<Rightarrow> bool \<Rightarrow> 'st \<Rightarrow> outbound \<Rightarrow> sync_message list" where
  "write_item ops up st out =
     (case out of
        SendSummary \<Rightarrow>
          [Summary (case with_store up (summary_of ops st) of None \<Rightarrow> [] | Some docs \<Rightarrow> docs) True]
      | SendRequestSummary \<Rightarrow> [RequestSummary]
      | SendWant doc \<Rightarrow>
          [Want doc (case with_store up (version_of ops st doc) of Some (Some v) \<Rightarrow> v | _ \<Rightarrow> [])]
      | Serve doc from \<Rightarrow>
          write_update doc (case with_store up (updates_since ops st doc from) of Some (Some u) \<Rightarrow> u | _ \<Rightarrow> []))"

text \<open>The branch on \<open>dirty_signal\<close>.\<close>

definition announce :: "'st store_ops \<Rightarrow> bool \<Rightarrow> 'st \<Rightarrow> docid list \<Rightarrow> sync_message list" where
  "announce ops up st docs =
     (case with_store up (concat (map (\<lambda>doc. case digest_of ops st doc of None \<Rightarrow> [] | Some d \<Rightarrow> [(doc, d)]) docs)) of
        None \<Rightarrow> [] | Some [] \<Rightarrow> [] | Some digests \<Rightarrow> [Summary digests False])"

section \<open>Opening a connection\<close>

text \<open>The dialing side goes on after the other side's hello; the accepting side, which also knows
  who called, answers only a member of a space it has.\<close>

definition hello :: "space_id \<Rightarrow> sync_message" where
  "hello space = Hello space PROTOCOL_VERSION"

definition dialer_accepts :: "space_id \<Rightarrow> sync_message \<Rightarrow> bool" where
  "dialer_accepts space theirs =
     (case theirs of Hello their_space protocol \<Rightarrow> their_space = space \<and> protocol = PROTOCOL_VERSION | _ \<Rightarrow> False)"

datatype close_code = ByeBye | NotMember | UnknownSpace | Replaced

definition answer_hello ::
    "(space_id \<Rightarrow> bytes list option) \<Rightarrow> bytes \<Rightarrow> sync_message \<Rightarrow> close_code + space_id" where
  "answer_hello members_of remote theirs =
     (case theirs of
        Hello space protocol \<Rightarrow>
          if protocol \<noteq> PROTOCOL_VERSION then Inl UnknownSpace
          else (case members_of space of
                  None \<Rightarrow> Inl NotMember
                | Some members \<Rightarrow> if remote \<in> set members then Inr space else Inl NotMember)
      | _ \<Rightarrow> Inl UnknownSpace)"

definition RACE_WINDOW :: duration where
  "RACE_WINDOW = seconds 3"

text \<open>\<open>register\<close>: the connections of a space by device; the flag says whether the new one stays.
  A connection is identified by its number.\<close>

record conn =
  conn_id :: nat
  by_me :: bool
  since :: instant

definition register ::
    "bytes \<Rightarrow> bytes \<Rightarrow> instant \<Rightarrow> conn \<Rightarrow> (bytes \<times> conn) list \<Rightarrow> bool \<times> (bytes \<times> conn) list" where
  "register me device now new links =
     (case map_of links device of
        Some old \<Rightarrow>
          if now - since old < RACE_WINDOW \<and> by_me new \<noteq> (me < device) then (False, links)
          else (True, AList.update device new links)
      | None \<Rightarrow> (True, AList.update device new links))"

section \<open>Laws\<close>

lemma concat_blocks: "concat (blocks n bs) = bs"
  by (induction n bs rule: blocks.induct) auto

lemma blocks_Nil [simp]: "blocks n bs = [] \<longleftrightarrow> bs = []"
  by (cases bs) auto

lemma register_keeps:
  assumes "register me device now new links = (stays, links')"
  shows "map_of links' device = Some (if stays then new else the (map_of links device)) \<and>
    (\<not> stays \<longrightarrow> map_of links device \<noteq> None)"
  using assms by (auto simp: register_def update_conv' split: option.splits if_splits)

text \<open>C31. Two devices that dial each other at the same time keep the same one of the two connections.\<close>

theorem both_sides_keep_the_same_connection:
  assumes "low < high"
    and "{first_low, second_low} = {\<lparr>conn_id = m, by_me = True, since = u\<rparr>, \<lparr>conn_id = n, by_me = False, since = v\<rparr>}"
    and "{first_high, second_high} = {\<lparr>conn_id = m, by_me = False, since = x\<rparr>, \<lparr>conn_id = n, by_me = True, since = y\<rparr>}"
    and "map_of links_low high = None" and "map_of links_high low = None"
    and "since second_low - since first_low < RACE_WINDOW" and "since second_high - since first_high < RACE_WINDOW"
    and "register low high (since first_low) first_low links_low = (f, lm)"
    and "register low high (since second_low) second_low lm = (g, ls)"
    and "register high low (since first_high) first_high links_high = (h, hm)"
    and "register high low (since second_high) second_high hm = (k, hs)"
  shows "map_option conn_id (map_of ls high) = Some m \<and> map_option conn_id (map_of hs low) = Some m"
proof -
  have "\<not> high < low" using assms(1) by (rule less_not_sym)
  have "lm = AList.update high first_low links_low" using assms(4,8) by (simp add: register_def)
  then have "map_option conn_id (map_of ls high) = Some m"
    using assms(1,2,6,9) by (auto simp: register_def update_conv' doubleton_eq_iff split: if_splits)
  moreover have "hm = AList.update low first_high links_high" using assms(5,10) by (simp add: register_def)
  then have "map_option conn_id (map_of hs low) = Some m"
    using \<open>\<not> high < low\<close> assms(3,7,11) by (auto simp: register_def update_conv' doubleton_eq_iff split: if_splits)
  ultimately show ?thesis by simp
qed

theorem both_sides_keep_the_same_connection_witness:
  "map_option conn_id (map_of (snd (register [1] [2] (seconds 2) \<lparr>conn_id = 8, by_me = False, since = seconds 2\<rparr>
       [([2], \<lparr>conn_id = 7, by_me = True, since = 0\<rparr>)])) [2]) = Some 7 \<and>
   map_option conn_id (map_of (snd (register [2] [1] (seconds 1) \<lparr>conn_id = 7, by_me = False, since = seconds 1\<rparr>
       [([1], \<lparr>conn_id = 8, by_me = True, since = 0\<rparr>)])) [1]) = Some 7"
proof (rule both_sides_keep_the_same_connection [where low = "[1]" and high = "[2]" and links_low = "[]"
      and links_high = "[]" and m = 7 and n = 8
      and u = 0 and v = "seconds 2" and x = "seconds 1" and y = 0
      and first_low = "\<lparr>conn_id = 7, by_me = True, since = 0\<rparr>"
      and second_low = "\<lparr>conn_id = 8, by_me = False, since = seconds 2\<rparr>"
      and first_high = "\<lparr>conn_id = 8, by_me = True, since = 0\<rparr>"
      and second_high = "\<lparr>conn_id = 7, by_me = False, since = seconds 1\<rparr>"
      and f = True and h = True and g = False and k = True
      and lm = "[([2], \<lparr>conn_id = 7, by_me = True, since = 0\<rparr>)]"
      and hm = "[([1], \<lparr>conn_id = 8, by_me = True, since = 0\<rparr>)]"])
qed (auto simp: register_def RACE_WINDOW_def seconds_def)

text \<open>The window is measured by each side on its own: where one side sees a race and the other does
  not, each closes the connection the other keeps.\<close>

lemma race_seen_by_one_side:
  "snd (register [1] [2] (seconds 2) \<lparr>conn_id = 8, by_me = False, since = seconds 2\<rparr>
     [([2], \<lparr>conn_id = 7, by_me = True, since = 0\<rparr>)]) = [([2], \<lparr>conn_id = 7, by_me = True, since = 0\<rparr>)]"
  "snd (register [2] [1] (seconds 4) \<lparr>conn_id = 8, by_me = True, since = seconds 4\<rparr>
     [([1], \<lparr>conn_id = 7, by_me = False, since = 0\<rparr>)]) = [([1], \<lparr>conn_id = 8, by_me = True, since = seconds 4\<rparr>)]"
  by (simp_all add: register_def RACE_WINDOW_def seconds_def)

lemma want_all_store: "read_store (on_summary ops up docs whole l st) = st"
  by (simp add: on_summary_def Let_def)

text \<open>C30. Only what was asked for is merged: whatever the other side sends, a reading changes the store
  only with the last block of an update of a document this side has requested.\<close>

theorem only_requested_updates_are_applied:
  assumes "read_step ops up m l st = Inr r" and "read_store r \<noteq> st"
  shows "\<exists>doc bs. m = Update doc bs True \<and> map_of (pending l) doc \<noteq> None \<and>
    (\<exists>u. assemble doc bs (assembling l) = Inr u \<and> u \<noteq> [] \<and> read_store r = snd (apply_update ops st doc u))"
  using assms
  by (auto simp: read_step_def on_update_def count_pending_def on_summary_def finish_update_def apply_received_def
      with_store_def Let_def split: sync_message.splits sum.splits if_splits option.splits prod.splits bool.splits)

text \<open>A store that keeps, for each document, its whole content as one byte string.\<close>

definition flat_store :: "(docid \<times> bytes) list store_ops" where
  "flat_store = \<lparr>summary_of = \<lambda>st. st, digest_of = map_of, version_of = map_of,
     updates_since = \<lambda>st doc v. map_of st doc,
     apply_update = \<lambda>st doc u. (Inr (map_of st doc \<noteq> Some u), AList.update doc u st),
     accepts_doc = \<lambda>st doc. True\<rparr>"

theorem only_requested_updates_are_applied_witness:
  "\<exists>doc bs. Update [97] [9] True = Update doc bs True \<and> map_of [([97], False)] doc \<noteq> None \<and>
    (\<exists>u. assemble doc bs None = Inr u \<and> u \<noteq> [] \<and>
      read_store \<lparr>read_link = (new_link True 0)\<lparr>control := [SendSummary]\<rparr>, read_store = [([97], [9])],
        fan_out = Some [97], marked_synced = True\<rparr> = snd (apply_update flat_store [] doc u))"
  using only_requested_updates_are_applied [where ops = flat_store and up = True
      and m = "Update [97] [9] True" and l = "(new_link True 0)\<lparr>pending := [([97], False)]\<rparr>" and st = "[]"
      and r = "\<lparr>read_link = (new_link True 0)\<lparr>control := [SendSummary]\<rparr>, read_store = [([97], [9])],
        fan_out = Some [97], marked_synced = True\<rparr>"]
  by (simp add: read_step_def on_update_def count_pending_def finish_update_def apply_received_def assemble_def
      with_store_def flat_store_def new_link_def MAX_UPDATE_BYTES_def)

text \<open>A store call that panics is treated as an empty answer: a full summary then counts as synced, and
  an update that could not be merged as merged.\<close>

lemma panic_counts_as_synced:
  "pending l = [] \<Longrightarrow> marked_synced (on_summary ops False docs True l st)"
  by (simp add: on_summary_def with_store_def)

lemma refused_update_counts_as_synced:
  "pending l = [(doc, False)] \<Longrightarrow> u \<noteq> [] \<Longrightarrow> apply_update ops st doc u = (Inl e, st) \<Longrightarrow>
    marked_synced (finish_update ops True doc u False l st) \<and> read_store (finish_update ops True doc u False l st) = st"
  by (simp add: finish_update_def apply_received_def with_store_def)

end
