(* ===== verification/Sync_Net.thy ===== *)
theory Sync_Net
  imports Sync_Link
begin

text \<open>
  A space with any number of devices: every device has its store, every connection two links and
  the messages under way in either direction. A step is one iteration of a loop of one connection,
  a connection that comes up or goes down, or a change of a store by its user. The stores are
  lawful: what the engine's documentation asks of \<open>DocumentStore\<close>.
\<close>

section \<open>What the engine asks of a store\<close>

text \<open>\<open>changes st doc\<close> are the changes a document consists of. \<open>known\<close> are the changes a version
  stands for, \<open>payload\<close> those an update brings and \<open>needs\<close> those it builds upon.\<close>

record ('st, 'c) meaning =
  changes :: "'st \<Rightarrow> docid \<Rightarrow> 'c set option"
  known :: "bytes \<Rightarrow> 'c set"
  payload :: "bytes \<Rightarrow> 'c set"
  needs :: "bytes \<Rightarrow> 'c set"

definition content :: "('st, 'c) meaning \<Rightarrow> 'st \<Rightarrow> docid \<Rightarrow> 'c set" where
  "content mg st doc = (case changes mg st doc of None \<Rightarrow> {} | Some cs \<Rightarrow> cs)"

definition takes :: "'st store_ops \<Rightarrow> 'st \<Rightarrow> docid \<Rightarrow> bool" where
  "takes ops st doc \<longleftrightarrow> digest_of ops st doc \<noteq> None \<or> accepts_doc ops st doc"

definition lawful_reads :: "'st store_ops \<Rightarrow> ('st, 'c) meaning \<Rightarrow> bool" where
  "lawful_reads ops mg \<longleftrightarrow>
     known mg [] = {} \<and> payload mg [] = {} \<and> needs mg [] = {} \<and>
     (\<forall>st doc. (digest_of ops st doc = None \<longleftrightarrow> changes mg st doc = None) \<and>
        (version_of ops st doc = None \<longleftrightarrow> changes mg st doc = None)) \<and>
     (\<forall>st st' doc d. digest_of ops st doc = Some d \<and> digest_of ops st' doc = Some d \<longrightarrow>
        changes mg st doc = changes mg st' doc) \<and>
     (\<forall>st doc v. version_of ops st doc = Some v \<longrightarrow> changes mg st doc = Some (known mg v)) \<and>
     (\<forall>st. set (summary_of ops st) = {(doc, d). digest_of ops st doc = Some d})"

definition lawful_updates :: "'st store_ops \<Rightarrow> ('st, 'c) meaning \<Rightarrow> bool" where
  "lawful_updates ops mg \<longleftrightarrow>
     (\<forall>st doc v. case updates_since ops st doc v of
          None \<Rightarrow> content mg st doc \<subseteq> known mg v
        | Some u \<Rightarrow> content mg st doc \<subseteq> known mg v \<union> payload mg u \<and> payload mg u \<subseteq> content mg st doc \<and>
            needs mg u \<subseteq> known mg v \<and> length u \<le> MAX_UPDATE_BYTES) \<and>
     (\<forall>st doc u. takes ops st doc \<and> needs mg u \<subseteq> content mg st doc \<longrightarrow>
        (\<exists>changed st'. apply_update ops st doc u = (Inr changed, st') \<and>
           changes mg st' doc = Some (content mg st doc \<union> payload mg u) \<and>
           (changed \<longleftrightarrow> content mg st' doc \<noteq> content mg st doc) \<and>
           (\<forall>other. other \<noteq> doc \<longrightarrow> changes mg st' other = changes mg st other) \<and>
           (\<forall>other. accepts_doc ops st' other = accepts_doc ops st other)))"

definition lawful :: "'st store_ops \<Rightarrow> ('st, 'c) meaning \<Rightarrow> bool" where
  "lawful ops mg \<longleftrightarrow> lawful_reads ops mg \<and> lawful_updates ops mg"

section \<open>The space\<close>

record ('d, 'st) net =
  stores :: "'d \<Rightarrow> 'st"
  links :: "'d \<Rightarrow> 'd \<Rightarrow> link option"
  wires :: "'d \<Rightarrow> 'd \<Rightarrow> sync_message list"

definition set2 :: "'d \<Rightarrow> 'd \<Rightarrow> 'v \<Rightarrow> ('d \<Rightarrow> 'd \<Rightarrow> 'v) \<Rightarrow> 'd \<Rightarrow> 'd \<Rightarrow> 'v" where
  "set2 a b v f = f(a := (f a)(b := v))"

lemma set2_apply [simp]: "set2 a b v f x y = (if x = a \<and> y = b then v else f x y)"
  by (simp add: set2_def)

text \<open>\<open>Space::fan_out\<close>: the document is marked on every link of the device but one.\<close>

definition fan :: "docid \<Rightarrow> 'd option \<Rightarrow> 'd \<Rightarrow> ('d, 'st) net \<Rightarrow> ('d, 'st) net" where
  "fan doc but a s = s\<lparr>links := (links s)(a := (\<lambda>b.
     if Some b = but then links s a b else map_option (mark_dirty doc) (links s a b)))\<rparr>"

definition fan_all :: "docid list \<Rightarrow> 'd \<Rightarrow> ('d, 'st) net \<Rightarrow> ('d, 'st) net" where
  "fan_all docs a s = fold (\<lambda>doc. fan doc None a) docs s"

definition refresh :: "'d \<Rightarrow> ('d, 'st) net \<Rightarrow> ('d, 'st) net" where
  "refresh a s = s\<lparr>links := (links s)(a := (\<lambda>b. map_option (enqueue SendRequestSummary) (links s a b)))\<rparr>"

definition connect :: "'d \<Rightarrow> 'd \<Rightarrow> instant \<Rightarrow> ('d, 'st) net \<Rightarrow> ('d, 'st) net" where
  "connect a b now s =
     s\<lparr>links := set2 a b (Some (new_link True now)) (set2 b a (Some (new_link False now)) (links s)),
       wires := set2 a b [] (set2 b a [] (wires s))\<rparr>"

definition disconnect :: "'d \<Rightarrow> 'd \<Rightarrow> ('d, 'st) net \<Rightarrow> ('d, 'st) net" where
  "disconnect a b s =
     s\<lparr>links := set2 a b None (set2 b a None (links s)), wires := set2 a b [] (set2 b a [] (wires s))\<rparr>"

definition apply_reading :: "'d \<Rightarrow> 'd \<Rightarrow> 'st reading \<Rightarrow> ('d, 'st) net \<Rightarrow> ('d, 'st) net" where
  "apply_reading b a r s =
     (let s' = s\<lparr>stores := (stores s)(b := read_store r), links := set2 b a (Some (read_link r)) (links s)\<rparr>
      in case fan_out r of None \<Rightarrow> s' | Some doc \<Rightarrow> fan doc (Some a) b s')"

text \<open>A device's user, or another program over the same store, changes documents: they only grow,
  the engine is told which, and when more documents are accepted it is asked to refresh.\<close>

definition grows :: "'st store_ops \<Rightarrow> ('st, 'c) meaning \<Rightarrow> 'st \<Rightarrow> 'st \<Rightarrow> docid list \<Rightarrow> bool \<Rightarrow> bool" where
  "grows ops mg st st' docs refreshes \<longleftrightarrow>
     (\<forall>doc. content mg st doc \<subseteq> content mg st' doc \<and> (changes mg st doc \<noteq> None \<longrightarrow> changes mg st' doc \<noteq> None) \<and>
        (content mg st doc \<noteq> content mg st' doc \<longrightarrow> doc \<in> set docs) \<and>
        (takes ops st doc \<longrightarrow> takes ops st' doc) \<and> (\<not> takes ops st doc \<and> takes ops st' doc \<longrightarrow> refreshes))"

inductive net_step :: "'st store_ops \<Rightarrow> ('st, 'c) meaning \<Rightarrow> ('d, 'st) net \<Rightarrow> ('d, 'st) net \<Rightarrow> bool"
  for ops :: "'st store_ops" and mg :: "('st, 'c) meaning" where
  Connect: "a \<noteq> b \<Longrightarrow> net_step ops mg s (connect a b now s)"
| Disconnect: "net_step ops mg s (disconnect a b s)"
| Edit: "grows ops mg (stores s a) st' docs refreshes \<Longrightarrow>
    net_step ops mg s ((if refreshes then refresh a else id) (fan_all docs a (s\<lparr>stores := (stores s)(a := st')\<rparr>)))"
| Refresh: "net_step ops mg s (refresh a s)"
| Tick: "links s a b = Some l \<Longrightarrow>
    net_step ops mg s (s\<lparr>wires := set2 a b (wires s a b @ write_item ops True (stores s a) SendSummary) (wires s)\<rparr>)"
| Write: "links s a b = Some l \<Longrightarrow> control l = out # rest \<Longrightarrow>
    net_step ops mg s (s\<lparr>links := set2 a b (Some (l\<lparr>control := rest\<rparr>)) (links s),
      wires := set2 a b (wires s a b @ write_item ops True (stores s a) out) (wires s)\<rparr>)"
| Announce: "links s a b = Some l \<Longrightarrow>
    net_step ops mg s (s\<lparr>links := set2 a b (Some (l\<lparr>dirty := []\<rparr>)) (links s),
      wires := set2 a b (wires s a b @ announce ops True (stores s a) (dirty l)) (wires s)\<rparr>)"
| Read: "links s b a = Some l \<Longrightarrow> wires s a b = m # ms \<Longrightarrow> read_step ops True m l (stores s b) = Inr r \<Longrightarrow>
    net_step ops mg s (apply_reading b a r (s\<lparr>wires := set2 a b ms (wires s)\<rparr>))"
| Fail: "links s b a = Some l \<Longrightarrow> wires s a b = m # ms \<Longrightarrow> read_step ops True m l (stores s b) = Inl e \<Longrightarrow>
    net_step ops mg s (disconnect a b s)"

definition unconnected :: "('d, 'st) net \<Rightarrow> bool" where
  "unconnected s \<longleftrightarrow> (\<forall>a b. links s a b = None \<and> wires s a b = [])"

inductive reachable_net ::
    "'st store_ops \<Rightarrow> ('st, 'c) meaning \<Rightarrow> ('d, 'st) net \<Rightarrow> bool"
  for ops :: "'st store_ops" and mg :: "('st, 'c) meaning" where
  Start: "unconnected s \<Longrightarrow> reachable_net ops mg s"
| Step: "reachable_net ops mg s \<Longrightarrow> net_step ops mg s t \<Longrightarrow> reachable_net ops mg t"

end
