(* ===== verification/Sync_Flow.thy ===== *)
theory Sync_Flow
  imports Sync_Net
begin

text \<open>
  One direction of a connection, from a device that has changes to one that may lack them. A flow is
  what matters of it: the requests on their way and the answers, the announced digests, what is
  still to be announced. \<open>flow_inv\<close> says that every pending request has exactly one token somewhere
  on its way, and that whatever the receiver lacks is announced, requested or under way.
\<close>

section \<open>Updates in a stream of messages\<close>

fun stream :: "(docid \<times> bytes) option \<Rightarrow> sync_message list \<Rightarrow> (docid \<times> bytes) list option" where
  "stream None [] = Some []"
| "stream (Some x) [] = None"
| "stream None (Update doc bs is_last # ms) =
     (if is_last then map_option (Cons (doc, bs)) (stream None ms) else stream (Some (doc, bs)) ms)"
| "stream (Some (current, buffer)) (Update doc bs is_last # ms) =
     (if current \<noteq> doc then None
      else if is_last then map_option (Cons (doc, buffer @ bs)) (stream None ms)
      else stream (Some (doc, buffer @ bs)) ms)"
| "stream x (Hello _ _ # ms) = stream x ms"
| "stream x (Summary _ _ # ms) = stream x ms"
| "stream x (Want _ _ # ms) = stream x ms"
| "stream x (RequestSummary # ms) = stream x ms"

lemma stream_append: "stream x ms = Some us \<Longrightarrow> stream x (ms @ ns) = map_option ((@) us) (stream None ns)"
  by (induction x ms arbitrary: us rule: stream.induct; cases "stream None ns") (auto split: if_splits)

lemma stream_chunks:
  "stream (Some (doc, buffer)) (map (\<lambda>c. Update doc c False) cs @ [Update doc c True]) = Some [(doc, buffer @ concat cs @ c)]"
  by (induction cs arbitrary: buffer) simp_all

lemma stream_write_update: "stream None (write_update doc u) = Some [(doc, u)]"
proof (cases "u = []")
  case False
  let ?cs = "blocks (UPDATE_CHUNK_BYTES - 1) u"
  have "concat (butlast ?cs @ [last ?cs]) = u" using False by (simp add: concat_blocks)
  then have u: "concat (butlast ?cs) @ last ?cs = u" by simp
  then show ?thesis
    using False stream_chunks [of doc "hd (butlast ?cs)" "tl (butlast ?cs)" "last ?cs"]
    by (cases "butlast ?cs") (simp_all add: write_update_def Let_def)
qed (simp add: write_update_def)

lemma stream_prefix: "stream (Some (doc, buffer)) ms = Some us \<Longrightarrow> \<exists>rest us'. us = (doc, buffer @ rest) # us'"
proof (induction ms arbitrary: buffer us)
  case (Cons m ms)
  then show ?case by (cases m) (fastforce split: if_splits)+
qed simp

section \<open>The view of a flow\<close>

definition want_docs :: "outbound list \<Rightarrow> docid list" where
  "want_docs outs = concat (map (\<lambda>x. case x of SendWant doc \<Rightarrow> [doc] | _ \<Rightarrow> []) outs)"

definition serve_docs :: "outbound list \<Rightarrow> (docid \<times> bytes) list" where
  "serve_docs outs = concat (map (\<lambda>x. case x of Serve doc v \<Rightarrow> [(doc, v)] | _ \<Rightarrow> []) outs)"

definition asked_docs :: "sync_message list \<Rightarrow> (docid \<times> bytes) list" where
  "asked_docs ms = concat (map (\<lambda>m. case m of Want doc v \<Rightarrow> [(doc, v)] | _ \<Rightarrow> []) ms)"

definition entries :: "sync_message list \<Rightarrow> (docid \<times> digest) list" where
  "entries ms = concat (map (\<lambda>m. case m of Summary docs whole \<Rightarrow> docs | _ \<Rightarrow> []) ms)"

lemma views_append [simp]:
  "want_docs (xs @ ys) = want_docs xs @ want_docs ys" "serve_docs (xs @ ys) = serve_docs xs @ serve_docs ys"
  "asked_docs (ms @ ns) = asked_docs ms @ asked_docs ns" "entries (ms @ ns) = entries ms @ entries ns"
  by (simp_all add: want_docs_def serve_docs_def asked_docs_def entries_def)

lemma views_Nil [simp]: "want_docs [] = []" "serve_docs [] = []" "asked_docs [] = []" "entries [] = []"
  by (simp_all add: want_docs_def serve_docs_def asked_docs_def entries_def)

lemma want_docs_Cons [simp]:
  "want_docs (SendWant doc # xs) = doc # want_docs xs" "want_docs (SendSummary # xs) = want_docs xs"
  "want_docs (SendRequestSummary # xs) = want_docs xs" "want_docs (Serve doc v # xs) = want_docs xs"
  "serve_docs (SendWant doc # xs) = serve_docs xs" "serve_docs (SendSummary # xs) = serve_docs xs"
  "serve_docs (SendRequestSummary # xs) = serve_docs xs" "serve_docs (Serve doc v # xs) = (doc, v) # serve_docs xs"
  by (simp_all add: want_docs_def serve_docs_def)

lemma asked_docs_Cons [simp]:
  "asked_docs (Want doc v # ms) = (doc, v) # asked_docs ms" "asked_docs (Hello sp p # ms) = asked_docs ms"
  "asked_docs (Summary docs w # ms) = asked_docs ms" "asked_docs (RequestSummary # ms) = asked_docs ms"
  "asked_docs (Update doc bs l # ms) = asked_docs ms"
  "entries (Want doc v # ms) = entries ms" "entries (Hello sp p # ms) = entries ms"
  "entries (Summary docs w # ms) = docs @ entries ms" "entries (RequestSummary # ms) = entries ms"
  "entries (Update doc bs l # ms) = entries ms"
  by (simp_all add: asked_docs_def entries_def)

record link_flow =
  to_request :: "docid list"
  requested :: "(docid \<times> bytes) list"
  to_serve :: "(docid \<times> bytes) list"
  updates :: "(docid \<times> bytes) list"
  announced :: "(docid \<times> digest) list"
  awaited :: "docid \<Rightarrow> bool option"
  unannounced :: "docid set"
  summary_due :: bool

definition flow_of ::
    "link \<Rightarrow> link \<Rightarrow> sync_message list \<Rightarrow> sync_message list \<Rightarrow> (docid \<times> bytes) list \<Rightarrow> link_flow" where
  "flow_of la lb to_b to_a us =
     \<lparr>to_request = want_docs (control lb), requested = asked_docs to_a, to_serve = serve_docs (control la),
      updates = us, announced = entries to_b, awaited = map_of (pending lb), unannounced = set (dirty la),
      summary_due = (SendSummary \<in> set (control la) \<or> RequestSummary \<in> set to_a \<or>
        SendRequestSummary \<in> set (control lb))\<rparr>"

definition tokens :: "link_flow \<Rightarrow> docid \<Rightarrow> nat" where
  "tokens fl doc = count_list (to_request fl) doc + count_list (map fst (requested fl)) doc +
     count_list (map fst (to_serve fl)) doc + count_list (map fst (updates fl)) doc"

definition coming :: "'st store_ops \<Rightarrow> ('st, 'c) meaning \<Rightarrow> link_flow \<Rightarrow> docid \<Rightarrow> 'c set" where
  "coming ops mg fl doc =
     {c. (\<exists>d st. (doc, d) \<in> set (announced fl) \<and> digest_of ops st doc = Some d \<and> c \<in> content mg st doc) \<or>
         (\<exists>u. (doc, u) \<in> set (updates fl) \<and> c \<in> payload mg u)}"

definition on_its_way :: "link_flow \<Rightarrow> docid \<Rightarrow> bool" where
  "on_its_way fl doc \<longleftrightarrow> doc \<in> unannounced fl \<or> summary_due fl \<or> awaited fl doc = Some True \<or>
     doc \<in> set (to_request fl) \<or> doc \<in> fst ` set (requested fl) \<or> doc \<in> fst ` set (to_serve fl)"

definition flow_inv :: "'st store_ops \<Rightarrow> ('st, 'c) meaning \<Rightarrow> 'st \<Rightarrow> 'st \<Rightarrow> link_flow \<Rightarrow> bool" where
  "flow_inv ops mg A B fl \<longleftrightarrow>
     (\<forall>doc. tokens fl doc = (if awaited fl doc = None then 0 else 1)) \<and>
     (\<forall>(doc, v) \<in> set (requested fl) \<union> set (to_serve fl). known mg v \<subseteq> content mg B doc) \<and>
     (\<forall>(doc, u) \<in> set (updates fl). needs mg u \<subseteq> content mg B doc \<and> payload mg u \<subseteq> content mg A doc \<and>
        length u \<le> MAX_UPDATE_BYTES) \<and>
     (\<forall>doc. awaited fl doc \<noteq> None \<longrightarrow> takes ops B doc) \<and>
     (\<forall>doc. takes ops B doc \<longrightarrow> on_its_way fl doc \<or> content mg A doc \<subseteq> content mg B doc \<union> coming ops mg fl doc)"

lemma flow_invI:
  assumes "\<And>doc. tokens fl doc = (if awaited fl doc = None then 0 else 1)"
    and "\<And>doc v. (doc, v) \<in> set (requested fl) \<union> set (to_serve fl) \<Longrightarrow> known mg v \<subseteq> content mg B doc"
    and "\<And>doc u. (doc, u) \<in> set (updates fl) \<Longrightarrow>
      needs mg u \<subseteq> content mg B doc \<and> payload mg u \<subseteq> content mg A doc \<and> length u \<le> MAX_UPDATE_BYTES"
    and "\<And>doc. awaited fl doc \<noteq> None \<Longrightarrow> takes ops B doc"
    and "\<And>doc. takes ops B doc \<Longrightarrow> \<not> on_its_way fl doc \<Longrightarrow> content mg A doc \<subseteq> content mg B doc \<union> coming ops mg fl doc"
  shows "flow_inv ops mg A B fl"
  unfolding flow_inv_def using assms by blast

lemma flow_invD:
  assumes "flow_inv ops mg A B fl"
  shows "tokens fl doc = (if awaited fl doc = None then 0 else 1)"
    and "(doc, v) \<in> set (requested fl) \<union> set (to_serve fl) \<Longrightarrow> known mg v \<subseteq> content mg B doc"
    and "(doc, u) \<in> set (updates fl) \<Longrightarrow>
      needs mg u \<subseteq> content mg B doc \<and> payload mg u \<subseteq> content mg A doc \<and> length u \<le> MAX_UPDATE_BYTES"
    and "awaited fl doc \<noteq> None \<Longrightarrow> takes ops B doc"
    and "takes ops B doc \<Longrightarrow> \<not> on_its_way fl doc \<Longrightarrow> content mg A doc \<subseteq> content mg B doc \<union> coming ops mg fl doc"
  using assms unfolding flow_inv_def by blast+

section \<open>Changes of the stores\<close>

lemma flow_sender_grows:
  assumes inv: "flow_inv ops mg A B fl" and grow: "\<And>doc. content mg A doc \<subseteq> content mg A' doc"
    and told: "\<And>doc. doc \<notin> docs \<Longrightarrow> content mg A' doc \<subseteq> content mg A doc \<union> content mg B doc"
  shows "flow_inv ops mg A' B (fl\<lparr>unannounced := unannounced fl \<union> docs\<rparr>)"
proof (rule flow_invI)
  fix doc
  have same: "tokens (fl\<lparr>unannounced := X\<rparr>) doc = tokens fl doc" "coming ops mg (fl\<lparr>unannounced := X\<rparr>) = coming ops mg fl" for X
    by (simp_all add: tokens_def coming_def fun_eq_iff)
  show "tokens (fl\<lparr>unannounced := unannounced fl \<union> docs\<rparr>) doc =
      (if awaited (fl\<lparr>unannounced := unannounced fl \<union> docs\<rparr>) doc = None then 0 else 1)"
    using flow_invD(1) [OF inv] by (simp add: same)
  show "known mg v \<subseteq> content mg B doc" if "(doc, v) \<in> set (requested (fl\<lparr>unannounced := unannounced fl \<union> docs\<rparr>)) \<union>
      set (to_serve (fl\<lparr>unannounced := unannounced fl \<union> docs\<rparr>))" for v
    using flow_invD(2) [OF inv] that by simp
  show "needs mg u \<subseteq> content mg B doc \<and> payload mg u \<subseteq> content mg A' doc \<and> length u \<le> MAX_UPDATE_BYTES"
    if "(doc, u) \<in> set (updates (fl\<lparr>unannounced := unannounced fl \<union> docs\<rparr>))" for u
    using flow_invD(3) [OF inv, of doc u] that grow by auto
  show "takes ops B doc" if "awaited (fl\<lparr>unannounced := unannounced fl \<union> docs\<rparr>) doc \<noteq> None"
    using flow_invD(4) [OF inv, of doc] that by simp
  show "content mg A' doc \<subseteq> content mg B doc \<union> coming ops mg (fl\<lparr>unannounced := unannounced fl \<union> docs\<rparr>) doc"
    if "takes ops B doc" "\<not> on_its_way (fl\<lparr>unannounced := unannounced fl \<union> docs\<rparr>) doc"
  proof -
    have "doc \<notin> docs" and "\<not> on_its_way fl doc" using that(2) by (auto simp: on_its_way_def)
    then show ?thesis using told flow_invD(5) [OF inv that(1)] by (auto simp: same)
  qed
qed

lemma flow_receiver_grows:
  assumes inv: "flow_inv ops mg A B fl" and grow: "\<And>doc. content mg B doc \<subseteq> content mg B' doc"
    and keep: "\<And>doc. takes ops B doc \<Longrightarrow> takes ops B' doc"
    and asks: "\<And>doc. \<not> takes ops B doc \<Longrightarrow> takes ops B' doc \<Longrightarrow> due"
  shows "flow_inv ops mg A B' (fl\<lparr>summary_due := (summary_due fl \<or> due)\<rparr>)"
proof (rule flow_invI)
  fix doc
  have same: "tokens (fl\<lparr>summary_due := X\<rparr>) doc = tokens fl doc" "coming ops mg (fl\<lparr>summary_due := X\<rparr>) = coming ops mg fl" for X
    by (simp_all add: tokens_def coming_def fun_eq_iff)
  show "tokens (fl\<lparr>summary_due := (summary_due fl \<or> due)\<rparr>) doc =
      (if awaited (fl\<lparr>summary_due := (summary_due fl \<or> due)\<rparr>) doc = None then 0 else 1)"
    using flow_invD(1) [OF inv] by (simp add: same)
  show "known mg v \<subseteq> content mg B' doc" if "(doc, v) \<in> set (requested (fl\<lparr>summary_due := (summary_due fl \<or> due)\<rparr>)) \<union>
      set (to_serve (fl\<lparr>summary_due := (summary_due fl \<or> due)\<rparr>))" for v
    using flow_invD(2) [OF inv, of doc v] that grow by auto
  show "needs mg u \<subseteq> content mg B' doc \<and> payload mg u \<subseteq> content mg A doc \<and> length u \<le> MAX_UPDATE_BYTES"
    if "(doc, u) \<in> set (updates (fl\<lparr>summary_due := (summary_due fl \<or> due)\<rparr>))" for u
    using flow_invD(3) [OF inv, of doc u] that grow by auto
  show "takes ops B' doc" if "awaited (fl\<lparr>summary_due := (summary_due fl \<or> due)\<rparr>) doc \<noteq> None"
    using flow_invD(4) [OF inv, of doc] that keep by simp
  show "content mg A doc \<subseteq> content mg B' doc \<union> coming ops mg (fl\<lparr>summary_due := (summary_due fl \<or> due)\<rparr>) doc"
    if "takes ops B' doc" "\<not> on_its_way (fl\<lparr>summary_due := (summary_due fl \<or> due)\<rparr>) doc"
  proof -
    have "takes ops B doc" and "\<not> on_its_way fl doc" using that asks by (auto simp: on_its_way_def)
    then show ?thesis using grow flow_invD(5) [OF inv] by (fastforce simp: same)
  qed
qed

section \<open>Moves of a request\<close>

lemma flow_request_written:
  assumes inv: "flow_inv ops mg A B fl" and head: "to_request fl = doc # rest" and v: "known mg v \<subseteq> content mg B doc"
  shows "flow_inv ops mg A B (fl\<lparr>to_request := rest, requested := requested fl @ [(doc, v)]\<rparr>)" (is "flow_inv _ _ _ _ ?fl")
proof (rule flow_invI)
  fix d
  have same: "tokens ?fl d = tokens fl d" "coming ops mg ?fl d = coming ops mg fl d" "on_its_way ?fl d = on_its_way fl d"
    using head by (auto simp: tokens_def coming_def on_its_way_def)
  show "tokens ?fl d = (if awaited ?fl d = None then 0 else 1)" using flow_invD(1) [OF inv] by (simp add: same)
  show "known mg w \<subseteq> content mg B d" if "(d, w) \<in> set (requested ?fl) \<union> set (to_serve ?fl)" for w
    using flow_invD(2) [OF inv, of d w] that v by auto
  show "needs mg u \<subseteq> content mg B d \<and> payload mg u \<subseteq> content mg A d \<and> length u \<le> MAX_UPDATE_BYTES"
    if "(d, u) \<in> set (updates ?fl)" for u using flow_invD(3) [OF inv, of d u] that by simp
  show "takes ops B d" if "awaited ?fl d \<noteq> None" using flow_invD(4) [OF inv, of d] that by simp
  show "content mg A d \<subseteq> content mg B d \<union> coming ops mg ?fl d" if "takes ops B d" "\<not> on_its_way ?fl d"
    using flow_invD(5) [OF inv that(1)] that(2) by (simp add: same)
qed

lemma flow_request_read:
  assumes inv: "flow_inv ops mg A B fl" and head: "requested fl = (doc, v) # rest"
  shows "flow_inv ops mg A B (fl\<lparr>requested := rest, to_serve := to_serve fl @ [(doc, v)]\<rparr>)" (is "flow_inv _ _ _ _ ?fl")
proof (rule flow_invI)
  fix d
  have same: "tokens ?fl d = tokens fl d" "coming ops mg ?fl d = coming ops mg fl d" "on_its_way ?fl d = on_its_way fl d"
    using head by (auto simp: tokens_def coming_def on_its_way_def)
  show "tokens ?fl d = (if awaited ?fl d = None then 0 else 1)" using flow_invD(1) [OF inv] by (simp add: same)
  show "known mg w \<subseteq> content mg B d" if "(d, w) \<in> set (requested ?fl) \<union> set (to_serve ?fl)" for w
    using flow_invD(2) [OF inv, of d w] that head by auto
  show "needs mg u \<subseteq> content mg B d \<and> payload mg u \<subseteq> content mg A d \<and> length u \<le> MAX_UPDATE_BYTES"
    if "(d, u) \<in> set (updates ?fl)" for u using flow_invD(3) [OF inv, of d u] that by simp
  show "takes ops B d" if "awaited ?fl d \<noteq> None" using flow_invD(4) [OF inv, of d] that by simp
  show "content mg A d \<subseteq> content mg B d \<union> coming ops mg ?fl d" if "takes ops B d" "\<not> on_its_way ?fl d"
    using flow_invD(5) [OF inv that(1)] that(2) by (simp add: same)
qed

lemma flow_served:
  assumes inv: "flow_inv ops mg A B fl" and head: "to_serve fl = (doc, v) # rest"
    and u: "content mg A doc \<subseteq> known mg v \<union> payload mg u" "payload mg u \<subseteq> content mg A doc"
      "needs mg u \<subseteq> known mg v" "length u \<le> MAX_UPDATE_BYTES"
  shows "flow_inv ops mg A B (fl\<lparr>to_serve := rest, updates := updates fl @ [(doc, u)]\<rparr>)" (is "flow_inv _ _ _ _ ?fl")
proof (rule flow_invI)
  fix d
  have known: "known mg v \<subseteq> content mg B doc" using flow_invD(2) [OF inv, of doc v] head by simp
  have tok: "tokens ?fl d = tokens fl d" using head by (auto simp: tokens_def)
  show "tokens ?fl d = (if awaited ?fl d = None then 0 else 1)" using flow_invD(1) [OF inv] by (simp add: tok)
  show "known mg w \<subseteq> content mg B d" if "(d, w) \<in> set (requested ?fl) \<union> set (to_serve ?fl)" for w
    using flow_invD(2) [OF inv, of d w] that head by auto
  show "needs mg w \<subseteq> content mg B d \<and> payload mg w \<subseteq> content mg A d \<and> length w \<le> MAX_UPDATE_BYTES"
    if "(d, w) \<in> set (updates ?fl)" for w
    using flow_invD(3) [OF inv, of d w] that known u by auto
  show "takes ops B d" if "awaited ?fl d \<noteq> None" using flow_invD(4) [OF inv, of d] that by simp
  show "content mg A d \<subseteq> content mg B d \<union> coming ops mg ?fl d" if "takes ops B d" "\<not> on_its_way ?fl d"
  proof (cases "d = doc")
    case True
    then show ?thesis using known u(1) by (auto simp: coming_def)
  next
    case False
    then have "\<not> on_its_way fl d" using that(2) head by (auto simp: on_its_way_def)
    then show ?thesis using flow_invD(5) [OF inv that(1)] by (auto simp: coming_def)
  qed
qed

lemma flow_announced:
  assumes inv: "flow_inv ops mg A B fl"
    and told: "\<And>doc. doc \<in> unannounced fl - left \<or> (summary_due fl \<and> \<not> due) \<Longrightarrow>
      content mg A doc = {} \<or> (\<exists>d. (doc, d) \<in> set ds \<and> digest_of ops A doc = Some d)"
  shows "flow_inv ops mg A B (fl\<lparr>announced := announced fl @ ds, unannounced := left, summary_due := due\<rparr>)"
    (is "flow_inv _ _ _ _ ?fl")
proof (rule flow_invI)
  fix d
  have tok: "tokens ?fl d = tokens fl d" by (simp add: tokens_def)
  show "tokens ?fl d = (if awaited ?fl d = None then 0 else 1)" using flow_invD(1) [OF inv] by (simp add: tok)
  show "known mg w \<subseteq> content mg B d" if "(d, w) \<in> set (requested ?fl) \<union> set (to_serve ?fl)" for w
    using flow_invD(2) [OF inv, of d w] that by auto
  show "needs mg w \<subseteq> content mg B d \<and> payload mg w \<subseteq> content mg A d \<and> length w \<le> MAX_UPDATE_BYTES"
    if "(d, w) \<in> set (updates ?fl)" for w
    using flow_invD(3) [OF inv, of d w] that by auto
  show "takes ops B d" if "awaited ?fl d \<noteq> None" using flow_invD(4) [OF inv, of d] that by simp
  show "content mg A d \<subseteq> content mg B d \<union> coming ops mg ?fl d" if "takes ops B d" "\<not> on_its_way ?fl d"
  proof (cases "d \<in> unannounced fl - left \<or> (summary_due fl \<and> \<not> due)")
    case True
    then show ?thesis using told [OF True] by (auto simp: coming_def)
  next
    case False
    then have "\<not> on_its_way fl d" using that(2) by (auto simp: on_its_way_def)
    moreover have "coming ops mg fl d \<subseteq> coming ops mg ?fl d" unfolding coming_def by auto
    ultimately show ?thesis using flow_invD(5) [OF inv that(1)] by blast
  qed
qed

text \<open>A document more is requested, or the request under way is marked as stale.\<close>

definition request_doc :: "docid \<Rightarrow> link_flow \<Rightarrow> link_flow" where
  "request_doc doc fl =
     (if awaited fl doc \<noteq> None then fl\<lparr>awaited := (awaited fl)(doc \<mapsto> True)\<rparr>
      else fl\<lparr>awaited := (awaited fl)(doc \<mapsto> False), to_request := to_request fl @ [doc]\<rparr>)"

lemma flow_request:
  assumes inv: "flow_inv ops mg A B fl" and takes: "takes ops B doc"
  shows "flow_inv ops mg A B (request_doc doc fl)" (is "flow_inv _ _ _ _ ?fl")
proof (rule flow_invI)
  fix d
  show "tokens ?fl d = (if awaited ?fl d = None then 0 else 1)"
    using flow_invD(1) [OF inv, of d] flow_invD(1) [OF inv, of doc] by (auto simp: request_doc_def tokens_def)
  show "known mg w \<subseteq> content mg B d" if "(d, w) \<in> set (requested ?fl) \<union> set (to_serve ?fl)" for w
    using flow_invD(2) [OF inv, of d w] that by (auto simp: request_doc_def split: if_splits)
  show "needs mg w \<subseteq> content mg B d \<and> payload mg w \<subseteq> content mg A d \<and> length w \<le> MAX_UPDATE_BYTES"
    if "(d, w) \<in> set (updates ?fl)" for w
    using flow_invD(3) [OF inv, of d w] that by (auto simp: request_doc_def split: if_splits)
  show "takes ops B d" if "awaited ?fl d \<noteq> None"
    using flow_invD(4) [OF inv, of d] that takes by (auto simp: request_doc_def split: if_splits)
  show "content mg A d \<subseteq> content mg B d \<union> coming ops mg ?fl d" if "takes ops B d" "\<not> on_its_way ?fl d"
  proof -
    have "\<not> on_its_way fl d" using that(2) by (auto simp: request_doc_def on_its_way_def split: if_splits)
    moreover have "coming ops mg ?fl d = coming ops mg fl d" by (simp add: request_doc_def coming_def)
    ultimately show ?thesis using flow_invD(5) [OF inv that(1)] by simp
  qed
qed

lemma request_doc_fields [simp]:
  "announced (request_doc doc fl) = announced fl" "updates (request_doc doc fl) = updates fl"
  "requested (request_doc doc fl) = requested fl" "to_serve (request_doc doc fl) = to_serve fl"
  "unannounced (request_doc doc fl) = unannounced fl" "summary_due (request_doc doc fl) = summary_due fl"
  by (simp_all add: request_doc_def)

lemma request_doc_on_its_way:
  "on_its_way fl d \<Longrightarrow> on_its_way (request_doc doc fl) d" "tokens fl doc = (if awaited fl doc = None then 0 else 1) \<Longrightarrow> on_its_way (request_doc doc fl) doc"
  by (auto simp: request_doc_def on_its_way_def)

lemma request_docs_fields:
  "announced (fold request_doc docs fl) = announced fl" "updates (fold request_doc docs fl) = updates fl"
  by (induction docs arbitrary: fl) simp_all

lemma flow_requests:
  assumes "flow_inv ops mg A B fl" and "\<And>doc. doc \<in> set docs \<Longrightarrow> takes ops B doc"
  shows "flow_inv ops mg A B (fold request_doc docs fl) \<and>
    (\<forall>doc. on_its_way fl doc \<or> doc \<in> set docs \<longrightarrow> on_its_way (fold request_doc docs fl) doc)"
  using assms
proof (induction docs arbitrary: fl)
  case (Cons doc docs)
  have inv: "flow_inv ops mg A B (request_doc doc fl)" using Cons.prems by (intro flow_request) simp_all
  from Cons.IH [OF this] Cons.prems request_doc_on_its_way [of fl] flow_invD(1) [OF Cons.prems(1)]
  show ?case by (auto simp: )
qed simp

lemma request_doc_announced: "request_doc doc (fl\<lparr>announced := x\<rparr>) = (request_doc doc fl)\<lparr>announced := x\<rparr>"
  by (simp add: request_doc_def)

lemma flow_summary_read:
  assumes inv: "flow_inv ops mg A B fl" and head: "announced fl = ds @ rest"
    and same: "\<And>st st' doc d. digest_of ops st doc = Some d \<Longrightarrow> digest_of ops st' doc = Some d \<Longrightarrow> content mg st doc = content mg st' doc"
  shows "flow_inv ops mg A B (fold request_doc (wanted ops B ds) (fl\<lparr>announced := rest\<rparr>))" (is "flow_inv _ _ _ _ ?fl")
proof -
  have takes: "takes ops B doc" if "doc \<in> set (wanted ops B ds)" for doc
    using that by (auto simp: wanted_def takes_def split: option.splits)
  have "flow_inv ops mg A B (fold request_doc (wanted ops B ds) fl) \<and>
    (\<forall>doc. on_its_way fl doc \<or> doc \<in> set (wanted ops B ds) \<longrightarrow> on_its_way (fold request_doc (wanted ops B ds) fl) doc)"
    using inv takes by (rule flow_requests)
  then have f: "flow_inv ops mg A B (fold request_doc (wanted ops B ds) fl)"
    and w: "\<And>doc. doc \<in> set (wanted ops B ds) \<Longrightarrow> on_its_way (fold request_doc (wanted ops B ds) fl) doc" by blast+
  have shift: "fold request_doc docs (fl\<lparr>announced := rest\<rparr>) = (fold request_doc docs fl)\<lparr>announced := rest\<rparr>" for docs fl
    by (induction docs arbitrary: fl) (simp_all add: request_doc_announced)
  let ?g = "fold request_doc (wanted ops B ds) fl"
  have way: "on_its_way (?g\<lparr>announced := rest\<rparr>) d = on_its_way ?g d" for d by (simp add: on_its_way_def)
  show ?thesis unfolding shift
  proof (rule flow_invI)
    fix d
    show "tokens (?g\<lparr>announced := rest\<rparr>) d = (if awaited (?g\<lparr>announced := rest\<rparr>) d = None then 0 else 1)"
      using flow_invD(1) [OF f, of d] by (simp add: tokens_def)
    show "known mg v \<subseteq> content mg B d"
      if "(d, v) \<in> set (requested (?g\<lparr>announced := rest\<rparr>)) \<union> set (to_serve (?g\<lparr>announced := rest\<rparr>))" for v
      using flow_invD(2) [OF f, of d v] that by simp
    show "needs mg u \<subseteq> content mg B d \<and> payload mg u \<subseteq> content mg A d \<and> length u \<le> MAX_UPDATE_BYTES"
      if "(d, u) \<in> set (updates (?g\<lparr>announced := rest\<rparr>))" for u
      using flow_invD(3) [OF f, of d u] that by simp
    show "takes ops B d" if "awaited (?g\<lparr>announced := rest\<rparr>) d \<noteq> None" using flow_invD(4) [OF f, of d] that by simp
    show "content mg A d \<subseteq> content mg B d \<union> coming ops mg (?g\<lparr>announced := rest\<rparr>) d"
      if t: "takes ops B d" and away: "\<not> on_its_way (?g\<lparr>announced := rest\<rparr>) d"
    proof
      fix c assume "c \<in> content mg A d"
      have "d \<notin> set (wanted ops B ds)" using w away by (auto simp: way)
      from flow_invD(5) [OF f t] away \<open>c \<in> content mg A d\<close>
      consider "c \<in> content mg B d" | x st where "(d, x) \<in> set (announced ?g)" "digest_of ops st d = Some x" "c \<in> content mg st d"
        | u where "(d, u) \<in> set (updates ?g)" "c \<in> payload mg u"
        by (auto simp: way coming_def)
      then show "c \<in> content mg B d \<union> coming ops mg (?g\<lparr>announced := rest\<rparr>) d"
      proof cases
        case 2
        then have "(d, x) \<in> set ds \<or> (d, x) \<in> set rest" using head by (simp add: request_docs_fields)
        then show ?thesis
        proof
          assume in_ds: "(d, x) \<in> set ds"
          have "digest_of ops B d = Some x"
          proof (cases "digest_of ops B d")
            case None
            with t in_ds have "d \<in> set (wanted ops B ds)" by (force simp: wanted_def takes_def)
            with \<open>d \<notin> set (wanted ops B ds)\<close> show ?thesis by blast
          next
            case (Some y)
            with in_ds \<open>d \<notin> set (wanted ops B ds)\<close> show ?thesis by (force simp: wanted_def)
          qed
          with 2 same [of st d x B] show ?thesis by blast
        qed (use 2 in \<open>auto simp: coming_def\<close>)
      qed (auto simp: coming_def)
    qed
  qed
qed

text \<open>The answer to a request arrives.\<close>

definition settle_doc :: "docid \<Rightarrow> link_flow \<Rightarrow> link_flow" where
  "settle_doc doc fl =
     (if awaited fl doc = Some True
      then fl\<lparr>awaited := (awaited fl)(doc \<mapsto> False), to_request := to_request fl @ [doc]\<rparr>
      else fl\<lparr>awaited := (awaited fl)(doc := None)\<rparr>)"

lemma flow_update_read:
  assumes inv: "flow_inv ops mg A B fl" and head: "updates fl = (doc, u) # us"
    and B': "\<And>d. content mg B' d = content mg B d \<union> (if d = doc then payload mg u else {})"
    and takes: "\<And>d. takes ops B' d = takes ops B d"
  shows "flow_inv ops mg A B' (settle_doc doc (fl\<lparr>updates := us\<rparr>))" (is "flow_inv _ _ _ _ ?fl")
proof (rule flow_invI)
  fix d
  have tok: "tokens fl doc = (if awaited fl doc = None then 0 else 1)" by (rule flow_invD(1) [OF inv])
  have pos: "0 < tokens fl doc" using head by (simp add: tokens_def)
  then have aw: "awaited fl doc \<noteq> None" by (simp only: tok split: if_splits) simp
  then have one: "tokens fl doc = 1" by (simp add: tok)
  show "tokens ?fl d = (if awaited ?fl d = None then 0 else 1)"
  proof (cases "d = doc")
    case True
    have "tokens ?fl doc = (if awaited fl doc = Some True then 1 else 0)"
      using one head by (simp add: settle_doc_def tokens_def)
    with True show ?thesis by (simp add: settle_doc_def)
  next
    case False
    then have "tokens ?fl d = tokens fl d" "awaited ?fl d = awaited fl d"
      using head by (simp_all add: settle_doc_def tokens_def)
    then show ?thesis using flow_invD(1) [OF inv, of d] by simp
  qed
  show "known mg v \<subseteq> content mg B' d" if "(d, v) \<in> set (requested ?fl) \<union> set (to_serve ?fl)" for v
    using flow_invD(2) [OF inv, of d v] that B' by (auto simp: settle_doc_def split: if_splits)
  show "needs mg w \<subseteq> content mg B' d \<and> payload mg w \<subseteq> content mg A d \<and> length w \<le> MAX_UPDATE_BYTES"
    if "(d, w) \<in> set (updates ?fl)" for w
    using flow_invD(3) [OF inv, of d w] that B' head by (auto simp: settle_doc_def split: if_splits)
  show "takes ops B' d" if "awaited ?fl d \<noteq> None"
    using flow_invD(4) [OF inv, of d] that aw by (auto simp: settle_doc_def takes split: if_splits)
  show "content mg A d \<subseteq> content mg B' d \<union> coming ops mg ?fl d" if t: "takes ops B' d" and away: "\<not> on_its_way ?fl d"
  proof -
    have "\<not> on_its_way fl d"
    proof (cases "d = doc")
      case True
      then have "awaited fl doc \<noteq> Some True" "doc \<notin> unannounced fl" "\<not> summary_due fl"
        using away by (auto simp: settle_doc_def on_its_way_def split: if_splits)
      moreover have "count_list (to_request fl) doc = 0" "count_list (map fst (requested fl)) doc = 0"
        "count_list (map fst (to_serve fl)) doc = 0"
        using one head by (simp_all add: tokens_def)
      then have "doc \<notin> set (to_request fl)" "doc \<notin> fst ` set (requested fl)" "doc \<notin> fst ` set (to_serve fl)"
        by (simp_all add: count_list_0_iff)
      ultimately show ?thesis using True by (simp add: on_its_way_def)
    next
      case False
      with away show ?thesis by (auto simp: settle_doc_def on_its_way_def split: if_splits)
    qed
    moreover have "coming ops mg fl d \<subseteq> coming ops mg ?fl d \<union> (if d = doc then payload mg u else {})"
      using head unfolding coming_def settle_doc_def by auto
    ultimately show ?thesis using flow_invD(5) [OF inv, of d] t B' takes by blast
  qed
qed

section \<open>The two ends of a connection\<close>

definition flow_ok ::
    "'st store_ops \<Rightarrow> ('st, 'c) meaning \<Rightarrow> 'st \<Rightarrow> 'st \<Rightarrow> link \<Rightarrow> link \<Rightarrow> sync_message list \<Rightarrow> sync_message list \<Rightarrow> bool" where
  "flow_ok ops mg A B la lb to_b to_a \<longleftrightarrow>
     (\<forall>sp p. Hello sp p \<notin> set to_b) \<and>
     (\<exists>us. stream (assembling lb) to_b = Some us \<and> flow_inv ops mg A B (flow_of la lb to_b to_a us))"

text \<open>What the sender writes.\<close>

lemma updates_since_law:
  assumes "lawful ops mg"
  shows "case updates_since ops st doc v of
      None \<Rightarrow> content mg st doc \<subseteq> known mg v
    | Some u \<Rightarrow> content mg st doc \<subseteq> known mg v \<union> payload mg u \<and> payload mg u \<subseteq> content mg st doc \<and>
        needs mg u \<subseteq> known mg v \<and> length u \<le> MAX_UPDATE_BYTES"
  using assms unfolding lawful_def lawful_updates_def by blast

lemma empty_update_law: "lawful ops mg \<Longrightarrow> known mg [] = {} \<and> payload mg [] = {} \<and> needs mg [] = {}"
  by (simp add: lawful_def lawful_reads_def)

lemma serve_update_law:
  assumes "lawful ops mg"
  obtains u where "write_item ops True st (Serve doc v) = write_update doc u"
    and "content mg st doc \<subseteq> known mg v \<union> payload mg u" "payload mg u \<subseteq> content mg st doc"
      "needs mg u \<subseteq> known mg v" "length u \<le> MAX_UPDATE_BYTES"
proof (cases "updates_since ops st doc v")
  case None
  with updates_since_law [OF assms, of st doc v] empty_update_law [OF assms] show ?thesis
    by (intro that [of "[]"]) (simp_all add: write_item_def with_store_def)
next
  case (Some u)
  with updates_since_law [OF assms, of st doc v] show ?thesis
    by (intro that [of u]) (simp_all add: write_item_def with_store_def)
qed

lemma no_digest_no_content: "lawful ops mg \<Longrightarrow> digest_of ops st doc = None \<Longrightarrow> content mg st doc = {}"
  by (auto simp: lawful_def lawful_reads_def content_def)

lemma same_digest_same_content:
  "lawful ops mg \<Longrightarrow> digest_of ops st doc = Some d \<Longrightarrow> digest_of ops st' doc = Some d \<Longrightarrow> content mg st doc = content mg st' doc"
  unfolding lawful_def lawful_reads_def content_def by metis

lemma summary_law: "lawful ops mg \<Longrightarrow> (doc, d) \<in> set (summary_of ops st) \<longleftrightarrow> digest_of ops st doc = Some d"
  by (simp add: lawful_def lawful_reads_def)

lemma no_hello_update [simp]: "Hello sp p \<notin> set (write_update doc u)"
  by (auto simp: write_update_def Let_def)

lemma write_update_views [simp]: "asked_docs (write_update doc u) = []" "entries (write_update doc u) = []"
  "RequestSummary \<notin> set (write_update doc u)"
  by (auto simp: write_update_def Let_def asked_docs_def entries_def)

lemma flow_ok_sender_writes:
  assumes law: "lawful ops mg" and ok: "flow_ok ops mg A B la lb to_b to_a" and head: "control la = out # rest"
  shows "flow_ok ops mg A B (la\<lparr>control := rest\<rparr>) lb (to_b @ write_item ops True A out) to_a"
proof -
  from ok obtain us where no: "\<And>sp p. Hello sp p \<notin> set to_b" and us: "stream (assembling lb) to_b = Some us"
    and inv: "flow_inv ops mg A B (flow_of la lb to_b to_a us)"
    unfolding flow_ok_def by blast
  let ?fl = "flow_of la lb to_b to_a us"
  show ?thesis
  proof (cases out)
    case SendSummary
    let ?due = "SendSummary \<in> set rest \<or> RequestSummary \<in> set to_a \<or> SendRequestSummary \<in> set (control lb)"
    have "flow_inv ops mg A B (?fl\<lparr>announced := announced ?fl @ summary_of ops A, unannounced := unannounced ?fl,
        summary_due := ?due\<rparr>)"
      using inv
    proof (rule flow_announced)
      fix doc
      show "content mg A doc = {} \<or> (\<exists>d. (doc, d) \<in> set (summary_of ops A) \<and> digest_of ops A doc = Some d)"
        using no_digest_no_content [OF law, of A doc] summary_law [OF law, of doc] by (cases "digest_of ops A doc") auto
    qed
    moreover have "?fl\<lparr>announced := announced ?fl @ summary_of ops A, unannounced := unannounced ?fl, summary_due := ?due\<rparr>
        = flow_of (la\<lparr>control := rest\<rparr>) lb (to_b @ [Summary (summary_of ops A) True]) to_a us"
      using SendSummary head by (simp add: flow_of_def)
    ultimately show ?thesis using no us stream_append [OF us, of "[Summary (summary_of ops A) True]"] SendSummary
      by (auto simp: flow_ok_def write_item_def with_store_def)
  next
    case SendRequestSummary
    have "flow_of (la\<lparr>control := rest\<rparr>) lb (to_b @ [RequestSummary]) to_a us = ?fl"
      using SendRequestSummary head by (simp add: flow_of_def)
    then show ?thesis using no us inv stream_append [OF us, of "[RequestSummary]"] SendRequestSummary
      by (auto simp: flow_ok_def write_item_def)
  next
    case (SendWant doc)
    have "flow_of (la\<lparr>control := rest\<rparr>) lb (to_b @ [Want doc v]) to_a us = ?fl" for v
      using SendWant head by (simp add: flow_of_def)
    then show ?thesis using no us inv stream_append [OF us, of "[Want doc v]" for v] SendWant
      by (auto simp: flow_ok_def write_item_def)
  next
    case (Serve doc v)
    obtain u where u: "write_item ops True A (Serve doc v) = write_update doc u"
      "content mg A doc \<subseteq> known mg v \<union> payload mg u" "payload mg u \<subseteq> content mg A doc"
      "needs mg u \<subseteq> known mg v" "length u \<le> MAX_UPDATE_BYTES"
      using serve_update_law [OF law, of A doc v] by blast
    have "to_serve ?fl = (doc, v) # serve_docs rest" using Serve head by (simp add: flow_of_def)
    from flow_served [OF inv this u(2-5)]
    have "flow_inv ops mg A B (flow_of (la\<lparr>control := rest\<rparr>) lb (to_b @ write_update doc u) to_a (us @ [(doc, u)]))"
      using Serve head by (simp add: flow_of_def)
    then show ?thesis using no us stream_append [OF us, of "write_update doc u"] Serve u(1)
      by (auto simp: flow_ok_def stream_write_update)
  qed
qed

lemma flow_ok_sender_announces:
  assumes law: "lawful ops mg" and ok: "flow_ok ops mg A B la lb to_b to_a"
  shows "flow_ok ops mg A B (la\<lparr>dirty := []\<rparr>) lb (to_b @ announce ops True A (dirty la)) to_a"
proof -
  from ok obtain us where no: "\<And>sp p. Hello sp p \<notin> set to_b" and us: "stream (assembling lb) to_b = Some us"
    and inv: "flow_inv ops mg A B (flow_of la lb to_b to_a us)"
    unfolding flow_ok_def by blast
  let ?fl = "flow_of la lb to_b to_a us"
  let ?ds = "concat (map (\<lambda>doc. case digest_of ops A doc of None \<Rightarrow> [] | Some d \<Rightarrow> [(doc, d)]) (dirty la))"
  have "flow_inv ops mg A B (?fl\<lparr>announced := announced ?fl @ ?ds, unannounced := {}, summary_due := summary_due ?fl\<rparr>)"
    using inv
  proof (rule flow_announced)
    fix doc assume "doc \<in> unannounced ?fl - {} \<or> summary_due ?fl \<and> \<not> summary_due ?fl"
    then have "doc \<in> set (dirty la)" by (auto simp: flow_of_def)
    then show "content mg A doc = {} \<or> (\<exists>d. (doc, d) \<in> set ?ds \<and> digest_of ops A doc = Some d)"
      using no_digest_no_content [OF law, of A doc] by (cases "digest_of ops A doc") fastforce+
  qed
  moreover have "entries (announce ops True A (dirty la)) = ?ds" "RequestSummary \<notin> set (announce ops True A (dirty la))"
    "\<And>sp p. Hello sp p \<notin> set (announce ops True A (dirty la))"
    "stream None (announce ops True A (dirty la)) = Some []"
    by (auto simp: announce_def with_store_def split: list.split)
  ultimately show ?thesis using no us stream_append [OF us, of "announce ops True A (dirty la)"]
    by (auto simp: flow_ok_def flow_of_def)
qed

text \<open>What the receiver writes.\<close>

lemma version_law:
  assumes "lawful ops mg"
  shows "known mg (case version_of ops st doc of Some v \<Rightarrow> v | None \<Rightarrow> []) \<subseteq> content mg st doc"
proof (cases "version_of ops st doc")
  case None
  then show ?thesis using empty_update_law [OF assms] by simp
next
  case (Some v)
  then have "changes mg st doc = Some (known mg v)" using assms unfolding lawful_def lawful_reads_def by blast
  with Some show ?thesis by (simp add: content_def)
qed

lemma flow_ok_receiver_writes:
  assumes law: "lawful ops mg" and ok: "flow_ok ops mg A B la lb to_b to_a" and head: "control lb = out # rest"
  shows "flow_ok ops mg A B la (lb\<lparr>control := rest\<rparr>) to_b (to_a @ write_item ops True B out)"
proof -
  from ok obtain us where no: "\<And>sp p. Hello sp p \<notin> set to_b" and us: "stream (assembling lb) to_b = Some us"
    and inv: "flow_inv ops mg A B (flow_of la lb to_b to_a us)"
    unfolding flow_ok_def by blast
  let ?fl = "flow_of la lb to_b to_a us"
  have "flow_inv ops mg A B (flow_of la (lb\<lparr>control := rest\<rparr>) to_b (to_a @ write_item ops True B out) us)"
  proof (cases out)
    case SendSummary
    then have "flow_of la (lb\<lparr>control := rest\<rparr>) to_b (to_a @ write_item ops True B out) us = ?fl"
      using head by (simp add: flow_of_def write_item_def)
    with inv show ?thesis by simp
  next
    case SendRequestSummary
    then have "flow_of la (lb\<lparr>control := rest\<rparr>) to_b (to_a @ write_item ops True B out) us = ?fl"
      using head by (simp add: flow_of_def write_item_def)
    with inv show ?thesis by simp
  next
    case (Serve doc v)
    obtain u where "write_item ops True B (Serve doc v) = write_update doc u"
      by (rule serve_update_law [OF law, of B doc v]) (rule that)
    then have "flow_of la (lb\<lparr>control := rest\<rparr>) to_b (to_a @ write_item ops True B out) us = ?fl"
      using head Serve by (simp add: flow_of_def)
    with inv show ?thesis by simp
  next
    case (SendWant doc)
    let ?v = "case version_of ops B doc of Some v \<Rightarrow> v | None \<Rightarrow> []"
    have item: "write_item ops True B out = [Want doc ?v]"
      using SendWant by (simp add: write_item_def with_store_def)
    have "to_request ?fl = doc # want_docs rest" using SendWant head by (simp add: flow_of_def)
    from flow_request_written [OF inv this version_law [OF law]]
    show ?thesis using SendWant head by (simp add: item [unfolded SendWant] flow_of_def)
  qed
  with no us show ?thesis by (auto simp: flow_ok_def)
qed

lemma flow_ok_receiver_announces:
  assumes ok: "flow_ok ops mg A B la lb to_b to_a"
  shows "flow_ok ops mg A B la (lb\<lparr>dirty := []\<rparr>) to_b (to_a @ announce ops True B docs)"
proof -
  have "asked_docs (announce ops True B docs) = []" "RequestSummary \<notin> set (announce ops True B docs)"
    by (auto simp: announce_def with_store_def split: list.split)
  then have "flow_of la (lb\<lparr>dirty := []\<rparr>) to_b (to_a @ announce ops True B docs) us = flow_of la lb to_b to_a us" for us
    by (simp add: flow_of_def)
  with ok show ?thesis by (simp add: flow_ok_def)
qed

text \<open>What the receiver reads. A reading changes the store only by what the sender has.\<close>

definition reads_from :: "'st store_ops \<Rightarrow> ('st, 'c) meaning \<Rightarrow> 'st \<Rightarrow> 'st \<Rightarrow> 'st reading \<Rightarrow> bool" where
  "reads_from ops mg A B r \<longleftrightarrow>
     (\<forall>doc. content mg B doc \<subseteq> content mg (read_store r) doc \<and>
        content mg (read_store r) doc \<subseteq> content mg B doc \<union> content mg A doc \<and>
        takes ops (read_store r) doc = takes ops B doc \<and>
        (fan_out r \<noteq> Some doc \<longrightarrow> content mg (read_store r) doc = content mg B doc))"

lemma want_all_kept [simp]:
  "assembling (want_all docs l) = assembling l" "dirty (want_all docs l) = dirty l"
  "serve_docs (control (want_all docs l)) = serve_docs (control l)"
  "SendSummary \<in> set (control (want_all docs l)) \<longleftrightarrow> SendSummary \<in> set (control l)"
  "SendRequestSummary \<in> set (control (want_all docs l)) \<longleftrightarrow> SendRequestSummary \<in> set (control l)"
  by (induction docs arbitrary: l) (simp_all add: enqueue_def)

lemma flow_of_want_all:
  "flow_of la (want_all docs lb) to_b to_a us = fold request_doc docs (flow_of la lb to_b to_a us)"
proof (induction docs arbitrary: lb)
  case (Cons doc docs)
  have "flow_of la (if map_of (pending lb) doc \<noteq> None then lb\<lparr>pending := AList.update doc True (pending lb)\<rparr>
        else enqueue (SendWant doc) (lb\<lparr>pending := AList.update doc False (pending lb)\<rparr>)) to_b to_a us
      = request_doc doc (flow_of la lb to_b to_a us)"
    by (simp add: flow_of_def request_doc_def enqueue_def update_conv')
  with Cons show ?case by simp
qed simp

lemma flow_of_count [simp]: "flow_of la (l\<lparr>in_flight := n\<rparr>) = flow_of la l" "flow_of (l\<lparr>in_flight := n\<rparr>) lb = flow_of l lb"
  by (simp_all add: flow_of_def fun_eq_iff)

lemma apply_law:
  assumes law: "lawful ops mg" and "takes ops B doc" and "needs mg u \<subseteq> content mg B doc"
    and out: "apply_received ops True doc u B = (changed, B')"
  shows "content mg B' d = content mg B d \<union> (if d = doc then payload mg u else {}) \<and> takes ops B' d = takes ops B d \<and>
    (changed \<noteq> Some d \<longrightarrow> content mg B' d = content mg B d) \<and> (changed = None \<or> changed = Some doc)"
proof (cases "u = []")
  case True
  with out empty_update_law [OF law] show ?thesis by (simp add: apply_received_def)
next
  case False
  from law have "\<forall>st doc u. takes ops st doc \<and> needs mg u \<subseteq> content mg st doc \<longrightarrow>
        (\<exists>changed st'. apply_update ops st doc u = (Inr changed, st') \<and>
           changes mg st' doc = Some (content mg st doc \<union> payload mg u) \<and>
           (changed \<longleftrightarrow> content mg st' doc \<noteq> content mg st doc) \<and>
           (\<forall>other. other \<noteq> doc \<longrightarrow> changes mg st' other = changes mg st other) \<and>
           (\<forall>other. accepts_doc ops st' other = accepts_doc ops st other))"
    unfolding lawful_def lawful_updates_def by blast
  with assms(2,3) obtain ch st' where st': "apply_update ops B doc u = (Inr ch, st')"
    "changes mg st' doc = Some (content mg B doc \<union> payload mg u)" "ch \<longleftrightarrow> content mg st' doc \<noteq> content mg B doc"
    "\<And>other. other \<noteq> doc \<Longrightarrow> changes mg st' other = changes mg B other"
    "\<And>other. accepts_doc ops st' other = accepts_doc ops B other" by blast
  have eq: "B' = st'" "changed = (if ch then Some doc else None)"
    using out False st'(1) by (auto simp: apply_received_def with_store_def split: bool.splits)
  have digest: "digest_of ops st doc = None \<longleftrightarrow> changes mg st doc = None" for st doc
    using law by (simp add: lawful_def lawful_reads_def)
  have "takes ops st' d = takes ops B d"
    using assms(2) st'(2,4,5) by (cases "d = doc") (auto simp: takes_def digest)
  moreover have "content mg st' d = content mg B d \<union> (if d = doc then payload mg u else {})"
    using st'(2,4) by (auto simp: content_def)
  ultimately show ?thesis using st'(3) eq by auto
qed

lemma flow_of_update_head [simp]:
  "flow_of la lb (Update doc bs is_last # ms) = flow_of la lb ms"
  by (simp add: flow_of_def fun_eq_iff)

lemma finish_update_flow:
  assumes "map_of (pending lb) doc = Some stale" and "distinct (map fst (pending lb)) \<or> True"
  shows "flow_of la (read_link (finish_update ops up doc u stale lb B)) to_b to_a us =
    settle_doc doc (flow_of la lb to_b to_a us)"
  using assms
  by (auto simp: finish_update_def Let_def flow_of_def settle_doc_def enqueue_def delete_conv' update_conv' fun_eq_iff
      split: prod.split)

lemma finish_update_kept [simp]:
  "assembling (read_link (finish_update ops up doc u stale l st)) = assembling l"
  "dirty (read_link (finish_update ops up doc u stale l st)) = dirty l"
  "serve_docs (control (read_link (finish_update ops up doc u stale l st))) = serve_docs (control l)"
  "SendSummary \<in> set (control (read_link (finish_update ops up doc u stale l st))) \<longleftrightarrow> SendSummary \<in> set (control l)"
  by (auto simp: finish_update_def Let_def enqueue_def split: prod.split)

lemma count_pending_store [simp]:
  "read_store (count_pending r) = read_store r" "fan_out (count_pending r) = fan_out r"
  "read_link (count_pending r) = (read_link r)\<lparr>in_flight := length (pending (read_link r))\<rparr>"
  by (simp_all add: count_pending_def)

lemma reads_from_refl: "read_store r = B \<Longrightarrow> reads_from ops mg A B r"
  by (simp add: reads_from_def)

lemma assemble_in_stream:
  assumes "stream (assembling l) (Update doc bs is_last # ms) = Some us"
    and "\<forall>(d, u) \<in> set us. length u \<le> MAX_UPDATE_BYTES"
  obtains buffer where "assemble doc bs (assembling l) = Inr buffer"
    and "if is_last then \<exists>us'. us = (doc, buffer) # us' \<and> stream None ms = Some us'
      else stream (Some (doc, buffer)) ms = Some us"
proof -
  let ?buffer = "(case assembling l of None \<Rightarrow> [] | Some (d, b) \<Rightarrow> b) @ bs"
  have cases: "if is_last then \<exists>us'. us = (doc, ?buffer) # us' \<and> stream None ms = Some us'
      else stream (Some (doc, ?buffer)) ms = Some us"
    and same: "case assembling l of None \<Rightarrow> True | Some (d, b) \<Rightarrow> d = doc"
    using assms(1) by (auto split: option.splits if_splits)
  have "length ?buffer \<le> MAX_UPDATE_BYTES"
  proof (cases is_last)
    case True
    with cases assms(2) show ?thesis by auto
  next
    case False
    with cases stream_prefix [of doc ?buffer ms us] obtain rest us' where "us = (doc, ?buffer @ rest) # us'" by auto
    with assms(2) show ?thesis by auto
  qed
  with same have "assemble doc bs (assembling l) = Inr ?buffer" by (auto simp: assemble_def split: option.splits)
  from that [OF this cases] show ?thesis .
qed

lemma flow_ok_receiver_reads:
  assumes law: "lawful ops mg" and ok: "flow_ok ops mg A B la lb (m # ms) to_a"
  shows "\<exists>r. read_step ops True m lb B = Inr r \<and> reads_from ops mg A B r \<and>
    flow_ok ops mg A (read_store r) la (read_link r) ms to_a"
proof -
  from ok obtain us where no: "\<And>sp p. Hello sp p \<notin> set (m # ms)" and us: "stream (assembling lb) (m # ms) = Some us"
    and inv: "flow_inv ops mg A B (flow_of la lb (m # ms) to_a us)"
    unfolding flow_ok_def by blast
  have no': "\<forall>sp p. Hello sp p \<notin> set ms" using no by auto
  show ?thesis
  proof (cases m)
    case (Hello sp p)
    with no [of sp p] show ?thesis by simp
  next
    case (Want doc v)
    let ?l = "(enqueue (Serve doc v) lb)\<lparr>in_flight := length (pending lb)\<rparr>"
    have "flow_of la ?l ms to_a us = flow_of la lb (m # ms) to_a us" using Want by (simp add: flow_of_def enqueue_def)
    with us inv no' Want have "flow_ok ops mg A B la ?l ms to_a" by (simp add: flow_ok_def enqueue_def)
    with Want show ?thesis by (simp add: read_step_def reads_from_refl enqueue_def)
  next
    case RequestSummary
    let ?l = "(enqueue SendSummary lb)\<lparr>in_flight := length (pending lb)\<rparr>"
    have "flow_of la ?l ms to_a us = flow_of la lb (m # ms) to_a us" using RequestSummary by (simp add: flow_of_def enqueue_def)
    with us inv no' RequestSummary have "flow_ok ops mg A B la ?l ms to_a" by (simp add: flow_ok_def enqueue_def)
    with RequestSummary show ?thesis by (simp add: read_step_def reads_from_refl enqueue_def)
  next
    case (Summary docs whole)
    let ?fl = "flow_of la lb (m # ms) to_a us"
    have "announced ?fl = docs @ entries ms" using Summary by (simp add: flow_of_def)
    from flow_summary_read [OF inv this same_digest_same_content [OF law]]
    have "flow_inv ops mg A B (fold request_doc (wanted ops B docs) (?fl\<lparr>announced := entries ms\<rparr>))" .
    also have "?fl\<lparr>announced := entries ms\<rparr> = flow_of la lb ms to_a us" using Summary by (simp add: flow_of_def)
    finally have "flow_inv ops mg A B (flow_of la (want_all (wanted ops B docs) lb) ms to_a us)" by (simp only: flow_of_want_all)
    with us no' Summary have "flow_ok ops mg A B la
        ((want_all (wanted ops B docs) lb)\<lparr>in_flight := length (pending (want_all (wanted ops B docs) lb))\<rparr>) ms to_a"
      by (simp add: flow_ok_def)
    with Summary show ?thesis by (simp add: read_step_def on_summary_def with_store_def Let_def reads_from_refl)
  next
    case (Update doc bs is_last)
    have "\<forall>(d, u) \<in> set us. length u \<le> MAX_UPDATE_BYTES"
      using flow_invD(3) [OF inv] by (auto simp: flow_of_def)
    from assemble_in_stream [OF us [unfolded Update] this]
    obtain buffer where buffer: "assemble doc bs (assembling lb) = Inr buffer"
      and parts: "if is_last then \<exists>us'. us = (doc, buffer) # us' \<and> stream None ms = Some us'
        else stream (Some (doc, buffer)) ms = Some us" by blast
    show ?thesis
    proof (cases is_last)
      case False
      have "flow_of la (lb\<lparr>assembling := Some (doc, buffer)\<rparr>) ms to_a us = flow_of la lb (m # ms) to_a us"
        using Update by (simp add: flow_of_def)
      with False parts inv no' have "flow_ok ops mg A B la (lb\<lparr>assembling := Some (doc, buffer)\<rparr>) ms to_a"
        by (simp add: flow_ok_def)
      with False Update buffer show ?thesis by (simp add: read_step_def on_update_def reads_from_refl)
    next
      case True
      with parts obtain us' where us': "us = (doc, buffer) # us'" "stream None ms = Some us'" by auto
      let ?fl = "flow_of la lb (m # ms) to_a us"
      have "tokens ?fl doc > 0" using us' by (simp add: tokens_def flow_of_def)
      with flow_invD(1) [OF inv, of doc] have "awaited ?fl doc \<noteq> None" by (auto split: if_splits)
      then obtain stale where stale: "map_of (pending lb) doc = Some stale" by (auto simp: flow_of_def)
      obtain changed B' where out: "apply_received ops True doc buffer B = (changed, B')" by force
      have takes: "takes ops B doc" using flow_invD(4) [OF inv, of doc] \<open>awaited ?fl doc \<noteq> None\<close> by simp
      have u: "needs mg buffer \<subseteq> content mg B doc" "payload mg buffer \<subseteq> content mg A doc"
        using flow_invD(3) [OF inv, of doc buffer] us' by (auto simp: flow_of_def)
      note ap = apply_law [OF law takes u(1) out]
      let ?r = "finish_update ops True doc buffer stale (lb\<lparr>assembling := None\<rparr>) B"
      have r: "read_store ?r = B'" "fan_out ?r = changed" using out by (simp_all add: finish_update_def Let_def)
      have "updates ?fl = (doc, buffer) # us'" using us' by (simp add: flow_of_def)
      from flow_update_read [OF inv this, of B'] ap
      have "flow_inv ops mg A B' (settle_doc doc (?fl\<lparr>updates := us'\<rparr>))" by blast
      moreover have "settle_doc doc (?fl\<lparr>updates := us'\<rparr>) = flow_of la (read_link ?r) ms to_a us'"
        using stale Update by (subst finish_update_flow) (simp_all add: flow_of_def)
      ultimately have "flow_ok ops mg A B' la (read_link (count_pending ?r)) ms to_a"
        using us' no' by (simp add: flow_ok_def)
      moreover have "reads_from ops mg A B (count_pending ?r)"
        unfolding reads_from_def
      proof
        fix d
        show "content mg B d \<subseteq> content mg (read_store (count_pending ?r)) d \<and>
          content mg (read_store (count_pending ?r)) d \<subseteq> content mg B d \<union> content mg A d \<and>
          takes ops (read_store (count_pending ?r)) d = takes ops B d \<and>
          (fan_out (count_pending ?r) \<noteq> Some d \<longrightarrow> content mg (read_store (count_pending ?r)) d = content mg B d)"
          using ap [of d] u(2) by (cases "d = doc") (auto simp: r)
      qed
      moreover have "read_step ops True m lb B = Inr (count_pending ?r)"
        using True Update buffer stale by (simp add: read_step_def on_update_def)
      ultimately show ?thesis using r by simp
    qed
  qed
qed

text \<open>What the sender reads, and how the stores change otherwise.\<close>

lemma flow_ok_sender_store:
  assumes ok: "flow_ok ops mg A B la lb to_b to_a" and grow: "\<And>doc. content mg A doc \<subseteq> content mg A' doc"
    and told: "\<And>doc. doc \<notin> set docs \<Longrightarrow> content mg A' doc \<subseteq> content mg A doc \<union> content mg B doc"
    and dirty: "set (dirty la') = set (dirty la) \<union> set docs" and control: "control la' = control la"
  shows "flow_ok ops mg A' B la' lb to_b to_a"
proof -
  from ok obtain us where no: "\<forall>sp p. Hello sp p \<notin> set to_b" and us: "stream (assembling lb) to_b = Some us"
    and inv: "flow_inv ops mg A B (flow_of la lb to_b to_a us)"
    unfolding flow_ok_def by blast
  have "flow_inv ops mg A' B (flow_of la lb to_b to_a us\<lparr>unannounced := unannounced (flow_of la lb to_b to_a us) \<union> set docs\<rparr>)"
    using inv grow told by (rule flow_sender_grows)
  then have "flow_inv ops mg A' B (flow_of la' lb to_b to_a us)" by (simp add: flow_of_def dirty control)
  with no us show ?thesis by (auto simp: flow_ok_def)
qed

lemma flow_ok_receiver_store:
  assumes ok: "flow_ok ops mg A B la lb to_b to_a" and grow: "\<And>doc. content mg B doc \<subseteq> content mg B' doc"
    and keep: "\<And>doc. takes ops B doc \<Longrightarrow> takes ops B' doc"
    and asks: "\<And>doc. \<not> takes ops B doc \<Longrightarrow> takes ops B' doc \<Longrightarrow> SendRequestSummary \<in> set extra"
    and link: "control lb' = control lb @ extra" "want_docs extra = []" "pending lb' = pending lb" "assembling lb' = assembling lb"
  shows "flow_ok ops mg A B' la lb' to_b to_a"
proof -
  from ok obtain us where no: "\<forall>sp p. Hello sp p \<notin> set to_b" and us: "stream (assembling lb) to_b = Some us"
    and inv: "flow_inv ops mg A B (flow_of la lb to_b to_a us)"
    unfolding flow_ok_def by blast
  have "flow_inv ops mg A B' (flow_of la lb to_b to_a us\<lparr>summary_due :=
      (summary_due (flow_of la lb to_b to_a us) \<or> SendRequestSummary \<in> set extra)\<rparr>)"
    using inv grow keep asks by (rule flow_receiver_grows)
  also have "flow_of la lb to_b to_a us\<lparr>summary_due :=
      (summary_due (flow_of la lb to_b to_a us) \<or> SendRequestSummary \<in> set extra)\<rparr> = flow_of la lb' to_b to_a us"
    using link by (auto simp: flow_of_def)
  finally show ?thesis using no us link by (auto simp: flow_ok_def)
qed

lemma flow_ok_sender_reads:
  assumes ok: "flow_ok ops mg A B la lb to_b (m # ms)" and read: "read_step ops True m la A = Inr r"
    and store: "reads_from ops mg B A r"
  shows "flow_ok ops mg (read_store r) B (read_link r) lb to_b ms"
proof -
  from ok obtain us where no: "\<forall>sp p. Hello sp p \<notin> set to_b" and us: "stream (assembling lb) to_b = Some us"
    and inv: "flow_inv ops mg A B (flow_of la lb to_b (m # ms) us)"
    unfolding flow_ok_def by blast
  let ?fl = "flow_of la lb to_b (m # ms) us"
  have "flow_inv ops mg A B (flow_of (read_link r) lb to_b ms us)"
  proof (cases m)
    case (Hello sp p)
    with read show ?thesis by (simp add: read_step_def)
  next
    case (Want doc v)
    have "requested ?fl = (doc, v) # asked_docs ms" using Want by (simp add: flow_of_def)
    from flow_request_read [OF inv this] Want read show ?thesis
      by (auto simp: read_step_def enqueue_def flow_of_def)
  next
    case RequestSummary
    then have "flow_of (read_link r) lb to_b ms us = ?fl" using read by (auto simp: read_step_def enqueue_def flow_of_def)
    with inv show ?thesis by simp
  next
    case (Summary docs whole)
    then have "flow_of (read_link r) lb to_b ms us = ?fl"
      using read by (auto simp: read_step_def on_summary_def with_store_def Let_def flow_of_def)
    with inv show ?thesis by simp
  next
    case (Update doc bs is_last)
    then have "flow_of (read_link r) lb to_b ms us = ?fl"
      using read by (auto simp: read_step_def on_update_def flow_of_def split: sum.splits if_splits option.splits)
    with inv show ?thesis by simp
  qed
  then have mid: "flow_ok ops mg A B (read_link r) lb to_b ms" using no us by (auto simp: flow_ok_def)
  show ?thesis
    by (rule flow_ok_sender_store [OF mid, where docs = "[]"]) (use store in \<open>auto simp: reads_from_def\<close>)
qed

text \<open>A new connection.\<close>

lemma flow_ok_new: "flow_ok ops mg A B (new_link x t) (new_link y t') [] []"
  by (auto simp: flow_ok_def flow_of_def new_link_def flow_inv_def tokens_def on_its_way_def)

section \<open>Quiet connections\<close>

definition quiet_end :: "link \<Rightarrow> sync_message list \<Rightarrow> bool" where
  "quiet_end l out \<longleftrightarrow> control l = [] \<and> dirty l = [] \<and> out = []"

text \<open>When nothing is left to do on a connection, the receiver has what the sender has.\<close>

lemma quiet_flow:
  assumes ok: "flow_ok ops mg A B la lb [] []" and "control la = []" "dirty la = []" "control lb = []"
  shows "pending lb = [] \<and> assembling lb = None \<and> (\<forall>doc. takes ops B doc \<longrightarrow> content mg A doc \<subseteq> content mg B doc)"
proof -
  have "assembling lb = None \<and> flow_inv ops mg A B (flow_of la lb [] [] [])"
    using ok by (cases "assembling lb") (simp_all add: flow_ok_def)
  then have idle: "assembling lb = None" and inv0: "flow_inv ops mg A B (flow_of la lb [] [] [])" by simp_all
  have tok: "tokens (flow_of la lb [] [] []) doc = 0" for doc
    using assms(2-4) by (simp add: tokens_def flow_of_def)
  have com: "coming ops mg (flow_of la lb [] [] []) doc = {}" for doc
    by (simp add: flow_of_def coming_def)
  have none: "map_of (pending lb) doc = None" for doc
    using flow_invD(1) [OF inv0, of doc] tok [of doc] by (simp add: flow_of_def split: if_splits)
  then have "pending lb = []" by (metis list.exhaust map_of_Cons_code(2) not_None_eq prod.collapse)
  moreover have "\<not> on_its_way (flow_of la lb [] [] []) doc" for doc
    using assms none by (simp add: on_its_way_def flow_of_def)
  ultimately show ?thesis using flow_invD(5) [OF inv0] com idle by auto
qed

end
