(* ===== verification/Sync_Space.thy ===== *)
theory Sync_Space
  imports Sync_Flow
begin

text \<open>
  The whole space: \<open>flow_ok\<close> holds of every connection in either direction, at any time and
  whatever happens, so connections do not fail, requests are answered and quiet devices agree.
\<close>

section \<open>The invariant of a space\<close>

definition net_inv :: "'st store_ops \<Rightarrow> ('st, 'c) meaning \<Rightarrow> ('d, 'st) net \<Rightarrow> bool" where
  "net_inv ops mg s \<longleftrightarrow>
     (\<forall>a b. links s a b = None \<longrightarrow> links s b a = None) \<and> (\<forall>a. links s a a = None) \<and>
     (\<forall>a b la lb. links s a b = Some la \<longrightarrow> links s b a = Some lb \<longrightarrow>
        flow_ok ops mg (stores s a) (stores s b) la lb (wires s a b) (wires s b a))"

lemma net_invI:
  assumes "\<And>a b. links s a b = None \<Longrightarrow> links s b a = None" and "\<And>a. links s a a = None"
    and "\<And>a b la lb. links s a b = Some la \<Longrightarrow> links s b a = Some lb \<Longrightarrow>
      flow_ok ops mg (stores s a) (stores s b) la lb (wires s a b) (wires s b a)"
  shows "net_inv ops mg s"
  using assms by (auto simp: net_inv_def)

lemma net_invD:
  assumes "net_inv ops mg s"
  shows "links s a b = None \<Longrightarrow> links s b a = None" and "links s a a = None"
    and "links s a b = Some la \<Longrightarrow> links s b a = Some lb \<Longrightarrow>
      flow_ok ops mg (stores s a) (stores s b) la lb (wires s a b) (wires s b a)"
  using assms by (auto simp: net_inv_def)

lemma mark_dirty_simps [simp]:
  "control (mark_dirty doc l) = control l" "pending (mark_dirty doc l) = pending l"
  "assembling (mark_dirty doc l) = assembling l" "set (dirty (mark_dirty doc l)) = insert doc (set (dirty l))"
  by (simp_all add: mark_dirty_def set_insort_insert)

lemma mark_all_dirty [simp]:
  "control (fold mark_dirty docs l) = control l" "pending (fold mark_dirty docs l) = pending l"
  "assembling (fold mark_dirty docs l) = assembling l" "set (dirty (fold mark_dirty docs l)) = set (dirty l) \<union> set docs"
  by (induction docs arbitrary: l) auto

lemma fan_simps [simp]:
  "links (fan doc but a s) x y =
     (if x = a \<and> Some y \<noteq> but then map_option (mark_dirty doc) (links s x y) else links s x y)"
  "stores (fan doc but a s) = stores s" "wires (fan doc but a s) = wires s"
  by (simp_all add: fan_def)

lemma fan_all_simps [simp]:
  "links (fan_all docs a s) x y = (if x = a then map_option (fold mark_dirty docs) (links s x y) else links s x y)"
  "stores (fan_all docs a s) = stores s" "wires (fan_all docs a s) = wires s"
  unfolding fan_all_def
  by (induction docs arbitrary: s) (auto simp: option.map_comp comp_def option.map_ident option.map_id0)

lemma refresh_simps [simp]:
  "links (refresh a s) x y = (if x = a then map_option (enqueue SendRequestSummary) (links s x y) else links s x y)"
  "stores (refresh a s) = stores s" "wires (refresh a s) = wires s"
  by (simp_all add: refresh_def)

lemma enqueue_simps [simp]:
  "control (enqueue out l) = control l @ [out]" "pending (enqueue out l) = pending l"
  "assembling (enqueue out l) = assembling l" "dirty (enqueue out l) = dirty l"
  by (simp_all add: enqueue_def)

lemma flow_ok_sender_asks: "flow_ok ops mg A B la lb to_b to_a \<Longrightarrow>
    flow_ok ops mg A B (enqueue SendRequestSummary la) lb to_b to_a"
  by (simp add: flow_ok_def flow_of_def)

lemma flow_ok_receiver_asks:
  assumes "flow_ok ops mg A B la lb to_b to_a"
  shows "flow_ok ops mg A B la (enqueue SendRequestSummary lb) to_b to_a"
  by (rule flow_ok_receiver_store [OF assms, where extra = "[SendRequestSummary]"]) simp_all

lemma flow_ok_sender_ticks:
  assumes "lawful ops mg" and ok: "flow_ok ops mg A B la lb to_b to_a"
  shows "flow_ok ops mg A B la lb (to_b @ write_item ops True A SendSummary) to_a"
proof -
  let ?l = "la\<lparr>control := SendSummary # control la\<rparr>"
  from ok obtain us where no: "\<forall>sp p. Hello sp p \<notin> set to_b" and us: "stream (assembling lb) to_b = Some us"
    and inv: "flow_inv ops mg A B (flow_of la lb to_b to_a us)"
    unfolding flow_ok_def by blast
  have "flow_inv ops mg A B (flow_of la lb to_b to_a us\<lparr>summary_due := summary_due (flow_of la lb to_b to_a us) \<or> True\<rparr>)"
    by (rule flow_receiver_grows [OF inv]) simp_all
  also have "flow_of la lb to_b to_a us\<lparr>summary_due := summary_due (flow_of la lb to_b to_a us) \<or> True\<rparr> = flow_of ?l lb to_b to_a us"
    by (simp add: flow_of_def)
  finally have "flow_ok ops mg A B ?l lb to_b to_a" using no us by (auto simp: flow_ok_def)
  from flow_ok_sender_writes [OF assms(1) this, of SendSummary "control la"] show ?thesis by simp
qed

lemma flow_ok_receiver_ticks:
  "flow_ok ops mg A B la lb to_b to_a \<Longrightarrow> flow_ok ops mg A B la lb to_b (to_a @ write_item ops True B SendSummary)"
  by (simp add: flow_ok_def flow_of_def write_item_def)

lemma set2_other: "\<not> (x = a \<and> y = b) \<Longrightarrow> set2 a b v f x y = f x y"
  by auto

section \<open>Every step keeps it\<close>

lemma inv_connect:
  assumes inv: "net_inv ops mg s" and "a \<noteq> b"
  shows "net_inv ops mg (connect a b now s)"
proof (rule net_invI)
  show "links (connect a b now s) x y = None \<Longrightarrow> links (connect a b now s) y x = None" for x y
    using net_invD(1) [OF inv, of x y] by (auto simp: connect_def disconnect_def split: if_splits)
  show "links (connect a b now s) x x = None" for x using net_invD(2) [OF inv, of x] assms(2) by (simp add: connect_def)
  fix x y lx ly assume "links (connect a b now s) x y = Some lx" and "links (connect a b now s) y x = Some ly"
  then show "flow_ok ops mg (stores (connect a b now s) x) (stores (connect a b now s) y) lx ly
      (wires (connect a b now s) x y) (wires (connect a b now s) y x)"
    using net_invD(3) [OF inv, of x y lx ly] assms(2) by (auto simp: connect_def flow_ok_new split: if_splits)
qed

lemma inv_disconnect:
  assumes inv: "net_inv ops mg s"
  shows "net_inv ops mg (disconnect a b s)"
proof (rule net_invI)
  show "links (disconnect a b s) x y = None \<Longrightarrow> links (disconnect a b s) y x = None" for x y
    using net_invD(1) [OF inv, of x y] by (auto simp: connect_def disconnect_def split: if_splits)
  show "links (disconnect a b s) x x = None" for x using net_invD(2) [OF inv, of x] by (simp add: disconnect_def)
  fix x y lx ly assume l: "links (disconnect a b s) x y = Some lx" "links (disconnect a b s) y x = Some ly"
  have n: "\<not> (x = a \<and> y = b)" "\<not> (x = b \<and> y = a)" using l by (auto simp: disconnect_def)
  then have "\<not> (y = a \<and> x = b)" "\<not> (y = b \<and> x = a)" by blast+
  with n have "links (disconnect a b s) x y = links s x y" "links (disconnect a b s) y x = links s y x"
    "wires (disconnect a b s) x y = wires s x y" "wires (disconnect a b s) y x = wires s y x"
    "stores (disconnect a b s) = stores s"
    by (simp_all add: disconnect_def set2_other del: set2_apply)
  with l net_invD(3) [OF inv, of x y lx ly]
  show "flow_ok ops mg (stores (disconnect a b s) x) (stores (disconnect a b s) y) lx ly
      (wires (disconnect a b s) x y) (wires (disconnect a b s) y x)" by (simp only:)
qed

lemma inv_refresh:
  assumes inv: "net_inv ops mg s"
  shows "net_inv ops mg (refresh a s)"
proof (rule net_invI)
  show "links (refresh a s) x y = None \<Longrightarrow> links (refresh a s) y x = None" for x y
    using net_invD(1) [OF inv, of x y] by (auto simp: connect_def disconnect_def split: if_splits)
  show "links (refresh a s) x x = None" for x using net_invD(2) [OF inv, of x] by auto
  fix x y lx ly assume l: "links (refresh a s) x y = Some lx" "links (refresh a s) y x = Some ly"
  obtain kx ky where k: "links s x y = Some kx" "links s y x = Some ky" using l by (auto split: if_splits)
  have "lx = kx \<or> lx = enqueue SendRequestSummary kx" "ly = ky \<or> ly = enqueue SendRequestSummary ky"
    using l k by (auto split: if_splits)
  with net_invD(3) [OF inv k]
  show "flow_ok ops mg (stores (refresh a s) x) (stores (refresh a s) y) lx ly (wires (refresh a s) x y) (wires (refresh a s) y x)"
    by (auto intro: flow_ok_sender_asks flow_ok_receiver_asks)
qed

lemma inv_edit:
  assumes inv: "net_inv ops mg s" and grow: "grows ops mg (stores s a) st' docs refreshes"
  shows "net_inv ops mg ((if refreshes then refresh a else id) (fan_all docs a (s\<lparr>stores := (stores s)(a := st')\<rparr>)))"
    (is "net_inv ops mg ?t")
proof (rule net_invI)
  let ?extra = "if refreshes then [SendRequestSummary] else []"
  let ?upd = "\<lambda>l. (if refreshes then enqueue SendRequestSummary else id) (fold mark_dirty docs l)"
  have t: "stores ?t = (stores s)(a := st')" "wires ?t = wires s"
    "links ?t x y = (if x = a then map_option ?upd (links s x y) else links s x y)" for x y
    by (auto simp: option.map_comp comp_def)
  show "links ?t x y = None \<Longrightarrow> links ?t y x = None" for x y
    using net_invD(1) [OF inv, of x y] by (auto simp: t split: if_splits)
  show "links ?t x x = None" for x using net_invD(2) [OF inv, of x] by (auto simp: t)
  fix x y lx ly assume lx: "links ?t x y = Some lx" and ly: "links ?t y x = Some ly"
  have xy: "x \<noteq> y" using lx net_invD(2) [OF inv] by (auto simp: t split: if_splits)
  have g: "content mg (stores s a) doc \<subseteq> content mg st' doc" "content mg (stores s a) doc \<noteq> content mg st' doc \<Longrightarrow> doc \<in> set docs"
    "takes ops (stores s a) doc \<Longrightarrow> takes ops st' doc" "\<not> takes ops (stores s a) doc \<Longrightarrow> takes ops st' doc \<Longrightarrow> refreshes" for doc
    using grow unfolding grows_def by blast+
  consider "x = a" | "y = a" | "x \<noteq> a" "y \<noteq> a" by blast
  then show "flow_ok ops mg (stores ?t x) (stores ?t y) lx ly (wires ?t x y) (wires ?t y x)"
  proof cases
    case 1
    with lx ly xy obtain la where la: "links s a y = Some la" "lx = ?upd la" "links s y a = Some ly" by (auto simp: t)
    have "flow_ok ops mg st' (stores s y) (fold mark_dirty docs la) ly (wires s a y) (wires s y a)"
      by (rule flow_ok_sender_store [OF net_invD(3) [OF inv la(1) la(3)], where docs = docs]) (use g in auto)
    then have "flow_ok ops mg st' (stores s y) lx ly (wires s a y) (wires s y a)"
      using la(2) by (cases refreshes) (auto intro: flow_ok_sender_asks)
    with 1 xy show ?thesis by (simp add: t)
  next
    case 2
    with lx ly xy obtain lb where lb: "links s a x = Some lb" "ly = ?upd lb" "links s x a = Some lx" by (auto simp: t)
    have "flow_ok ops mg (stores s x) st' lx ly (wires s x a) (wires s a x)"
      by (rule flow_ok_receiver_store [OF net_invD(3) [OF inv lb(3) lb(1)], where extra = ?extra]) (use g lb(2) in auto)
    with 2 xy show ?thesis by (simp add: t)
  next
    case 3
    with lx ly net_invD(3) [OF inv, of x y lx ly] show ?thesis by (simp add: t)
  qed
qed

lemma inv_tick:
  assumes law: "lawful ops mg" and inv: "net_inv ops mg s" and "links s a b = Some l"
  shows "net_inv ops mg (s\<lparr>wires := set2 a b (wires s a b @ write_item ops True (stores s a) SendSummary) (wires s)\<rparr>)"
    (is "net_inv ops mg ?t")
proof (rule net_invI)
  have ab: "a \<noteq> b" using assms(3) net_invD(2) [OF inv] by auto
  show "links ?t x y = None \<Longrightarrow> links ?t y x = None" for x y
    using net_invD(1) [OF inv, of x y] by (auto simp: connect_def disconnect_def split: if_splits)
  show "links ?t x x = None" for x using net_invD(2) [OF inv] by simp
  fix x y lx ly assume "links ?t x y = Some lx" and "links ?t y x = Some ly"
  then have "flow_ok ops mg (stores s x) (stores s y) lx ly (wires s x y) (wires s y x)" using net_invD(3) [OF inv] by simp
  then show "flow_ok ops mg (stores ?t x) (stores ?t y) lx ly (wires ?t x y) (wires ?t y x)"
    using ab flow_ok_sender_ticks [OF law] flow_ok_receiver_ticks by (auto split: if_splits)
qed

lemma inv_write:
  assumes law: "lawful ops mg" and inv: "net_inv ops mg s" and l: "links s a b = Some l" and head: "control l = out # rest"
  shows "net_inv ops mg (s\<lparr>links := set2 a b (Some (l\<lparr>control := rest\<rparr>)) (links s),
      wires := set2 a b (wires s a b @ write_item ops True (stores s a) out) (wires s)\<rparr>)" (is "net_inv ops mg ?t")
proof (rule net_invI)
  have ab: "a \<noteq> b" using l net_invD(2) [OF inv] by auto
  show "links ?t x y = None \<Longrightarrow> links ?t y x = None" for x y
    using net_invD(1) [OF inv, of x y] l by (auto simp: connect_def disconnect_def split: if_splits)
  show "links ?t x x = None" for x using net_invD(2) [OF inv] ab by simp
  fix x y lx ly assume lx: "links ?t x y = Some lx" and ly: "links ?t y x = Some ly"
  consider "x = a" "y = b" | "x = b" "y = a" | "\<not> (x = a \<and> y = b)" "\<not> (x = b \<and> y = a)" by blast
  then show "flow_ok ops mg (stores ?t x) (stores ?t y) lx ly (wires ?t x y) (wires ?t y x)"
  proof cases
    case 1
    with lx ly ab have "lx = l\<lparr>control := rest\<rparr>" "links s b a = Some ly" by auto
    with 1 ab flow_ok_sender_writes [OF law net_invD(3) [OF inv l this(2)] head] show ?thesis by simp
  next
    case 2
    with lx ly ab have "ly = l\<lparr>control := rest\<rparr>" "links s b a = Some lx" by auto
    with 2 ab flow_ok_receiver_writes [OF law net_invD(3) [OF inv this(2) l] head] show ?thesis by simp
  next
    case 3
    then have "\<not> (y = a \<and> x = b)" by blast
    with 3 have "links ?t x y = links s x y" "links ?t y x = links s y x" "wires ?t x y = wires s x y"
      "wires ?t y x = wires s y x" "stores ?t = stores s"
      by (simp_all add: set2_other del: set2_apply)
    with lx ly net_invD(3) [OF inv, of x y lx ly] show ?thesis by (simp only:)
  qed
qed

lemma inv_announce:
  assumes law: "lawful ops mg" and inv: "net_inv ops mg s" and l: "links s a b = Some l"
  shows "net_inv ops mg (s\<lparr>links := set2 a b (Some (l\<lparr>dirty := []\<rparr>)) (links s),
      wires := set2 a b (wires s a b @ announce ops True (stores s a) (dirty l)) (wires s)\<rparr>)" (is "net_inv ops mg ?t")
proof (rule net_invI)
  have ab: "a \<noteq> b" using l net_invD(2) [OF inv] by auto
  show "links ?t x y = None \<Longrightarrow> links ?t y x = None" for x y
    using net_invD(1) [OF inv, of x y] l by (auto simp: connect_def disconnect_def split: if_splits)
  show "links ?t x x = None" for x using net_invD(2) [OF inv] ab by simp
  fix x y lx ly assume lx: "links ?t x y = Some lx" and ly: "links ?t y x = Some ly"
  consider "x = a" "y = b" | "x = b" "y = a" | "\<not> (x = a \<and> y = b)" "\<not> (x = b \<and> y = a)" by blast
  then show "flow_ok ops mg (stores ?t x) (stores ?t y) lx ly (wires ?t x y) (wires ?t y x)"
  proof cases
    case 1
    with lx ly ab have "lx = l\<lparr>dirty := []\<rparr>" "links s b a = Some ly" by auto
    with 1 ab flow_ok_sender_announces [OF law net_invD(3) [OF inv l this(2)]] show ?thesis by simp
  next
    case 2
    with lx ly ab have "ly = l\<lparr>dirty := []\<rparr>" "links s b a = Some lx" by auto
    with 2 ab flow_ok_receiver_announces [OF net_invD(3) [OF inv this(2) l]] show ?thesis by simp
  next
    case 3
    then have "\<not> (y = a \<and> x = b)" by blast
    with 3 have "links ?t x y = links s x y" "links ?t y x = links s y x" "wires ?t x y = wires s x y"
      "wires ?t y x = wires s y x" "stores ?t = stores s"
      by (simp_all add: set2_other del: set2_apply)
    with lx ly net_invD(3) [OF inv, of x y lx ly] show ?thesis by (simp only:)
  qed
qed

lemma apply_reading_simps [simp]:
  "stores (apply_reading b a r s) = (stores s)(b := read_store r)"
  "wires (apply_reading b a r s) = wires s"
  "links (apply_reading b a r s) x y =
     (if x = b \<and> y = a then Some (read_link r)
      else if x = b then map_option (case fan_out r of None \<Rightarrow> id | Some doc \<Rightarrow> mark_dirty doc) (links s x y)
      else links s x y)"
  by (auto simp: apply_reading_def Let_def option.map_id split: option.split)

lemma inv_read:
  assumes law: "lawful ops mg" and inv: "net_inv ops mg s" and l: "links s b a = Some l"
    and head: "wires s a b = m # ms" and read: "read_step ops True m l (stores s b) = Inr r"
  shows "net_inv ops mg (apply_reading b a r (s\<lparr>wires := set2 a b ms (wires s)\<rparr>))" (is "net_inv ops mg ?t")
proof (rule net_invI)
  have ab: "a \<noteq> b" using l net_invD(2) [OF inv] by auto
  show "links ?t x y = None \<Longrightarrow> links ?t y x = None" for x y
    using net_invD(1) [OF inv, of x y] net_invD(1) [OF inv, of a b] l by (auto split: if_splits)
  show "links ?t x x = None" for x using net_invD(2) [OF inv] ab by auto
  obtain la where la: "links s a b = Some la" using net_invD(1) [OF inv, of a b] l by (cases "links s a b") auto
  have ok: "flow_ok ops mg (stores s a) (stores s b) la l (m # ms) (wires s b a)"
    using net_invD(3) [OF inv la l] head by simp
  with flow_ok_receiver_reads [OF law ok] read have r: "reads_from ops mg (stores s a) (stores s b) r"
    and to_b: "flow_ok ops mg (stores s a) (read_store r) la (read_link r) ms (wires s b a)" by auto
  have "flow_ok ops mg (stores s b) (stores s a) l la (wires s b a) (m # ms)"
    using net_invD(3) [OF inv l la] head by simp
  from flow_ok_sender_reads [OF this read r]
  have to_a: "flow_ok ops mg (read_store r) (stores s a) (read_link r) la (wires s b a) ms" .
  let ?docs = "case fan_out r of None \<Rightarrow> [] | Some doc \<Rightarrow> [doc]"
  let ?mark = "case fan_out r of None \<Rightarrow> id | Some doc \<Rightarrow> mark_dirty doc"
  have grow: "content mg (stores s b) doc \<subseteq> content mg (read_store r) doc" "takes ops (read_store r) doc = takes ops (stores s b) doc"
    "doc \<notin> set ?docs \<Longrightarrow> content mg (read_store r) doc = content mg (stores s b) doc" for doc
    using r by (auto simp: reads_from_def split: option.splits)
  have mark: "control (?mark k) = control k" "pending (?mark k) = pending k" "assembling (?mark k) = assembling k"
    "set (dirty (?mark k)) = set (dirty k) \<union> set ?docs" for k by (auto split: option.split)
  fix x y lx ly assume lx: "links ?t x y = Some lx" and ly: "links ?t y x = Some ly"
  consider "x = a" "y = b" | "x = b" "y = a" | "x = b" "y \<noteq> a" | "y = b" "x \<noteq> a" | "x \<noteq> b" "y \<noteq> b" by blast
  then show "flow_ok ops mg (stores ?t x) (stores ?t y) lx ly (wires ?t x y) (wires ?t y x)"
  proof cases
    case 1
    with lx ly la ab to_b show ?thesis by simp
  next
    case 2
    with lx ly la ab to_a show ?thesis by simp
  next
    case 3
    then have yb: "y \<noteq> b" using lx net_invD(2) [OF inv] by auto
    with 3 lx ly obtain k where k: "links s b y = Some k" "lx = ?mark k" "links s y b = Some ly" by auto
    have "flow_ok ops mg (read_store r) (stores s y) lx ly (wires s b y) (wires s y b)"
      by (rule flow_ok_sender_store [OF net_invD(3) [OF inv k(1) k(3)], where docs = ?docs])
        (use grow mark k(2) in auto)
    with 3 yb ab show ?thesis by simp
  next
    case 4
    then have xb: "x \<noteq> b" using lx net_invD(2) [OF inv] by auto
    with 4 lx ly obtain k where k: "links s b x = Some k" "ly = ?mark k" "links s x b = Some lx" by auto
    have "flow_ok ops mg (stores s x) (read_store r) lx ly (wires s x b) (wires s b x)"
      by (rule flow_ok_receiver_store [OF net_invD(3) [OF inv k(3) k(1)], where extra = "[]"])
        (use grow mark k(2) in auto)
    with 4 xb ab show ?thesis by simp
  next
    case 5
    with lx ly net_invD(3) [OF inv, of x y lx ly] show ?thesis by simp
  qed
qed

lemma net_step_inv:
  assumes "lawful ops mg" and "net_step ops mg s t" and "net_inv ops mg s"
  shows "net_inv ops mg t"
  using assms(2,3)
proof cases
  case (Connect a b now)
  then show ?thesis using inv_connect [OF assms(3)] by blast
next
  case (Disconnect a b)
  then show ?thesis using inv_disconnect [OF assms(3)] by blast
next
  case (Edit a st' docs refreshes)
  then show ?thesis using inv_edit [OF assms(3)] by blast
next
  case (Refresh a)
  then show ?thesis using inv_refresh [OF assms(3)] by blast
next
  case (Tick a b l)
  then show ?thesis using inv_tick [OF assms(1,3)] by blast
next
  case (Write a b l out rest)
  then show ?thesis using inv_write [OF assms(1,3)] by blast
next
  case (Announce a b l)
  then show ?thesis using inv_announce [OF assms(1,3)] by blast
next
  case (Read b a l m ms r)
  then show ?thesis using inv_read [OF assms(1,3)] by blast
next
  case (Fail b a l m ms e)
  then show ?thesis using inv_disconnect [OF assms(3)] by blast
qed

lemma reachable_inv: "reachable_net ops mg s \<Longrightarrow> lawful ops mg \<Longrightarrow> net_inv ops mg s"
proof (induction rule: reachable_net.induct)
  case (Start s)
  then show ?case by (intro net_invI) (simp_all add: unconnected_def)
next
  case (Step s t)
  then show ?case using net_step_inv by blast
qed

section \<open>What holds of every space\<close>




section \<open>A store that is lawful\<close>

text \<open>Documents as sets of byte-sized changes, versions and digests as sorted lists of them.\<close>

definition sorted_bytes :: "byte set \<Rightarrow> bytes" where
  "sorted_bytes cs = sorted_list_of_set cs"

definition set_store :: "(docid \<times> bytes) list store_ops" where
  "set_store = \<lparr>
     summary_of = (\<lambda>st. map (\<lambda>doc. (doc, sorted_bytes (set (the (map_of st doc))))) (map fst st)),
     digest_of = (\<lambda>st doc. map_option (\<lambda>cs. sorted_bytes (set cs)) (map_of st doc)),
     version_of = (\<lambda>st doc. map_option (\<lambda>cs. sorted_bytes (set cs)) (map_of st doc)),
     updates_since = (\<lambda>st doc v. map_option (\<lambda>cs. sorted_bytes (set cs - set v)) (map_of st doc)),
     apply_update = (\<lambda>st doc u. let cs = (case map_of st doc of None \<Rightarrow> [] | Some cs \<Rightarrow> cs)
       in (Inr (\<not> set u \<subseteq> set cs), (doc, cs @ u) # st)),
     accepts_doc = (\<lambda>st doc. True)\<rparr>"

definition set_meaning :: "((docid \<times> bytes) list, byte) meaning" where
  "set_meaning = \<lparr>changes = (\<lambda>st doc. map_option set (map_of st doc)), known = set, payload = set, needs = (\<lambda>u. {})\<rparr>"

lemma set_sorted_bytes [simp]: "set (sorted_bytes cs) = cs"
  by (simp add: sorted_bytes_def)

lemma length_sorted_bytes: "length (sorted_bytes cs) \<le> MAX_UPDATE_BYTES"
proof -
  have "card cs \<le> CARD(byte)" by (rule card_mono) simp_all
  then show ?thesis by (simp add: sorted_bytes_def MAX_UPDATE_BYTES_def card_word)
qed

lemma set_store_summary: "set (summary_of set_store st) = {(doc, d). digest_of set_store st doc = Some d}"
proof -
  have "(doc, d) \<in> (\<lambda>doc. (doc, sorted_bytes (set (the (map_of st doc))))) ` set (map fst st) \<longleftrightarrow>
      map_option (\<lambda>cs. sorted_bytes (set cs)) (map_of st doc) = Some d" for doc d
    using map_of_eq_None_iff [of st doc] by (cases "map_of st doc") auto
  then show ?thesis
    unfolding set_store_def store_ops.simps set_map [of _ "map fst st"] by blast
qed

lemma set_store_lawful: "lawful set_store set_meaning"
proof -
  have "sorted_bytes (set x) = sorted_bytes (set y) \<Longrightarrow> set x = set y" for x y
    by (metis set_sorted_bytes)
  then have "lawful_reads set_store set_meaning"
    by (simp add: lawful_reads_def set_store_summary) (auto simp: set_store_def set_meaning_def)
  moreover have "lawful_updates set_store set_meaning"
    unfolding lawful_updates_def
    by (auto simp: set_store_def set_meaning_def content_def takes_def length_sorted_bytes Let_def split: option.split)
  ultimately show ?thesis by (simp add: lawful_def)
qed

text \<open>Two devices and their connection.\<close>

definition pair_net ::
    "'st \<Rightarrow> 'st \<Rightarrow> link \<Rightarrow> link \<Rightarrow> sync_message list \<Rightarrow> sync_message list \<Rightarrow> (bool, 'st) net" where
  "pair_net A B la lb to_b to_a =
     \<lparr>stores = (\<lambda>x. if x then A else B),
      links = (\<lambda>x y. if x \<and> \<not> y then Some la else if \<not> x \<and> y then Some lb else None),
      wires = (\<lambda>x y. if x \<and> \<not> y then to_b else if \<not> x \<and> y then to_a else [])\<rparr>"

lemma pair_start:
  "reachable_net ops mg (pair_net A B (new_link True 0) (new_link False 0) [] [])"
proof -
  let ?s = "\<lparr>stores = (\<lambda>x. if x then A else B), links = (\<lambda>x y. None), wires = (\<lambda>x y. [])\<rparr>"
  have "reachable_net ops mg ?s" by (rule Start) (simp add: unconnected_def)
  then have "reachable_net ops mg (connect True False 0 ?s)" by (rule Step) (rule Connect, simp)
  also have "connect True False 0 ?s = pair_net A B (new_link True 0) (new_link False 0) [] []"
    by (auto simp: connect_def pair_net_def set2_def fun_eq_iff new_link_def)
  finally show ?thesis .
qed

lemma pair_writes:
  assumes "reachable_net ops mg (pair_net A B la lb to_b to_a)"
  shows "control la = out # rest \<Longrightarrow>
      reachable_net ops mg (pair_net A B (la\<lparr>control := rest\<rparr>) lb (to_b @ write_item ops True A out) to_a)"
    and "control lb = out # rest \<Longrightarrow>
      reachable_net ops mg (pair_net A B la (lb\<lparr>control := rest\<rparr>) to_b (to_a @ write_item ops True B out))"
proof -
  let ?s = "pair_net A B la lb to_b to_a"
  assume c: "control la = out # rest"
  have "links ?s True False = Some la" "wires ?s True False = to_b" "stores ?s True = A" by (simp_all add: pair_net_def)
  from Step [OF assms Write [OF this(1) c]] this(2,3)
  have "reachable_net ops mg (?s\<lparr>links := set2 True False (Some (la\<lparr>control := rest\<rparr>)) (links ?s),
      wires := set2 True False (to_b @ write_item ops True A out) (wires ?s)\<rparr>)" by simp
  also have "?s\<lparr>links := set2 True False (Some (la\<lparr>control := rest\<rparr>)) (links ?s),
      wires := set2 True False (to_b @ write_item ops True A out) (wires ?s)\<rparr> =
      pair_net A B (la\<lparr>control := rest\<rparr>) lb (to_b @ write_item ops True A out) to_a"
    by (auto simp: pair_net_def set2_def fun_eq_iff)
  finally show "reachable_net ops mg (pair_net A B (la\<lparr>control := rest\<rparr>) lb (to_b @ write_item ops True A out) to_a)" .
next
  let ?s = "pair_net A B la lb to_b to_a"
  assume c: "control lb = out # rest"
  have "links ?s False True = Some lb" "wires ?s False True = to_a" "stores ?s False = B" by (simp_all add: pair_net_def)
  from Step [OF assms Write [OF this(1) c]] this(2,3)
  have "reachable_net ops mg (?s\<lparr>links := set2 False True (Some (lb\<lparr>control := rest\<rparr>)) (links ?s),
      wires := set2 False True (to_a @ write_item ops True B out) (wires ?s)\<rparr>)" by simp
  also have "?s\<lparr>links := set2 False True (Some (lb\<lparr>control := rest\<rparr>)) (links ?s),
      wires := set2 False True (to_a @ write_item ops True B out) (wires ?s)\<rparr> =
      pair_net A B la (lb\<lparr>control := rest\<rparr>) to_b (to_a @ write_item ops True B out)"
    by (auto simp: pair_net_def set2_def fun_eq_iff)
  finally show "reachable_net ops mg (pair_net A B la (lb\<lparr>control := rest\<rparr>) to_b (to_a @ write_item ops True B out))" .
qed

lemma pair_reads:
  assumes "reachable_net ops mg (pair_net A B la lb to_b to_a)"
  shows "to_b = m # ms \<Longrightarrow> read_step ops True m lb B = Inr r \<Longrightarrow>
      reachable_net ops mg (pair_net A (read_store r) la (read_link r) ms to_a)"
    and "to_a = m # ms \<Longrightarrow> read_step ops True m la A = Inr r \<Longrightarrow>
      reachable_net ops mg (pair_net (read_store r) B (read_link r) lb to_b ms)"
proof -
  let ?s = "pair_net A B la lb to_b to_a"
  assume c: "to_b = m # ms" and r: "read_step ops True m lb B = Inr r"
  have "links ?s False True = Some lb" "wires ?s True False = m # ms" "stores ?s False = B" using c by (simp_all add: pair_net_def)
  from Step [OF assms Read [OF this(1,2)]] r this(3)
  have "reachable_net ops mg (apply_reading False True r (?s\<lparr>wires := set2 True False ms (wires ?s)\<rparr>))" by simp
  also have "apply_reading False True r (?s\<lparr>wires := set2 True False ms (wires ?s)\<rparr>) =
      pair_net A (read_store r) la (read_link r) ms to_a"
    by (auto simp: pair_net_def apply_reading_def Let_def fan_def set2_def fun_eq_iff split: option.split)
  finally show "reachable_net ops mg (pair_net A (read_store r) la (read_link r) ms to_a)" .
next
  let ?s = "pair_net A B la lb to_b to_a"
  assume c: "to_a = m # ms" and r: "read_step ops True m la A = Inr r"
  have "links ?s True False = Some la" "wires ?s False True = m # ms" "stores ?s True = A" using c by (simp_all add: pair_net_def)
  from Step [OF assms Read [OF this(1,2)]] r this(3)
  have "reachable_net ops mg (apply_reading True False r (?s\<lparr>wires := set2 False True ms (wires ?s)\<rparr>))" by simp
  also have "apply_reading True False r (?s\<lparr>wires := set2 False True ms (wires ?s)\<rparr>) =
      pair_net (read_store r) B (read_link r) lb to_b ms"
    by (auto simp: pair_net_def apply_reading_def Let_def fan_def set2_def fun_eq_iff split: option.split)
  finally show "reachable_net ops mg (pair_net (read_store r) B (read_link r) lb to_b ms)" .
qed

definition idle_link :: "bool \<Rightarrow> link" where
  "idle_link mine = (new_link mine 0)\<lparr>control := []\<rparr>"

lemma sorted_byte: "sorted_bytes {b} = [b]"
  by (simp add: sorted_bytes_def)

lemmas sync_eval = new_link_def idle_link_def set_store_def sorted_byte write_item_def with_store_def read_step_def
  on_summary_def wanted_def Let_def count_pending_def enqueue_def on_update_def assemble_def finish_update_def
  apply_received_def write_update_def MAX_UPDATE_BYTES_def

text \<open>A device with one document meets an empty one: announce, request, serve, apply.\<close>

lemma sample_announced:
  "reachable_net set_store set_meaning (pair_net [([100], [5])] [] (idle_link True) (new_link False 0)
     [Summary [([100], [5])] True] [])"
  using pair_writes(1) [OF pair_start [of set_store set_meaning "[([100], [5])]" "[]"], of SendSummary "[]"]
  by (simp add: sync_eval)

lemma sample_agreed:
  "reachable_net set_store set_meaning (pair_net [([100], [5])] [([100], [5])] (idle_link True) (idle_link False) [] [])"
proof -
  let ?A = "[([100], [5])]"
  let ?asked = "(idle_link False)\<lparr>pending := [([100], False)], in_flight := 1\<rparr>"
  have "reachable_net set_store set_meaning (pair_net ?A [] (idle_link True)
      (?asked\<lparr>control := [SendSummary, SendWant [100]]\<rparr>) [] [])"
    using pair_reads(1) [OF sample_announced refl] by (simp add: sync_eval)
  from pair_writes(2) [OF this, of SendSummary "[SendWant [100]]"]
  have "reachable_net set_store set_meaning (pair_net ?A [] (idle_link True)
      (?asked\<lparr>control := [SendWant [100]]\<rparr>) [] [Summary [] True])"
    by (simp add: sync_eval)
  from pair_writes(2) [OF this, of "SendWant [100]" "[]"]
  have "reachable_net set_store set_meaning (pair_net ?A [] (idle_link True) ?asked [] [Summary [] True, Want [100] []])"
    by (simp add: sync_eval)
  from pair_reads(2) [OF this refl]
  have "reachable_net set_store set_meaning (pair_net ?A [] (idle_link True) ?asked [] [Want [100] []])"
    by (simp add: sync_eval)
  from pair_reads(2) [OF this refl]
  have "reachable_net set_store set_meaning (pair_net ?A [] ((idle_link True)\<lparr>control := [Serve [100] []]\<rparr>) ?asked [] [])"
    by (simp add: sync_eval)
  from pair_writes(1) [OF this, of "Serve [100] []" "[]"]
  have "reachable_net set_store set_meaning (pair_net ?A [] (idle_link True) ?asked [Update [100] [5] True] [])"
    by (simp add: sync_eval)
  from pair_reads(1) [OF this refl] show ?thesis by (simp add: sync_eval)
qed




end
