(* ===== verification/Sync_Nearby.thy ===== *)
theory Sync_Nearby
  imports Sync_Pairing Sync_Link "HOL-Library.Product_Lexorder"
begin

text \<open>
  Crate \<open>vt-sync\<close>, \<open>nearby.rs\<close>, with the inbox and the view of \<open>vt-ffi\<close>'s
  \<open>nearby_share.rs\<close> that stand on either end of it: what a device tells its network about itself,
  the handing over of a parcel, and the live captions a neighbour watches. What a peer does to the
  other side is a list of arrivals; the user's decision, the parsing of a frame or a part and the
  delivery of a parcel are parameters.
\<close>

section \<open>Presence\<close>

definition MAX_PARCEL_BYTES :: nat where
  "MAX_PARCEL_BYTES = 64 * 1024 * 1024"

definition CHUNK_BYTES :: nat where
  "CHUNK_BYTES = 1024 * 1024"

definition PRESENCE_TAG :: ustring where
  "PRESENCE_TAG = lit ''zt1''"

definition PRESENCE_MAX_BYTES :: nat where
  "PRESENCE_MAX_BYTES = 245"

definition NAME_MAX_BYTES :: nat where
  "NAME_MAX_BYTES = 64"

record presence =
  presence_name :: ustring
  receiving :: bool
  live_title :: "ustring option"

definition is_visible :: "presence \<Rightarrow> bool" where
  "is_visible p \<longleftrightarrow> receiving p \<or> live_title p \<noteq> None"

definition escape_char :: "uchar \<Rightarrow> ustring" where
  "escape_char c = (if c = 0x25 then lit ''%25'' else if c = 0x7C then lit ''%7C'' else [c])"

fun escape_loop :: "nat \<Rightarrow> ustring \<Rightarrow> ustring \<Rightarrow> ustring" where
  "escape_loop budget out [] = out"
| "escape_loop budget out (c # cs) =
     (if utf8_length out + utf8_length (escape_char c) > budget then out
      else escape_loop budget (out @ escape_char c) cs)"

definition escape_within :: "ustring \<Rightarrow> nat \<Rightarrow> ustring" where
  "escape_within txt budget = escape_loop budget [] txt"

text \<open>\<open>str::replace\<close> with a pattern that is not empty.\<close>

function replace_all :: "ustring \<Rightarrow> ustring \<Rightarrow> ustring \<Rightarrow> ustring" where
  "replace_all pat by [] = []"
| "replace_all pat by (c # cs) =
     (if pat \<noteq> [] \<and> starts_with (c # cs) pat then by @ replace_all pat by (drop (length pat) (c # cs))
      else c # replace_all pat by cs)"
  by pat_completeness auto
termination by (relation "measure (\<lambda>(pat, by, s). length s)") auto

definition unescape :: "ustring \<Rightarrow> ustring" where
  "unescape txt = replace_all (lit ''%25'') (lit ''%'') (replace_all (lit ''%7C'') (lit ''|'') txt)"

definition flags_of :: "presence \<Rightarrow> ustring" where
  "flags_of p = (if receiving p then lit ''r'' else []) @ (if live_title p \<noteq> None then lit ''l'' else [])"

definition encode_presence :: "presence \<Rightarrow> ustring" where
  "encode_presence p =
     (let head = PRESENCE_TAG @ lit ''|'' @ flags_of p @ lit ''|'';
          name = escape_within (presence_name p) NAME_MAX_BYTES;
          rest = PRESENCE_MAX_BYTES - utf8_length head - utf8_length name - 1;
          title = escape_within (case live_title p of None \<Rightarrow> [] | Some t \<Rightarrow> t) rest
      in head @ name @ lit ''|'' @ title)"

text \<open>\<open>str::splitn\<close> on one character.\<close>

fun splitn :: "nat \<Rightarrow> uchar \<Rightarrow> ustring \<Rightarrow> ustring list" where
  "splitn 0 sep s = []"
| "splitn (Suc 0) sep s = [s]"
| "splitn (Suc (Suc n)) sep s =
     (if sep \<in> set s then takeWhile (\<lambda>c. c \<noteq> sep) s # splitn (Suc n) sep (tl (dropWhile (\<lambda>c. c \<noteq> sep) s))
      else [s])"

definition decode_presence :: "ustring \<Rightarrow> presence option" where
  "decode_presence txt =
     (case splitn 4 0x7C txt of
        tag # flags # raw_name # rest \<Rightarrow>
          if tag \<noteq> PRESENCE_TAG then None
          else let title = unescape (case rest of [] \<Rightarrow> [] | t # _ \<Rightarrow> t);
                   p = \<lparr>presence_name = sanitize_device_name (unescape raw_name),
                        receiving = (of_char CHR ''r'' \<in> set flags),
                        live_title = (if of_char CHR ''l'' \<in> set flags
                                      then Some (filter (\<lambda>c. \<not> is_control c) title) else None)\<rparr>
               in if is_visible p then Some p else None
      | _ \<Rightarrow> None)"

text \<open>\<open>NearbyState\<close>; the handler is looked up where it is used.\<close>

record nearby_state =
  my_presence :: "presence option"
  seen :: "(endpoint_id \<times> presence) list"

definition set_presence :: "presence option \<Rightarrow> nearby_state \<Rightarrow> ustring option \<times> nearby_state" where
  "set_presence p st =
     (let p' = (case p of Some q \<Rightarrow> if is_visible q then Some q else None | None \<Rightarrow> None)
      in (map_option encode_presence p', st\<lparr>my_presence := p'\<rparr>))"

definition discovered :: "endpoint_id \<Rightarrow> ustring option \<Rightarrow> nearby_state \<Rightarrow> nearby_state" where
  "discovered device user_data st =
     (case Option.bind user_data decode_presence of
        Some p \<Rightarrow> st\<lparr>seen := AList.update device p (seen st)\<rparr>
      | None \<Rightarrow> st\<lparr>seen := AList.delete device (seen st)\<rparr>)"

definition expired :: "endpoint_id \<Rightarrow> nearby_state \<Rightarrow> nearby_state" where
  "expired device st = st\<lparr>seen := AList.delete device (seen st)\<rparr>"

definition peers :: "nearby_state \<Rightarrow> (endpoint_id \<times> presence) list" where
  "peers st = sort_key (\<lambda>(device, p). (presence_name p, device)) (seen st)"

section \<open>Parcels\<close>

datatype nearby_error =
    NearbyUnreachable ustring | NotReceiving | Declined | NoAnswer | NearbyFailed ustring
  | NotLive | ParcelTooLarge | NearbyInterrupted ustring

datatype nearby_request = OfferRequest ustring ustring nat | WatchRequest

datatype reply =
    ReplyAccepted | ReplyDeclined | ReplyNotReceiving | ReplyTooLarge | ReplyReceived | ReplyFailed ustring
  | ReplyLive ustring | ReplyNotLive | ReplyFrame bytes | ReplyPart nat nat bytes | ReplyEnded

datatype upload = Chunk bytes | UploadDone

text \<open>What comes of waiting for something under a time limit.\<close>

datatype 'a arrival = Arrived 'a | Broken ustring | Late

record incoming_offer =
  offer_from :: endpoint_id
  offer_name :: ustring
  offer_title :: ustring
  offer_bytes :: nat

text \<open>The sender. \<open>dial\<close>, \<open>answer\<close> and \<open>verdict\<close> are what arrives from the other side, \<open>writes\<close>
  the number of frames that can be written before \<open>write_error\<close>.\<close>

record sender_world =
  dial :: "unit arrival"
  answer :: "reply arrival"
  verdict :: "reply arrival"
  writes :: nat
  write_error :: ustring

definition uploads :: "bytes \<Rightarrow> upload list" where
  "uploads parcel = map Chunk (blocks (CHUNK_BYTES - 1) parcel) @ [UploadDone]"

definition on_verdict :: "(reply \<Rightarrow> ustring) \<Rightarrow> reply arrival \<Rightarrow> nearby_error + unit" where
  "on_verdict unexpected v =
     (case v of
        Late \<Rightarrow> Inl NoAnswer
      | Broken e \<Rightarrow> Inl (NearbyInterrupted e)
      | Arrived ReplyReceived \<Rightarrow> Inr ()
      | Arrived (ReplyFailed reason) \<Rightarrow> Inl (NearbyFailed reason)
      | Arrived other \<Rightarrow> Inl (NearbyInterrupted (unexpected other)))"

definition send_parcel ::
    "(reply \<Rightarrow> ustring) \<Rightarrow> ustring \<Rightarrow> ustring \<Rightarrow> bytes \<Rightarrow> sender_world \<Rightarrow>
     (nearby_request option \<times> upload list) \<times> (nearby_error + unit)" where
  "send_parcel unexpected from_name title parcel w =
     (if length parcel > MAX_PARCEL_BYTES then ((None, []), Inl ParcelTooLarge)
      else case dial w of
        Late \<Rightarrow> ((None, []), Inl (NearbyUnreachable [36229, 26102]))
      | Broken e \<Rightarrow> ((None, []), Inl (NearbyUnreachable e))
      | Arrived _ \<Rightarrow>
          if writes w = 0 then ((None, []), Inl (NearbyInterrupted (write_error w)))
          else let offer = Some (OfferRequest from_name title (length parcel))
          in case answer w of
               Late \<Rightarrow> ((offer, []), Inl NoAnswer)
             | Broken e \<Rightarrow> ((offer, []), Inl (NearbyInterrupted e))
             | Arrived ReplyAccepted \<Rightarrow>
                 if writes w \<le> length (uploads parcel)
                 then ((offer, take (writes w - 1) (uploads parcel)), Inl (NearbyInterrupted (write_error w)))
                 else ((offer, uploads parcel), on_verdict unexpected (verdict w))
             | Arrived ReplyDeclined \<Rightarrow> ((offer, []), Inl Declined)
             | Arrived ReplyNotReceiving \<Rightarrow> ((offer, []), Inl NotReceiving)
             | Arrived ReplyTooLarge \<Rightarrow> ((offer, []), Inl ParcelTooLarge)
             | Arrived other \<Rightarrow> ((offer, []), Inl (NearbyInterrupted (unexpected other))))"

text \<open>The receiver. An offer waits for its user; the sender may leave before the answer.\<close>

datatype decision = Answered bool | AnswerDropped | AnswerLate | SenderLeft

datatype delivery = Delivered | DeliveryRefused ustring | DeliveryLost

fun receive_chunks :: "nat \<Rightarrow> bytes \<Rightarrow> upload arrival list \<Rightarrow> reply + bytes" where
  "receive_chunks offered parcel [] = Inl (ReplyFailed [36229, 26102])"
| "receive_chunks offered parcel (Arrived (Chunk bs) # rest) =
     (if length parcel + length bs > offered then Inl (ReplyFailed [27604, 35828, 22909, 30340, 22823])
      else receive_chunks offered (parcel @ bs) rest)"
| "receive_chunks offered parcel (Arrived UploadDone # rest) = Inr parcel"
| "receive_chunks offered parcel (Broken e # rest) = Inl (ReplyFailed e)"
| "receive_chunks offered parcel (Late # rest) = Inl (ReplyFailed [36229, 26102])"

text \<open>The replies in the order they are written, and the parcel that was handed to the application.\<close>

definition receive_parcel ::
    "(incoming_offer \<Rightarrow> bytes \<Rightarrow> delivery) \<Rightarrow> decision \<Rightarrow> bool \<Rightarrow> upload arrival list \<Rightarrow> incoming_offer \<Rightarrow>
     reply list \<times> bytes option" where
  "receive_parcel deliver decided can_write incoming offer =
     (if decided \<noteq> Answered True then ([ReplyDeclined], None)
      else if \<not> can_write then ([ReplyFailed [20013, 26029]], None)
      else case receive_chunks (offer_bytes offer) [] incoming of
             Inl r \<Rightarrow> ([ReplyAccepted, r], None)
           | Inr parcel \<Rightarrow>
               ([ReplyAccepted, (case deliver offer parcel of
                   Delivered \<Rightarrow> ReplyReceived
                 | DeliveryRefused reason \<Rightarrow> ReplyFailed reason
                 | DeliveryLost \<Rightarrow> ReplyFailed [33853, 22320, 22833, 36133])], Some parcel))"

definition on_offer ::
    "(incoming_offer \<Rightarrow> bytes \<Rightarrow> delivery) option \<Rightarrow> nearby_state \<Rightarrow> decision \<Rightarrow> bool \<Rightarrow> upload arrival list \<Rightarrow>
     endpoint_id \<Rightarrow> ustring \<Rightarrow> ustring \<Rightarrow> nat \<Rightarrow> reply list \<times> bytes option" where
  "on_offer handler st decided can_write incoming from from_name title bytes =
     (let is_receiving = (case my_presence st of Some p \<Rightarrow> receiving p | None \<Rightarrow> False);
          offer = \<lparr>offer_from = from, offer_name = sanitize_device_name from_name,
                   offer_title = take 200 (filter (\<lambda>c. \<not> is_control c) title), offer_bytes = bytes\<rparr>
      in if bytes > MAX_PARCEL_BYTES then ([ReplyTooLarge], None)
         else case handler of
                Some deliver \<Rightarrow>
                  if is_receiving then receive_parcel deliver decided can_write incoming offer
                  else ([ReplyNotReceiving], None)
              | None \<Rightarrow> ([ReplyNotReceiving], None))"

text \<open>The inbox of the application: offers wait under a number, an answer takes its offer out.
  \<open>closed\<close> tells which senders no longer wait.\<close>

record nearby_inbox =
  offers :: "(nat \<times> incoming_offer) list"
  next_offer :: nat

definition offer_arrives :: "incoming_offer \<Rightarrow> nearby_inbox \<Rightarrow> nat \<times> nearby_inbox" where
  "offer_arrives offer box =
     (let n = Suc (next_offer box)
      in (n, box\<lparr>next_offer := n, offers := AList.update n offer (offers box)\<rparr>))"

definition pending_offers :: "(nat \<Rightarrow> bool) \<Rightarrow> nearby_inbox \<Rightarrow> (nat \<times> incoming_offer) list \<times> nearby_inbox" where
  "pending_offers closed box =
     (let open_now = filter (\<lambda>(n, _). \<not> closed n) (offers box) in (open_now, box\<lparr>offers := open_now\<rparr>))"

definition answer_offer :: "nat \<Rightarrow> bool \<Rightarrow> nearby_inbox \<Rightarrow> (nat \<times> bool) option \<times> nearby_inbox" where
  "answer_offer n accept box =
     (case map_of (offers box) n of
        Some _ \<Rightarrow> (Some (n, accept), box\<lparr>offers := AList.delete n (offers box)\<rparr>)
      | None \<Rightarrow> (None, box))"

section \<open>Live captions\<close>

text \<open>\<open>send_changed_parts\<close>: the loop over the parts, with what was sent before.\<close>

fun part_loop :: "nat \<Rightarrow> bool \<Rightarrow> nat \<Rightarrow> bytes list \<Rightarrow> bytes list \<Rightarrow> reply list \<times> bytes list" where
  "part_loop count shrank i [] sent = ([], sent)"
| "part_loop count shrank i (part # parts) sent =
     (if (i < length sent \<and> sent ! i = part) \<and> \<not> shrank then part_loop count shrank (Suc i) parts sent
      else let (rs, sent') = part_loop count shrank (Suc i) parts
                 (if i < length sent then sent[i := part] else sent @ [part])
           in (ReplyPart i count part # rs, sent'))"

definition send_changed_parts :: "bytes list \<Rightarrow> bytes list \<Rightarrow> reply list \<times> bytes list" where
  "send_changed_parts parts sent =
     (let shrank = length sent > length parts;
          (rs, sent') = part_loop (length parts) shrank 0 parts (take (length parts) sent)
      in (rs @ (if shrank \<and> parts = [] then [ReplyPart 0 0 []] else []), sent'))"

text \<open>What the live session changes: the frame, or the parts. \<open>watch\<close> channels only keep the latest
  value, so an event is the value at the moment the loop wakes.\<close>

datatype feed_event = FrameChanged "bytes option" | PartsChanged "bytes list"

fun feed_loop :: "bytes list \<Rightarrow> feed_event list \<Rightarrow> reply list" where
  "feed_loop sent [] = []"
| "feed_loop sent (FrameChanged None # es) = feed_loop sent es"
| "feed_loop sent (FrameChanged (Some frame) # es) = ReplyFrame frame # feed_loop sent es"
| "feed_loop sent (PartsChanged parts # es) =
     (let (rs, sent') = send_changed_parts parts sent in rs @ feed_loop sent' es)"

definition stream_live :: "ustring \<Rightarrow> bytes list \<Rightarrow> bytes option \<Rightarrow> feed_event list \<Rightarrow> reply list" where
  "stream_live title parts frame es =
     ReplyLive title # feed_loop [] (PartsChanged parts # FrameChanged frame # es)"

definition live_end :: "reply list" where
  "live_end = [ReplyEnded]"

datatype live_event = LiveFrame bytes | LivePart nat nat bytes | LiveEnded

text \<open>\<open>watch_live\<close>: the first reply opens the stream, the rest become events up to the end.\<close>

definition open_watch :: "(reply \<Rightarrow> ustring) \<Rightarrow> reply arrival \<Rightarrow> nearby_error + ustring" where
  "open_watch unexpected r =
     (case r of
        Late \<Rightarrow> Inl NoAnswer
      | Broken e \<Rightarrow> Inl (NearbyInterrupted e)
      | Arrived (ReplyLive title) \<Rightarrow> Inr title
      | Arrived ReplyNotLive \<Rightarrow> Inl NotLive
      | Arrived other \<Rightarrow> Inl (NearbyInterrupted (unexpected other)))"

fun watch_events :: "(ustring + reply) list \<Rightarrow> live_event list" where
  "watch_events [] = []"
| "watch_events (Inr (ReplyFrame bs) # rest) = LiveFrame bs # watch_events rest"
| "watch_events (Inr (ReplyPart i n bs) # rest) = LivePart i n bs # watch_events rest"
| "watch_events (Inr ReplyEnded # rest) = [LiveEnded]"
| "watch_events (Inl e # rest) = [LiveEnded]"
| "watch_events (Inr _ # rest) = watch_events rest"

record ('f, 'p) watch_view =
  view_frame :: "'f option"
  view_parts :: "nat \<Rightarrow> 'p option"
  view_ended :: bool

definition empty_view :: "('f, 'p) watch_view" where
  "empty_view = \<lparr>view_frame = None, view_parts = Map.empty, view_ended = False\<rparr>"

fun apply_event ::
    "(bytes \<Rightarrow> 'f option) \<Rightarrow> (bytes \<Rightarrow> 'p option) \<Rightarrow> live_event \<Rightarrow> ('f, 'p) watch_view \<Rightarrow> ('f, 'p) watch_view" where
  "apply_event parse_frame parse_part (LiveFrame bs) v =
     (case parse_frame bs of Some f \<Rightarrow> v\<lparr>view_frame := Some f\<rparr> | None \<Rightarrow> v)"
| "apply_event parse_frame parse_part (LivePart i n bs) v =
     (let kept = (\<lambda>j. if j < n then view_parts v j else None)
      in v\<lparr>view_parts := (if i < n then (case parse_part bs of Some p \<Rightarrow> kept(i \<mapsto> p) | None \<Rightarrow> kept) else kept)\<rparr>)"
| "apply_event parse_frame parse_part LiveEnded v = v\<lparr>view_ended := True\<rparr>"

section \<open>Laws of presence\<close>

definition escape_all :: "ustring \<Rightarrow> ustring" where
  "escape_all s = concat (map escape_char s)"

lemma escape_all_simps [simp]: "escape_all [] = []" "escape_all (c # s) = escape_char c @ escape_all s"
  by (simp_all add: escape_all_def)

lemma unescape_bars:
  "replace_all (lit ''%7C'') (lit ''|'') (escape_all s) = concat (map (\<lambda>c. if c = 0x25 then lit ''%25'' else [c]) s)"
  by (induction s) (simp_all add: escape_char_def lit_def starts_with_def)

lemma unescape_escape [simp]: "unescape (escape_all s) = s"
proof -
  have "replace_all (lit ''%25'') (lit ''%'') (concat (map (\<lambda>c. if c = 0x25 then lit ''%25'' else [c]) s)) = s"
    by (induction s) (simp_all add: lit_def starts_with_def)
  then show ?thesis by (simp add: unescape_def unescape_bars)
qed

lemma escape_no_bar: "0x7C \<notin> set (escape_all s)"
  by (induction s) (simp_all add: escape_char_def lit_def)

lemma escape_loop_all:
  "utf8_length out + utf8_length (escape_all s) \<le> budget \<Longrightarrow> escape_loop budget out s = out @ escape_all s"
  by (induction s arbitrary: out) auto

lemma escape_loop_prefix:
  "utf8_length out \<le> budget \<Longrightarrow>
    utf8_length (escape_loop budget out s) \<le> budget \<and> (\<exists>n. escape_loop budget out s = out @ escape_all (take n s))"
proof (induction s arbitrary: out)
  case (Cons c s)
  show ?case
  proof (cases "utf8_length out + utf8_length (escape_char c) > budget")
    case True
    with Cons.prems show ?thesis by (auto intro: exI [of _ 0])
  next
    case False
    with Cons.IH [of "out @ escape_char c"] obtain n where
      "utf8_length (escape_loop budget (out @ escape_char c) s) \<le> budget"
      "escape_loop budget (out @ escape_char c) s = (out @ escape_char c) @ escape_all (take n s)" by auto
    with False show ?thesis by (auto intro: exI [of _ "Suc n"])
  qed
qed auto

lemma splitn_field: "sep \<notin> set a \<Longrightarrow> splitn (Suc (Suc n)) sep (a @ sep # b) = a # splitn (Suc n) sep b"
proof -
  assume "sep \<notin> set a"
  then have "takeWhile (\<lambda>c. c \<noteq> sep) (a @ sep # b) = a \<and> dropWhile (\<lambda>c. c \<noteq> sep) (a @ sep # b) = sep # b"
    by (induction a) auto
  then show ?thesis by simp
qed

text \<open>A presence that needs no cleaning and fits the limits.\<close>

definition presence_fits :: "presence \<Rightarrow> bool" where
  "presence_fits p \<longleftrightarrow> sanitize_device_name (presence_name p) = presence_name p \<and>
     utf8_length (escape_all (presence_name p)) \<le> NAME_MAX_BYTES \<and>
     (\<forall>t. live_title p = Some t \<longrightarrow> filter (\<lambda>c. \<not> is_control c) t = t \<and>
        8 + utf8_length (escape_all (presence_name p)) + utf8_length (escape_all t) \<le> PRESENCE_MAX_BYTES)"

lemma flags_of_simps:
  "0x7C \<notin> set (flags_of p)" "114 \<in> set (flags_of p) \<longleftrightarrow> receiving p"
  "108 \<in> set (flags_of p) \<longleftrightarrow> live_title p \<noteq> None" "utf8_length (flags_of p) \<le> 2"
  by (auto simp: flags_of_def lit_def utf8_length_def len_utf8_def)

lemma encode_presence_form:
  "\<exists>name title. encode_presence p = PRESENCE_TAG @ 0x7C # flags_of p @ 0x7C # name @ 0x7C # title \<and>
     (\<exists>n. name = escape_all (take n (presence_name p))) \<and> (\<exists>n t. title = escape_all (take n t)) \<and>
     utf8_length (encode_presence p) \<le> PRESENCE_MAX_BYTES \<and>
     (presence_fits p \<longrightarrow> name = escape_all (presence_name p) \<and>
        title = (case live_title p of None \<Rightarrow> [] | Some t \<Rightarrow> escape_all t))"
proof -
  let ?head = "PRESENCE_TAG @ lit ''|'' @ flags_of p @ lit ''|''"
  let ?name = "escape_within (presence_name p) NAME_MAX_BYTES"
  let ?rest = "PRESENCE_MAX_BYTES - utf8_length ?head - utf8_length ?name - 1"
  let ?t = "case live_title p of None \<Rightarrow> [] | Some t \<Rightarrow> t"
  have head: "utf8_length ?head \<le> 7" using flags_of_simps(4) [of p]
    by (simp add: PRESENCE_TAG_def lit_def) (simp add: utf8_length_def len_utf8_def)
  from escape_loop_prefix [of "[]" NAME_MAX_BYTES "presence_name p"] obtain m where
    name: "utf8_length ?name \<le> NAME_MAX_BYTES" "?name = escape_all (take m (presence_name p))"
    by (auto simp: escape_within_def utf8_length_def)
  from escape_loop_prefix [of "[]" ?rest ?t] obtain n where
    title: "utf8_length (escape_within ?t ?rest) \<le> ?rest" "escape_within ?t ?rest = escape_all (take n ?t)"
    by (auto simp: escape_within_def utf8_length_def)
  have enc: "encode_presence p = ?head @ ?name @ lit ''|'' @ escape_within ?t ?rest"
    by (simp only: encode_presence_def Let_def append_assoc)
  have small: "utf8_length (lit ''|'') = 1" by (simp add: lit_def utf8_length_def len_utf8_def)
  have len: "utf8_length (encode_presence p) \<le> PRESENCE_MAX_BYTES"
    unfolding enc using head name(1) title(1) small
    by (simp only: utf8_length_append) (simp add: PRESENCE_MAX_BYTES_def NAME_MAX_BYTES_def)
  have fit: "?name = escape_all (presence_name p) \<and>
      escape_within ?t ?rest = (case live_title p of None \<Rightarrow> [] | Some t \<Rightarrow> escape_all t)" if "presence_fits p"
  proof
    show n: "?name = escape_all (presence_name p)"
      using that by (simp add: escape_within_def escape_loop_all presence_fits_def utf8_length_def)
    show "escape_within ?t ?rest = (case live_title p of None \<Rightarrow> [] | Some t \<Rightarrow> escape_all t)"
    proof (cases "live_title p")
      case (Some t)
      then have "utf8_length (escape_all t) \<le> ?rest"
        using that head by (auto simp: n presence_fits_def PRESENCE_MAX_BYTES_def)
      then show ?thesis using Some escape_loop_all [of "[]" t ?rest] by (simp add: escape_within_def utf8_length_def)
    qed (simp add: escape_within_def)
  qed
  have "encode_presence p = PRESENCE_TAG @ 0x7C # flags_of p @ 0x7C # ?name @ 0x7C # escape_within ?t ?rest"
    unfolding enc by (simp add: lit_def)
  with name(2) title(2) len fit show ?thesis by blast
qed

lemma decode_encoded:
  assumes "presence_fits p"
  shows "decode_presence (encode_presence p) = (if is_visible p then Some p else None)"
proof -
  from encode_presence_form [of p] assms have
    enc: "encode_presence p = PRESENCE_TAG @ 0x7C # flags_of p @ 0x7C # escape_all (presence_name p) @ 0x7C #
      (case live_title p of None \<Rightarrow> [] | Some t \<Rightarrow> escape_all t)" by auto
  have tag: "0x7C \<notin> set PRESENCE_TAG" by (simp add: PRESENCE_TAG_def lit_def)
  have four: "(4 :: nat) = Suc (Suc (Suc (Suc 0)))" by simp
  have "splitn 4 0x7C (encode_presence p) = [PRESENCE_TAG, flags_of p, escape_all (presence_name p),
      (case live_title p of None \<Rightarrow> [] | Some t \<Rightarrow> escape_all t)]"
    unfolding enc four splitn_field [OF tag] splitn_field [OF flags_of_simps(1)] splitn_field [OF escape_no_bar] by simp
  then show ?thesis using assms
    by (cases p) (auto simp: decode_presence_def flags_of_simps is_visible_def presence_fits_def Let_def split: option.splits)
qed

text \<open>A neighbour is listed with what it announces exactly when it wants to be seen, and what it
  announces fits the announcement.\<close>

lemma visible_neighbours_are_listed:
  assumes "presence_fits p"
  shows "map_of (seen (discovered device (fst (set_presence (Some p) mine)) st)) device =
      (if is_visible p then Some p else None) \<and>
    option_ok (\<lambda>txt. utf8_length txt \<le> PRESENCE_MAX_BYTES) (fst (set_presence (Some p) mine)) = is_visible p"
proof -
  from encode_presence_form [of p] have "utf8_length (encode_presence p) \<le> PRESENCE_MAX_BYTES" by blast
  with decode_encoded [OF assms] show ?thesis
    by (auto simp: set_presence_def discovered_def option_ok_def update_conv' delete_conv')
qed

section \<open>Laws of parcels\<close>

lemma receive_uploads:
  "length got + length (concat bss) \<le> offered \<Longrightarrow>
    receive_chunks offered got (map Arrived (map Chunk bss @ [UploadDone])) = Inr (got @ concat bss)"
  by (induction bss arbitrary: got) simp_all

lemma received_bound: "receive_chunks offered got incoming = Inr p \<Longrightarrow> length got \<le> offered \<Longrightarrow> length p \<le> offered"
  by (induction offered got incoming rule: receive_chunks.induct) (auto split: if_splits)

text \<open>C33. Nothing lands on a device without its user's consent, and never more than was announced,
  whatever the other side sends.\<close>

theorem nothing_lands_without_consent:
  assumes "on_offer handler st decided can_write incoming from from_name title n = (replies, Some parcel)"
  shows "decided = Answered True \<and> option_ok receiving (my_presence st) \<and>
    length parcel \<le> n \<and> n \<le> MAX_PARCEL_BYTES \<and> handler \<noteq> None"
  using assms received_bound [of n "[]" incoming parcel]
  by (auto simp: on_offer_def receive_parcel_def option_ok_def Let_def split: if_splits option.splits sum.splits)

definition open_to_parcels :: nearby_state where
  "open_to_parcels = \<lparr>my_presence = Some \<lparr>presence_name = lit ''Mac'', receiving = True, live_title = None\<rparr>, seen = []\<rparr>"

theorem nothing_lands_without_consent_witness:
  "\<exists>replies. on_offer (Some (\<lambda>_ _. Delivered)) open_to_parcels (Answered True) True
     [Arrived (Chunk [7]), Arrived UploadDone] [1] [] [] 2 = (replies, Some [7]) \<and> length [7 :: byte] \<le> 2"
proof -
  have r: "on_offer (Some (\<lambda>_ _. Delivered)) open_to_parcels (Answered True) True
     [Arrived (Chunk [7]), Arrived UploadDone] [1] [] [] 2 = ([ReplyAccepted, ReplyReceived], Some [7])"
    by (simp add: on_offer_def receive_parcel_def open_to_parcels_def MAX_PARCEL_BYTES_def)
  from nothing_lands_without_consent [OF r] r show ?thesis by blast
qed

text \<open>The receiver counts what it gets against the announced size as an upper bound only: a parcel that
  ends early is delivered.\<close>

lemma short_parcel_is_delivered:
  "on_offer (Some (\<lambda>_ _. Delivered)) open_to_parcels (Answered True) True [Arrived UploadDone] [1] [] [] 1000 =
    ([ReplyAccepted, ReplyReceived], Some [])"
  by (simp add: on_offer_def receive_parcel_def open_to_parcels_def MAX_PARCEL_BYTES_def)

text \<open>Both sides over a connection that holds.\<close>

definition hand_over ::
    "(reply \<Rightarrow> ustring) \<Rightarrow> (incoming_offer \<Rightarrow> bytes \<Rightarrow> delivery) option \<Rightarrow> nearby_state \<Rightarrow> decision \<Rightarrow>
     endpoint_id \<Rightarrow> ustring \<Rightarrow> ustring \<Rightarrow> bytes \<Rightarrow> (nearby_error + unit) \<times> bytes option" where
  "hand_over unexpected handler st decided from from_name title parcel =
     (let (replies, got) = on_offer handler st decided True (map Arrived (uploads parcel)) from from_name title (length parcel);
          w = \<lparr>dial = Arrived (), answer = Arrived (hd replies), verdict = Arrived (last replies),
               writes = length (uploads parcel) + 1, write_error = []\<rparr>
      in (snd (send_parcel unexpected from_name title parcel w), got))"



lemma offer_answered_once:
  assumes "answer_offer n accept box = (Some a, box')" and "distinct (map fst (offers box))"
  shows "fst (answer_offer n other box') = None"
  using assms by (auto simp: answer_offer_def delete_conv' split: option.splits)

section \<open>Laws of live captions\<close>

lemma part_loop_sent:
  "i \<le> length sent \<Longrightarrow> length sent \<le> i + length parts \<Longrightarrow> snd (part_loop n shrank i parts sent) = take i sent @ parts"
proof (induction parts arbitrary: i sent)
  case (Cons part parts)
  show ?case
  proof (cases "i < length sent")
    case True
    then have "take (Suc i) (sent[i := part]) = take i sent @ [part]" and "sent ! i = part \<Longrightarrow> take (Suc i) sent = take i sent @ [part]"
      by (simp_all add: take_Suc_conv_app_nth take_update_swap list_update_append)
    with True Cons.prems Cons.IH [of "Suc i" sent] Cons.IH [of "Suc i" "sent[i := part]"]
    show ?thesis by (auto split: prod.splits)
  next
    case False
    with Cons.prems Cons.IH [of "Suc i" "sent @ [part]"] show ?thesis by (auto split: prod.splits)
  qed
qed simp

lemma send_changed_parts_sent [simp]: "snd (send_changed_parts parts sent) = parts"
  using part_loop_sent [of 0 "take (length parts) sent" parts "length parts" "length sent > length parts"]
  by (auto simp: send_changed_parts_def Let_def split: prod.splits)


text \<open>What a list of parts looks like to the viewer.\<close>

definition read_parts :: "(bytes \<Rightarrow> 'p option) \<Rightarrow> bytes list \<Rightarrow> nat \<Rightarrow> 'p option" where
  "read_parts parse_part parts j = (if j < length parts then parse_part (parts ! j) else None)"

abbreviation view_all ::
    "(bytes \<Rightarrow> 'f option) \<Rightarrow> (bytes \<Rightarrow> 'p option) \<Rightarrow> reply list \<Rightarrow> ('f, 'p) watch_view \<Rightarrow> ('f, 'p) watch_view" where
  "view_all parse_frame parse_part rs \<equiv> fold (apply_event parse_frame parse_part) (watch_events (map Inr rs))"

definition shows_parts :: "(bytes \<Rightarrow> 'p option) \<Rightarrow> nat \<Rightarrow> bool \<Rightarrow> bytes list \<Rightarrow> ('f, 'p) watch_view \<Rightarrow> bool" where
  "shows_parts parse_part n exact sent v \<longleftrightarrow>
     (\<forall>j < n. view_parts v j = read_parts parse_part sent j) \<and> (exact \<longrightarrow> (\<forall>j \<ge> n. view_parts v j = None))"

lemma shows_parts_step:
  assumes "shows_parts parse_part n exact sent v" and "parse_part part \<noteq> None" and "i < n" and "i \<le> length sent"
  shows "shows_parts parse_part n True (if i < length sent then sent[i := part] else sent @ [part])
    (apply_event parse_frame parse_part (LivePart i n part) v)"
  using assms by (auto simp: shows_parts_def read_parts_def nth_append nth_list_update)

lemma part_loop_view:
  assumes "\<forall>part \<in> set parts. parse_part part \<noteq> None"
    and "i \<le> length sent" and "length sent \<le> n" and "i + length parts = n"
    and "shows_parts parse_part n exact sent v" and "part_loop n shrank i parts sent = (rs, sent')"
  shows "shows_parts parse_part n (exact \<or> rs \<noteq> []) sent' (view_all parse_frame parse_part rs v) \<and>
    view_frame (view_all parse_frame parse_part rs v) = view_frame v \<and>
    view_ended (view_all parse_frame parse_part rs v) = view_ended v"
  using assms
proof (induction parts arbitrary: i sent v exact rs)
  case (Cons part parts)
  show ?case
  proof (cases "(i < length sent \<and> sent ! i = part) \<and> \<not> shrank")
    case True
    with Cons.prems Cons.IH [of "Suc i" sent exact v rs] show ?thesis by simp
  next
    case False
    let ?sent = "if i < length sent then sent[i := part] else sent @ [part]"
    let ?v = "apply_event parse_frame parse_part (LivePart i n part) v"
    obtain rs' where loop: "part_loop n shrank (Suc i) parts ?sent = (rs', sent')" and rs: "rs = ReplyPart i n part # rs'"
      using False Cons.prems(6) by (auto split: prod.splits)
    have "shows_parts parse_part n True ?sent ?v" using Cons.prems by (intro shows_parts_step) auto
    from Cons.IH [OF _ _ _ _ this loop] Cons.prems rs show ?thesis by (simp add: Let_def)
  qed
qed simp

lemma send_changed_parts_view:
  assumes "\<forall>part \<in> set parts. parse_part part \<noteq> None"
    and "view_parts v = read_parts parse_part sent"
  shows "view_parts (view_all parse_frame parse_part (fst (send_changed_parts parts sent)) v) = read_parts parse_part parts \<and>
    view_frame (view_all parse_frame parse_part (fst (send_changed_parts parts sent)) v) = view_frame v \<and>
    view_ended (view_all parse_frame parse_part (fst (send_changed_parts parts sent)) v) = view_ended v"
proof -
  let ?shrank = "length sent > length parts"
  obtain rs sent' where loop: "part_loop (length parts) ?shrank 0 parts (take (length parts) sent) = (rs, sent')" by force
  have "sent' = parts" using send_changed_parts_sent [of parts sent] loop by (simp add: send_changed_parts_def)
  have "shows_parts parse_part (length parts) (\<not> ?shrank) (take (length parts) sent) v"
    using assms(2) by (auto simp: shows_parts_def read_parts_def)
  from part_loop_view [OF assms(1) _ _ _ this loop] \<open>sent' = parts\<close>
  have v: "shows_parts parse_part (length parts) (\<not> ?shrank \<or> rs \<noteq> []) parts (view_all parse_frame parse_part rs v)"
    "view_frame (view_all parse_frame parse_part rs v) = view_frame v"
    "view_ended (view_all parse_frame parse_part rs v) = view_ended v" by auto
  have "rs \<noteq> []" if "?shrank" "parts \<noteq> []" using that loop by (cases parts) (auto split: prod.splits)
  then show ?thesis using v loop
    by (cases "?shrank \<and> parts = []")
      (auto simp: send_changed_parts_def shows_parts_def read_parts_def fun_eq_iff not_less)
qed

lemma part_loop_replies: "ReplyEnded \<notin> set (fst (part_loop n shrank i parts sent))"
  by (induction parts arbitrary: i sent) (auto simp: case_prod_unfold Let_def)

lemma send_changed_parts_replies: "ReplyEnded \<notin> set (fst (send_changed_parts parts sent))"
  using part_loop_replies [of "length parts" "length sent > length parts" 0 parts "take (length parts) sent"]
  by (auto simp: send_changed_parts_def Let_def case_prod_unfold)

lemma watch_events_append:
  "ReplyEnded \<notin> set rs \<Longrightarrow> watch_events (map Inr (rs @ rs')) = watch_events (map Inr rs) @ watch_events (map Inr rs')"
proof (induction rs)
  case (Cons r rs)
  then show ?case by (cases r) auto
qed simp

definition latest_parts :: "feed_event list \<Rightarrow> bytes list \<Rightarrow> bytes list" where
  "latest_parts = fold (\<lambda>e ps. case e of PartsChanged qs \<Rightarrow> qs | FrameChanged f \<Rightarrow> ps)"

definition latest_frame :: "(bytes \<Rightarrow> 'f option) \<Rightarrow> feed_event list \<Rightarrow> 'f option \<Rightarrow> 'f option" where
  "latest_frame parse_frame = fold (\<lambda>e f. case e of
       FrameChanged (Some b) \<Rightarrow> (case parse_frame b of Some g \<Rightarrow> Some g | None \<Rightarrow> f) | _ \<Rightarrow> f)"

definition readable :: "(bytes \<Rightarrow> 'p option) \<Rightarrow> feed_event list \<Rightarrow> bool" where
  "readable parse_part es \<longleftrightarrow> list_all (\<lambda>e. case e of
       PartsChanged ps \<Rightarrow> list_all (\<lambda>p. parse_part p \<noteq> None) ps | FrameChanged f \<Rightarrow> True) es"

lemma feed_loop_view:
  assumes "readable parse_part es" and "view_parts v = read_parts parse_part sent"
  shows "view_all parse_frame parse_part (feed_loop sent es) v =
      v\<lparr>view_frame := latest_frame parse_frame es (view_frame v), view_parts := read_parts parse_part (latest_parts es sent)\<rparr> \<and>
    ReplyEnded \<notin> set (feed_loop sent es)"
  using assms
proof (induction es arbitrary: sent v)
  case Nil
  then show ?case by (simp add: latest_frame_def latest_parts_def)
next
  case (Cons e es)
  have es: "readable parse_part es" using Cons.prems by (simp add: readable_def)
  show ?case
  proof (cases e)
    case (FrameChanged f)
    show ?thesis
    proof (cases f)
      case None
      with FrameChanged Cons.IH [OF es Cons.prems(2)] show ?thesis by (simp add: latest_frame_def latest_parts_def)
    next
      case (Some b)
      have "view_parts (apply_event parse_frame parse_part (LiveFrame b) v) = read_parts parse_part sent"
        using Cons.prems(2) by (simp split: option.split)
      from Cons.IH [OF es this] show ?thesis using FrameChanged Some
        by (auto simp: latest_frame_def latest_parts_def split: option.split)
    qed
  next
    case (PartsChanged ps)
    have ps: "\<forall>p \<in> set ps. parse_part p \<noteq> None" using Cons.prems(1) PartsChanged by (simp add: readable_def list_all_iff)
    let ?rs = "fst (send_changed_parts ps sent)"
    let ?v = "view_all parse_frame parse_part ?rs v"
    note v = send_changed_parts_view [OF ps Cons.prems(2), of parse_frame]
    have loop: "feed_loop sent (e # es) = ?rs @ feed_loop ps es"
      using send_changed_parts_sent [of ps sent] by (simp add: PartsChanged case_prod_unfold)
    have "view_all parse_frame parse_part (feed_loop sent (e # es)) v = view_all parse_frame parse_part (feed_loop ps es) ?v"
      unfolding loop watch_events_append [OF send_changed_parts_replies] by simp
    moreover have "view_all parse_frame parse_part (feed_loop ps es) ?v =
        ?v\<lparr>view_frame := latest_frame parse_frame es (view_frame ?v), view_parts := read_parts parse_part (latest_parts es ps)\<rparr>"
      and "ReplyEnded \<notin> set (feed_loop ps es)"
      using Cons.IH [OF es, of ?v ps] v by blast+
    ultimately show ?thesis using v send_changed_parts_replies [of ps sent] loop
      by (simp add: PartsChanged latest_frame_def latest_parts_def)
  qed
qed

text \<open>C34. A viewer sees the latest: at every moment of a live stream its view holds exactly the current
  parts and the last frame it could read, although only what changed is sent.\<close>

theorem viewer_sees_the_latest:
  assumes "readable parse_part (PartsChanged parts # es)"
  shows "open_watch unexpected (Arrived (hd (stream_live title parts frame es))) = Inr title \<and>
    view_all parse_frame parse_part (tl (stream_live title parts frame es)) empty_view =
      \<lparr>view_frame = latest_frame parse_frame (FrameChanged frame # es) None,
       view_parts = read_parts parse_part (latest_parts es parts), view_ended = False\<rparr> \<and>
    view_all parse_frame parse_part (tl (stream_live title parts frame es) @ live_end) empty_view =
      \<lparr>view_frame = latest_frame parse_frame (FrameChanged frame # es) None,
       view_parts = read_parts parse_part (latest_parts es parts), view_ended = True\<rparr>"
proof -
  let ?es = "PartsChanged parts # FrameChanged frame # es"
  have "readable parse_part ?es" using assms by (simp add: readable_def)
  moreover have "view_parts empty_view = read_parts parse_part []" by (simp add: empty_view_def read_parts_def fun_eq_iff)
  ultimately have v: "view_all parse_frame parse_part (feed_loop [] ?es) empty_view =
      empty_view\<lparr>view_frame := latest_frame parse_frame ?es None, view_parts := read_parts parse_part (latest_parts ?es [])\<rparr>"
    and noend: "ReplyEnded \<notin> set (feed_loop [] ?es)"
    using feed_loop_view [of parse_part ?es empty_view "[]" parse_frame] by (simp_all add: empty_view_def)
  have "view_all parse_frame parse_part (feed_loop [] ?es @ live_end) empty_view =
      (view_all parse_frame parse_part (feed_loop [] ?es) empty_view)\<lparr>view_ended := True\<rparr>"
    unfolding watch_events_append [OF noend] by (simp add: live_end_def)
  with v show ?thesis
    by (simp add: stream_live_def open_watch_def empty_view_def latest_frame_def latest_parts_def del: feed_loop.simps)
qed

theorem viewer_sees_the_latest_witness:
  "view_all Some Some (tl (stream_live [] [[1], [2]] (Some [9]) [PartsChanged [[1]], FrameChanged (Some [8])])) empty_view =
     \<lparr>view_frame = Some [8], view_parts = read_parts Some [[1]], view_ended = False\<rparr>"
proof -
  have "readable Some (PartsChanged [[1], [2]] # [PartsChanged [[1]], FrameChanged (Some [8])])"
    by (simp add: readable_def)
  from viewer_sees_the_latest [OF this, of "\<lambda>_. []" "[]" "Some [9]" Some] show ?thesis
    by (simp add: latest_frame_def latest_parts_def)
qed

end
