(* ===== verification/Capture_Profile.thy ===== *)
theory Capture_Profile
  imports Prelude
begin

text \<open>
  Crate \<open>vt-store\<close>, \<open>notebook_capture_store.rs\<close>: language codes and the capture profile of a
  notebook, with its revision check. A store error keeps its kind; its message is for diagnostics
  only and left out.
\<close>

section \<open>Errors\<close>

datatype capture_error = SqliteError | JsonError | CaptureNotFound | CaptureConflict | CaptureInvalid | CaptureCorrupt

definition require_nonempty :: "ustring \<Rightarrow> capture_error + unit" where
  "require_nonempty v = (if trim v = [] then Inl CaptureInvalid else Inr ())"

definition max_i64 :: nat where
  "max_i64 = 2 ^ 63 - 1"

section \<open>Languages\<close>

definition MAX_CAPTURE_LANGUAGES :: nat where
  "MAX_CAPTURE_LANGUAGES = 3"

text \<open>\<open>str::split\<close> on one character.\<close>

fun split_on :: "uchar \<Rightarrow> ustring \<Rightarrow> ustring list" where
  "split_on sep [] = [[]]"
| "split_on sep (c # cs) =
     (if c = sep then [] # split_on sep cs
      else case split_on sep cs of [] \<Rightarrow> [[c]] | part # parts \<Rightarrow> (c # part) # parts)"

definition is_ascii_alphabetic :: "uchar \<Rightarrow> bool" where
  "is_ascii_alphabetic c \<longleftrightarrow> 0x41 \<le> c \<and> c \<le> 0x5A \<or> 0x61 \<le> c \<and> c \<le> 0x7A"

definition is_ascii_alnum :: "uchar \<Rightarrow> bool" where
  "is_ascii_alnum c \<longleftrightarrow> is_ascii_alphabetic c \<or> 0x30 \<le> c \<and> c \<le> 0x39"

definition language_ok :: "ustring \<Rightarrow> bool" where
  "language_ok raw =
     (let value = trim raw
      in value \<noteq> [] \<and> utf8_length value \<le> 32 \<and> list_all (\<lambda>c. c < 0x80) value \<and>
         (case split_on 0x2D value of
            [] \<Rightarrow> False
          | primary # parts \<Rightarrow>
              2 \<le> length primary \<and> length primary \<le> 3 \<and> list_all is_ascii_alphabetic primary \<and>
              list_all (\<lambda>part. 2 \<le> length part \<and> length part \<le> 8 \<and> list_all is_ascii_alnum part) parts))"

definition validate_language :: "ustring \<Rightarrow> capture_error + unit" where
  "validate_language raw = (if language_ok raw then Inr () else Inl CaptureInvalid)"

definition canonical_language :: "ustring \<Rightarrow> ustring" where
  "canonical_language raw =
     to_ascii_lowercase (trim (case split_on 0x2D (trim raw) of [] \<Rightarrow> raw | primary # _ \<Rightarrow> primary))"

definition normalized_subtitle_only_languages :: "ustring list \<Rightarrow> ustring list \<Rightarrow> ustring list" where
  "normalized_subtitle_only_languages selected subtitle_only =
     (let requested = map canonical_language subtitle_only;
          kept = filter (\<lambda>l. canonical_language l \<in> set requested) selected
      in if length kept \<ge> length selected then [] else kept)"

definition legacy_capture_language_pair :: "ustring list \<Rightarrow> ustring \<times> ustring" where
  "legacy_capture_language_pair selected =
     (let a = (case selected of [] \<Rightarrow> lit ''en'' | l # _ \<Rightarrow> l);
          b = (case selected of _ # l # _ \<Rightarrow> l | _ \<Rightarrow> if a = lit ''en'' then lit ''zh'' else lit ''en'')
      in (a, b))"

datatype capture_mode = TranscriptionOnly | TwoWay | MultilingualOneWay

definition capture_mode_for_selection :: "bool \<Rightarrow> nat \<Rightarrow> capture_mode" where
  "capture_mode_for_selection realtime n =
     (if \<not> realtime \<or> n \<le> 1 then TranscriptionOnly else if n = 2 then TwoWay else MultilingualOneWay)"

section \<open>Profiles\<close>

record profile =
  profile_notebook :: ustring
  remote_realtime_enabled :: bool
  profile_mode :: capture_mode
  language_a :: ustring
  language_b :: ustring
  left_language :: ustring
  right_language :: ustring
  selected_languages :: "ustring list"
  common_caption_language :: "ustring option"
  subtitle_only_languages :: "ustring list"
  privacy_level :: ustring
  send_context :: bool
  profile_revision :: nat
  profile_created :: ustring
  profile_updated :: ustring

text \<open>The fields of a \<open>NotebookCaptureProfileUpdate\<close> are those of a profile but for the notebook, the
  revision and the times; \<open>validate_profile_update\<close> looks at no others.\<close>

definition privacy_ok :: "ustring \<Rightarrow> bool" where
  "privacy_ok level \<longleftrightarrow> level \<in> {lit ''standard'', lit ''high'', lit ''maximum''}"

definition profile_ok :: "profile \<Rightarrow> bool" where
  "profile_ok p \<longleftrightarrow>
     selected_languages p \<noteq> [] \<and> length (selected_languages p) \<le> MAX_CAPTURE_LANGUAGES \<and>
     list_all (\<lambda>l. language_ok l \<and> canonical_language l = l) (selected_languages p) \<and>
     distinct (selected_languages p) \<and>
     (language_a p, language_b p) = legacy_capture_language_pair (selected_languages p) \<and>
     (left_language p, right_language p) = legacy_capture_language_pair (selected_languages p) \<and>
     list_all language_ok [language_a p, language_b p, left_language p, right_language p] \<and>
     common_caption_language p = None \<and>
     profile_mode p = capture_mode_for_selection (remote_realtime_enabled p) (length (selected_languages p)) \<and>
     privacy_ok (privacy_level p) \<and>
     (send_context p \<longrightarrow> remote_realtime_enabled p)"

definition validate_profile_update :: "profile \<Rightarrow> capture_error + unit" where
  "validate_profile_update p = (if profile_ok p then Inr () else Inl CaptureInvalid)"

definition default_profile :: "ustring \<Rightarrow> ustring \<Rightarrow> profile" where
  "default_profile notebook now =
     \<lparr>profile_notebook = notebook, remote_realtime_enabled = False, profile_mode = TranscriptionOnly,
      language_a = lit ''en'', language_b = lit ''zh'', left_language = lit ''en'', right_language = lit ''zh'',
      selected_languages = [lit ''en'', lit ''zh''], common_caption_language = None,
      subtitle_only_languages = [], privacy_level = lit ''standard'', send_context = False,
      profile_revision = 0, profile_created = now, profile_updated = now\<rparr>"

text \<open>The \<open>CHECK\<close>s of the table.\<close>

definition profile_check :: "profile \<Rightarrow> bool" where
  "profile_check p \<longleftrightarrow> privacy_ok (privacy_level p) \<and> language_a p \<noteq> language_b p \<and>
     left_language p \<in> {language_a p, language_b p} \<and> right_language p \<in> {language_a p, language_b p} \<and>
     left_language p \<noteq> right_language p \<and>
     (profile_mode p = TranscriptionOnly \<or> remote_realtime_enabled p) \<and>
     (send_context p \<longrightarrow> remote_realtime_enabled p)"

lemma profile_ok_check: "profile_ok p \<Longrightarrow> profile_check p"
  by (auto simp: profile_ok_def profile_check_def legacy_capture_language_pair_def capture_mode_for_selection_def
      lit_def Let_def split: list.splits if_splits)

end
