(* ===== verification/Capture_Table.thy ===== *)
theory Capture_Table
  imports Capture_Profile
begin

text \<open>
  Crate \<open>vt-store\<close>: the tables behind \<open>notebook_capture_store.rs\<close> as \<open>migration.rs\<close> lays them out.
  The rows of \<open>notebook_capture_runs\<close> with the \<open>CHECK\<close>s, the unique indexes and the triggers that
  every \<open>UPDATE\<close> has to pass, and the transactions of the store. A statement that breaks a
  constraint fails and changes nothing; a transaction that fails is rolled back. \<open>updated_at\<close> and
  the audio format, which no operation here reads, are left out.
\<close>

section \<open>Rows\<close>

datatype capture_state = Recording | Paused | Draining | CaptureCompleted | Interrupted | CaptureFailed

definition is_active :: "capture_state \<Rightarrow> bool" where
  "is_active c \<longleftrightarrow> c \<in> {Recording, Paused, Draining}"

definition is_terminal :: "capture_state \<Rightarrow> bool" where
  "is_terminal c \<longleftrightarrow> \<not> is_active c"

definition allows_post_stop_async :: "capture_state \<Rightarrow> bool" where
  "allows_post_stop_async c \<longleftrightarrow> c \<in> {CaptureCompleted, Interrupted}"

datatype remote_health = HealthOff | HealthConnecting | HealthLive | HealthDegraded | HealthUnavailable

datatype projection_state = ProjPending | Projecting | ProjReady | ProjFailed

datatype async_task_state = AsyncNone | AsyncPending | AsyncReserved | AsyncEnqueued | AsyncCompleted | AsyncFailed

datatype async_projection_state = AProjNone | AProjPending | AProjecting | AProjReady | AProjFailed

datatype async_search_state = SearchNone | SearchPending | SearchReady | SearchFailed

definition SONIOX_PROVIDER_ID :: ustring where
  "SONIOX_PROVIDER_ID = lit ''soniox''"

definition SONIOX_STT_RT_V5_MODEL_ID :: ustring where
  "SONIOX_STT_RT_V5_MODEL_ID = lit ''stt-rt-v5''"

definition SONIOX_STT_ASYNC_V5_MODEL_ID :: ustring where
  "SONIOX_STT_ASYNC_V5_MODEL_ID = lit ''stt-async-v5''"

record run =
  run_id :: ustring
  run_notebook :: ustring
  run_session :: ustring
  run_profile_revision :: nat
  run_profile :: profile
  realtime_provider :: "ustring option"
  realtime_model :: "ustring option"
  post_stop_provider :: "ustring option"
  post_stop_model :: "ustring option"
  run_capture :: capture_state
  run_health :: remote_health
  run_projection :: projection_state
  run_async :: async_task_state
  async_authorized :: "int option"
  async_hint :: "ustring option"
  async_projection :: async_projection_state
  async_task :: "ustring option"
  async_payload :: "ustring option"
  output_sha :: "ustring option"
  result_json :: "ustring option"
  provider_completed :: "ustring option"
  search_state :: async_search_state
  provider_error :: "ustring option"
  provider_request :: "ustring option"
  journal_path :: "ustring option"
  audio_path :: "ustring option"
  audio_key :: "ustring option"
  context_key :: "ustring option"
  run_frames :: nat
  run_completed :: "ustring option"

section \<open>Constraints\<close>

text \<open>SQLite's \<open>trim\<close> removes spaces only.\<close>

definition sql_blank :: "ustring \<Rightarrow> bool" where
  "sql_blank s \<longleftrightarrow> list_all (\<lambda>c. c = 0x20) s"

definition is_sha256_hex :: "ustring \<Rightarrow> bool" where
  "is_sha256_hex s \<longleftrightarrow> length s = 64 \<and> list_all (\<lambda>c. 0x30 \<le> c \<and> c \<le> 0x39 \<or> 0x61 \<le> c \<and> c \<le> 0x66) s"

definition task_settled :: "async_task_state \<Rightarrow> bool" where
  "task_settled a \<longleftrightarrow> a \<in> {AsyncReserved, AsyncEnqueued, AsyncCompleted, AsyncFailed}"

definition async_receipt_ok :: "run \<Rightarrow> bool" where
  "async_receipt_ok r \<longleftrightarrow>
     (if run_async r = AsyncNone then
        async_authorized r = None \<and> async_hint r = None \<and> async_task r = None \<and> async_payload r = None
      else if run_async r = AsyncPending then
        async_authorized r \<noteq> None \<and> async_task r = None \<and> async_payload r = None
      else async_authorized r \<noteq> None \<and> option_ok (\<lambda>t. \<not> sql_blank t) (async_task r) \<and>
        option_ok is_sha256_hex (async_payload r))"

definition claim_ok :: "ustring list \<Rightarrow> ustring option \<Rightarrow> ustring option \<Rightarrow> bool" where
  "claim_ok models provider model \<longleftrightarrow>
     provider = None \<and> model = None \<or>
     provider = Some SONIOX_PROVIDER_ID \<and> option_ok (\<lambda>m. m \<in> set models) model"

definition output_ok :: "run \<Rightarrow> bool" where
  "output_ok r \<longleftrightarrow>
     (case output_sha r of
        None \<Rightarrow> result_json r = None \<and> provider_completed r = None \<and> search_state r = SearchNone
      | Some sha \<Rightarrow> is_sha256_hex sha \<and> result_json r \<noteq> None \<and> provider_completed r \<noteq> None \<and>
          search_state r \<noteq> SearchNone \<and> post_stop_provider r \<noteq> None)"

definition row_check :: "run \<Rightarrow> bool" where
  "row_check r \<longleftrightarrow>
     (\<forall>t. async_authorized r = Some t \<longrightarrow> 0 < t) \<and> (\<forall>h. async_hint r = Some h \<longrightarrow> \<not> sql_blank h) \<and>
     claim_ok [SONIOX_STT_RT_V5_MODEL_ID] (realtime_provider r) (realtime_model r) \<and>
     claim_ok [SONIOX_STT_RT_V5_MODEL_ID, SONIOX_STT_ASYNC_V5_MODEL_ID] (post_stop_provider r) (post_stop_model r) \<and>
     async_receipt_ok r \<and> (async_projection r = AProjNone \<or> run_async r = AsyncCompleted) \<and> output_ok r"

text \<open>The triggers, on the old and the new row. Where a statement does not set a column its trigger
  does not fire; the new value is then the old one, and the condition holds of itself.\<close>

definition async_transition :: "async_task_state \<Rightarrow> async_task_state \<Rightarrow> bool" where
  "async_transition old new \<longleftrightarrow> new = old \<or> old = AsyncNone \<and> new = AsyncPending \<or>
     old = AsyncPending \<and> new = AsyncReserved \<or> old = AsyncReserved \<and> new = AsyncEnqueued \<or>
     old = AsyncEnqueued \<and> new \<in> {AsyncCompleted, AsyncFailed}"

definition async_projection_transition :: "run \<Rightarrow> run \<Rightarrow> bool" where
  "async_projection_transition old new \<longleftrightarrow>
     async_projection new = async_projection old \<or>
     async_projection old = AProjNone \<and> async_projection new = AProjPending \<and> run_async new = AsyncCompleted \<or>
     async_projection old = AProjPending \<and> async_projection new = AProjecting \<or>
     async_projection old = AProjecting \<and> async_projection new \<in> {AProjReady, AProjFailed} \<or>
     async_projection old = AProjFailed \<and> async_projection new = AProjPending"

definition row_update_ok :: "run \<Rightarrow> run \<Rightarrow> bool" where
  "row_update_ok old new \<longleftrightarrow>
     async_transition (run_async old) (run_async new) \<and>
     (async_authorized old \<noteq> None \<longrightarrow> async_authorized new = async_authorized old \<and> async_hint new = async_hint old) \<and>
     async_projection_transition old new \<and>
     (task_settled (run_async old) \<longrightarrow> async_task new = async_task old \<and> async_payload new = async_payload old) \<and>
     (output_sha old \<noteq> None \<longrightarrow> output_sha new = output_sha old \<and> result_json new = result_json old \<and>
        provider_completed new = provider_completed old) \<and>
     (realtime_provider old \<noteq> None \<or> realtime_model old \<noteq> None \<longrightarrow>
        realtime_provider new = realtime_provider old \<and> realtime_model new = realtime_model old) \<and>
     (post_stop_provider old \<noteq> None \<or> post_stop_model old \<noteq> None \<longrightarrow>
        post_stop_provider new = post_stop_provider old \<and> post_stop_model new = post_stop_model old)"

definition active_rows :: "run list \<Rightarrow> run list" where
  "active_rows rows = filter (\<lambda>r. is_active (run_capture r)) rows"

section \<open>The store\<close>

record session_meta =
  meta_session :: ustring
  meta_path :: "ustring option"
  meta_key :: "ustring option"
  meta_tokens :: "ustring option"

record audio_chunk =
  chunk_session :: ustring
  chunk_path :: ustring
  chunk_deleted :: bool

record notebook_tab =
  tab_id :: ustring
  tab_notebook :: ustring
  tab_kind :: ustring
  tab_doc :: ustring
  tab_deleted :: bool

record session_projection =
  projection_id :: ustring
  projection_notebook :: ustring
  projection_tab :: ustring
  projection_session :: ustring

record transcript_gap =
  gap_id :: ustring
  gap_session :: ustring
  gap_start :: nat
  gap_end :: nat
  gap_repaired :: bool

record remote_claim =
  claim_task :: ustring
  claim_session :: ustring
  client_reference :: ustring
  remote_file :: "ustring option"
  remote_transcription :: "ustring option"

record purge_plan =
  plan_session :: ustring
  plan_run :: "ustring option"
  plan_targets :: "(ustring \<times> ustring \<times> ustring \<times> ustring) list"
  plan_files :: "ustring list"
  plan_keys :: "ustring list"
  plan_names :: "ustring list"
  plan_prefixes :: "ustring list"
  plan_dirs :: "ustring list"
  plan_utterances :: nat

record purge_job =
  job_session :: ustring
  job_plan :: purge_plan
  job_phase :: ustring
  job_error :: "ustring option"

text \<open>The tabs are listed in their order; \<open>utterance_rows\<close> has the session of every utterance row.\<close>

record capture_store =
  live_notebooks :: "ustring list"
  tabs :: "notebook_tab list"
  profiles :: "profile list"
  runs :: "run list"
  session_rows :: "ustring list"
  metas :: "session_meta list"
  memberships :: "(ustring \<times> ustring) list"
  projections :: "session_projection list"
  chunks :: "audio_chunk list"
  utterance_rows :: "ustring list"
  gaps :: "transcript_gap list"
  remote_claims :: "remote_claim list"
  purge_jobs :: "purge_job list"
  search_index :: "(ustring \<times> ustring) list"

type_synonym 'a cs = "(capture_store, capture_error, 'a) sm"

definition sm_check :: "bool \<Rightarrow> capture_error \<Rightarrow> unit cs" where
  "sm_check b e = (if b then sm_return () else sm_throw e)"

definition sm_lift :: "capture_error + 'a \<Rightarrow> 'a cs" where
  "sm_lift r = (case r of Inl e \<Rightarrow> sm_throw e | Inr a \<Rightarrow> sm_return a)"

definition sm_some :: "capture_error \<Rightarrow> 'a option \<Rightarrow> 'a cs" where
  "sm_some e x = (case x of None \<Rightarrow> sm_throw e | Some a \<Rightarrow> sm_return a)"

text \<open>A transaction that is dropped before \<open>commit\<close> is rolled back.\<close>

definition in_tx :: "'a cs \<Rightarrow> 'a cs" where
  "in_tx m = (\<lambda>s. case m s of (Inl e, t) \<Rightarrow> (Inl e, s) | (Inr a, t) \<Rightarrow> (Inr a, t))"

lemmas [sm_defs] = sm_check_def sm_lift_def sm_some_def

definition find_run :: "ustring \<Rightarrow> capture_store \<Rightarrow> run option" where
  "find_run i s = find (\<lambda>r. run_id r = i) (runs s)"

definition find_session :: "ustring \<Rightarrow> capture_store \<Rightarrow> run option" where
  "find_session k s = find (\<lambda>r. run_session r = k) (runs s)"

definition require_run :: "ustring \<Rightarrow> run cs" where
  "require_run i = sm_bind (sm_gets (find_run i)) (sm_some CaptureNotFound)"

definition require_session :: "ustring \<Rightarrow> run cs" where
  "require_session k = sm_bind (sm_gets (find_session k)) (sm_some CaptureNotFound)"

definition session_purge_job_exists :: "ustring \<Rightarrow> capture_store \<Rightarrow> bool" where
  "session_purge_job_exists k s \<longleftrightarrow> find (\<lambda>j. job_session j = k) (purge_jobs s) \<noteq> None"

definition not_purging :: "ustring \<Rightarrow> unit cs" where
  "not_purging k = sm_bind (sm_gets (session_purge_job_exists k)) (\<lambda>b. sm_check (\<not> b) CaptureConflict)"

text \<open>An \<open>UPDATE\<close> of the runs: the number of rows it changed.\<close>

definition execute_runs :: "(run \<Rightarrow> bool) \<Rightarrow> (run \<Rightarrow> run) \<Rightarrow> nat cs" where
  "execute_runs p f = (\<lambda>s.
     let rows = map_where p f (runs s)
     in if list_all (\<lambda>r. p r \<longrightarrow> row_check (f r) \<and> row_update_ok r (f r)) (runs s) \<and> length (active_rows rows) \<le> 1
        then (Inr (length (filter p (runs s))), s\<lparr>runs := rows\<rparr>)
        else (Inl SqliteError, s))"

definition update_or :: "capture_error \<Rightarrow> (run \<Rightarrow> bool) \<Rightarrow> (run \<Rightarrow> run) \<Rightarrow> unit cs" where
  "update_or e p f = sm_bind (execute_runs p f) (\<lambda>n. sm_check (n \<noteq> 0) e)"

text \<open>An \<open>INSERT\<close> of one run, with the unique columns.\<close>

definition insert_run :: "run \<Rightarrow> unit cs" where
  "insert_run r = (\<lambda>s.
     if row_check r \<and> find_run (run_id r) s = None \<and> find_session (run_session r) s = None \<and>
        length (active_rows (runs s @ [r])) \<le> 1
     then (Inr (), s\<lparr>runs := runs s @ [r]\<rparr>)
     else (Inl SqliteError, s))"

section \<open>Evaluation\<close>

text \<open>What the first statement of a call makes of the rest.\<close>

named_theorems store_run

lemma run_then_check [store_run]: "sm_then (sm_check b e) m s = (if b then m s else (Inl e, s))"
  by (simp add: sm_defs)

lemma run_then_lift [store_run]: "sm_then (sm_lift x) m s = (case x of Inl e \<Rightarrow> (Inl e, s) | Inr a \<Rightarrow> m s)"
  by (simp add: sm_defs split: sum.split)

lemma run_then_return [store_run]: "sm_then (sm_return a) m s = m s"
  by (simp add: sm_defs)

lemma run_then_not_purging [store_run]:
  "sm_then (not_purging k) m s = (if session_purge_job_exists k s then (Inl CaptureConflict, s) else m s)"
  by (simp add: not_purging_def sm_defs)

lemma run_bind_gets [store_run]: "sm_bind (sm_gets f) g s = g (f s) s"
  by (simp add: sm_defs)

lemma run_then_modify [store_run]: "sm_then (sm_modify f) m s = m (f s)"
  by (simp add: sm_defs)

lemma run_bind_require [store_run]:
  "sm_bind (require_session k) g s = (case find_session k s of None \<Rightarrow> (Inl CaptureNotFound, s) | Some r \<Rightarrow> g r s)"
  "sm_bind (require_run i) g s = (case find_run i s of None \<Rightarrow> (Inl CaptureNotFound, s) | Some r \<Rightarrow> g r s)"
  by (simp_all add: require_session_def require_run_def sm_defs split: option.split)

lemma run_in_tx [store_run]: "in_tx m s = (case m s of (Inl e, t) \<Rightarrow> (Inl e, s) | (Inr a, t) \<Rightarrow> (Inr a, t))"
  by (simp add: in_tx_def)

lemma run_bind_some [store_run]: "sm_bind (sm_some e x) g s = (case x of None \<Rightarrow> (Inl e, s) | Some a \<Rightarrow> g a s)"
  by (simp add: sm_defs split: option.split)

lemma run_bind_lift [store_run]: "sm_bind (sm_lift x) g s = (case x of Inl e \<Rightarrow> (Inl e, s) | Inr a \<Rightarrow> g a s)"
  by (simp add: sm_defs split: sum.split)

lemma bind_Inr:
  assumes "sm_bind m f s = (Inr b, t)"
  obtains a u where "m s = (Inr a, u)" "f a u = (Inr b, t)"
  using assms by (auto simp: sm_bind_def split: prod.splits sum.splits)

lemma then_Inr:
  assumes "sm_then m n s = (Inr b, t)"
  obtains a u where "m s = (Inr a, u)" "n u = (Inr b, t)"
  using assms unfolding sm_then_def by (rule bind_Inr)

lemma find_member: "find p xs = Some r \<Longrightarrow> r \<in> set xs \<and> p r"
  by (induction xs) (auto split: if_splits)

end
