(* ===== verification/Capture_Run.thy ===== *)
theory Capture_Run
  imports Capture_Table
begin

text \<open>
  Crate \<open>vt-store\<close>, \<open>notebook_capture_store.rs\<close>: the profiles, the creation of a capture run, its
  capture state machine, the audio it owns, the projection of its transcript and the recovery after
  a restart. \<open>now\<close> is the time stamp of the call.
\<close>

section \<open>Profiles\<close>

definition find_profile :: "ustring \<Rightarrow> capture_store \<Rightarrow> profile option" where
  "find_profile n s = find (\<lambda>p. profile_notebook p = n) (profiles s)"

definition get_or_create_profile :: "ustring \<Rightarrow> ustring \<Rightarrow> profile cs" where
  "get_or_create_profile now n =
     sm_then (sm_lift (require_nonempty n))
     (sm_bind (sm_gets (\<lambda>s. n \<in> set (live_notebooks s))) (\<lambda>there.
      sm_then (sm_check there CaptureNotFound)
     (sm_then (sm_modify (\<lambda>s. if find_profile n s \<noteq> None then s
                 else s\<lparr>profiles := profiles s @ [default_profile n now]\<rparr>))
      (sm_bind (sm_gets (find_profile n)) (sm_some CaptureNotFound)))))"

definition apply_profile_update :: "ustring \<Rightarrow> profile \<Rightarrow> profile \<Rightarrow> profile" where
  "apply_profile_update now u p =
     p\<lparr>remote_realtime_enabled := remote_realtime_enabled u, profile_mode := profile_mode u,
       language_a := language_a u, language_b := language_b u, left_language := left_language u,
       right_language := right_language u, selected_languages := selected_languages u,
       common_caption_language := common_caption_language u, privacy_level := privacy_level u,
       send_context := send_context u, profile_revision := profile_revision p + 1, profile_updated := now,
       subtitle_only_languages :=
         normalized_subtitle_only_languages (selected_languages u) (subtitle_only_languages u)\<rparr>"

definition update_profile :: "ustring \<Rightarrow> ustring \<Rightarrow> nat \<Rightarrow> profile \<Rightarrow> profile cs" where
  "update_profile now n expected_revision u =
     sm_then (sm_lift (validate_profile_update u))
     (sm_then (sm_check (expected_revision \<le> max_i64) CaptureInvalid)
     (\<lambda>s. let hit = (\<lambda>p. profile_notebook p = n \<and> profile_revision p = expected_revision)
          in if list_all (\<lambda>p. hit p \<longrightarrow> profile_check (apply_profile_update now u p)) (profiles s)
             then (if filter hit (profiles s) = [] then (Inl CaptureConflict, s)
                   else let s' = s\<lparr>profiles := map_where hit (apply_profile_update now u) (profiles s)\<rparr>
                        in sm_bind (sm_gets (find_profile n)) (sm_some CaptureNotFound) s')
             else (Inl SqliteError, s)))"

section \<open>Creating a run\<close>

record new_run_input =
  new_id :: ustring
  new_notebook :: ustring
  new_session :: ustring
  new_health :: remote_health
  new_journal :: ustring
  new_key :: ustring
  new_sample_rate :: nat
  new_channels :: nat

definition validate_new_run :: "new_run_input \<Rightarrow> capture_error + unit" where
  "validate_new_run i =
     (if list_ex (\<lambda>v. trim v = []) [new_id i, new_notebook i, new_session i, new_journal i, new_key i] \<or>
         new_sample_rate i = 0 \<or> new_channels i = 0
      then Inl CaptureInvalid else Inr ())"

definition validate_authorized_profile_snapshot :: "ustring \<Rightarrow> profile \<Rightarrow> capture_error + unit" where
  "validate_authorized_profile_snapshot n p =
     (if profile_notebook p \<noteq> n \<or> trim (profile_created p) = [] \<or> trim (profile_updated p) = []
      then Inl CaptureInvalid else validate_profile_update p)"

text \<open>The columns the conditional \<open>INSERT\<close> compares with the stored profile. A stored caption language
  is a legacy value that reads as none; the subtitle languages are covered by the revision.\<close>

definition same_authorization :: "profile \<Rightarrow> profile \<Rightarrow> bool" where
  "same_authorization snapshot p \<longleftrightarrow>
     profile_notebook p = profile_notebook snapshot \<and> profile_revision p = profile_revision snapshot \<and>
     remote_realtime_enabled p = remote_realtime_enabled snapshot \<and> profile_mode p = profile_mode snapshot \<and>
     language_a p = language_a snapshot \<and> language_b p = language_b snapshot \<and>
     left_language p = left_language snapshot \<and> right_language p = right_language snapshot \<and>
     selected_languages p = selected_languages snapshot \<and>
     common_caption_language p = common_caption_language snapshot \<and>
     privacy_level p = privacy_level snapshot \<and> send_context p = send_context snapshot \<and>
     profile_created p = profile_created snapshot \<and> profile_updated p = profile_updated snapshot"

definition insert_authorized :: "profile \<Rightarrow> run \<Rightarrow> unit cs" where
  "insert_authorized snapshot r =
     sm_then (sm_check (profile_revision snapshot \<le> max_i64) CaptureInvalid)
     (sm_bind (sm_gets (\<lambda>s. (list_ex (same_authorization snapshot) (profiles s), find_profile (run_notebook r) s)))
       (\<lambda>(matches, stored).
          if matches then insert_run r
          else sm_throw (if stored \<noteq> None then CaptureConflict else CaptureNotFound)))"

definition blank_run :: "ustring \<Rightarrow> ustring \<Rightarrow> ustring \<Rightarrow> profile \<Rightarrow> run" where
  "blank_run i notebook session snapshot =
     \<lparr>run_id = i, run_notebook = notebook, run_session = session,
      run_profile_revision = profile_revision snapshot, run_profile = snapshot,
      realtime_provider = None, realtime_model = None, post_stop_provider = None, post_stop_model = None,
      run_capture = Recording, run_health = HealthOff, run_projection = ProjPending, run_async = AsyncNone,
      async_authorized = None, async_hint = None, async_projection = AProjNone, async_task = None,
      async_payload = None, output_sha = None, result_json = None, provider_completed = None,
      search_state = SearchNone, provider_error = None, provider_request = None, journal_path = None,
      audio_path = None, audio_key = None, context_key = None, run_frames = 0, run_completed = None\<rparr>"

definition recording_run :: "new_run_input \<Rightarrow> profile \<Rightarrow> run" where
  "recording_run i snapshot =
     (blank_run (new_id i) (new_notebook i) (new_session i) snapshot)
       \<lparr>run_health := new_health i, journal_path := Some (new_journal i), audio_key := Some (new_key i)\<rparr>"

definition admit_run :: "new_run_input \<Rightarrow> profile \<Rightarrow> unit cs" where
  "admit_run i snapshot =
     sm_then (sm_lift (validate_new_run i))
     (sm_then (sm_lift (validate_authorized_profile_snapshot (new_notebook i) snapshot))
      (sm_check (remote_realtime_enabled snapshot \<or> new_health i = HealthOff) CaptureInvalid))"

definition create_run :: "new_run_input \<Rightarrow> profile \<Rightarrow> run cs" where
  "create_run i snapshot =
     sm_then (admit_run i snapshot)
     (sm_then (in_tx (insert_authorized snapshot (recording_run i snapshot)))
      (require_run (new_id i)))"

text \<open>The catalogue row that goes with a new recording.\<close>

record session_record =
  session_id :: ustring
  session_type :: ustring
  session_status :: ustring
  session_duration :: nat
  session_deleted :: bool

text \<open>\<open>attach_new_capture_membership_tx\<close>: a notebook has one tab of each built-in kind, and gets a
  projection of the session in each. \<open>fresh\<close> are the new row ids.\<close>

definition BUILTIN_TABS :: "ustring list" where
  "BUILTIN_TABS = [lit ''realtime_transcript'', lit ''async_transcript'', lit ''manual_note'']"

definition attach_new_capture_membership :: "(ustring \<Rightarrow> ustring) \<Rightarrow> ustring \<Rightarrow> ustring \<Rightarrow> unit cs" where
  "attach_new_capture_membership fresh n k =
     sm_bind (sm_gets (\<lambda>s. filter (\<lambda>t. tab_notebook t = n \<and> \<not> tab_deleted t) (tabs s))) (\<lambda>ts.
       sm_then (sm_check (length ts = length BUILTIN_TABS \<and>
           list_all (\<lambda>kind. length (filter (\<lambda>t. tab_kind t = kind) ts) = 1) BUILTIN_TABS) CaptureCorrupt)
       (sm_modify (\<lambda>s. s\<lparr>memberships := memberships s @ [(n, k)],
          projections := projections s @ map (\<lambda>t. \<lparr>projection_id = fresh (tab_id t), projection_notebook = n,
            projection_tab = tab_id t, projection_session = k\<rparr>) ts\<rparr>)))"

definition insert_session_rows :: "ustring \<Rightarrow> unit cs" where
  "insert_session_rows k = (\<lambda>s.
     if k \<in> set (session_rows s) \<or> k \<in> set (map meta_session (metas s)) then (Inl SqliteError, s)
     else (Inr (), s\<lparr>session_rows := session_rows s @ [k],
            metas := metas s @ [\<lparr>meta_session = k, meta_path = None, meta_key = None, meta_tokens = None\<rparr>]\<rparr>))"

definition create_session_and_run ::
    "(ustring \<Rightarrow> ustring) \<Rightarrow> session_record \<Rightarrow> new_run_input \<Rightarrow> profile \<Rightarrow> run cs" where
  "create_session_and_run fresh session i snapshot =
     sm_then (sm_lift (validate_new_run i))
     (sm_then (sm_lift (validate_authorized_profile_snapshot (new_notebook i) snapshot))
     (sm_then (sm_check (session_id session = new_session i \<and> session_type session = lit ''recording'' \<and>
         session_status session = lit ''recording'' \<and> session_duration session = 0 \<and>
         \<not> session_deleted session) CaptureInvalid)
     (sm_then (sm_check (remote_realtime_enabled snapshot \<or> new_health i = HealthOff) CaptureInvalid)
     (sm_then (in_tx (sm_then (insert_session_rows (session_id session))
         (sm_then (insert_authorized snapshot (recording_run i snapshot))
            (attach_new_capture_membership fresh (new_notebook i) (new_session i)))))
      (require_run (new_id i))))))"

record new_import_input =
  import_id :: ustring
  import_notebook :: ustring
  import_session :: ustring
  import_path :: ustring
  import_key :: ustring
  import_sample_rate :: nat
  import_channels :: nat
  import_frames :: nat

definition validate_completed_import_run :: "new_import_input \<Rightarrow> capture_error + unit" where
  "validate_completed_import_run i =
     (if list_ex (\<lambda>v. trim v = []) [import_id i, import_notebook i, import_session i, import_path i, import_key i] \<or>
         import_sample_rate i = 0 \<or> import_channels i = 0
      then Inl CaptureInvalid else Inr ())"

definition imported_run :: "ustring \<Rightarrow> new_import_input \<Rightarrow> profile \<Rightarrow> run" where
  "imported_run now i snapshot =
     (blank_run (import_id i) (import_notebook i) (import_session i) snapshot)
       \<lparr>run_capture := CaptureCompleted, run_projection := ProjReady, audio_path := Some (import_path i),
        audio_key := Some (import_key i), run_frames := import_frames i, run_completed := Some now\<rparr>"

definition create_completed_import_run :: "ustring \<Rightarrow> new_import_input \<Rightarrow> profile \<Rightarrow> run cs" where
  "create_completed_import_run now i snapshot =
     sm_then (sm_lift (validate_completed_import_run i))
     (sm_then (sm_lift (validate_authorized_profile_snapshot (import_notebook i) snapshot))
     (sm_then (sm_check (import_frames i \<le> max_i64) CaptureInvalid)
     (sm_then (in_tx (insert_authorized snapshot (imported_run now i snapshot)))
      (require_run (import_id i)))))"

section \<open>Capture\<close>

fun valid_capture_transition :: "capture_state \<Rightarrow> capture_state \<Rightarrow> bool" where
  "valid_capture_transition Recording c = (c \<in> {Paused, Draining, Interrupted, CaptureFailed})"
| "valid_capture_transition Paused c = (c \<in> {Recording, Draining, Interrupted, CaptureFailed})"
| "valid_capture_transition Draining c = (c \<in> {CaptureCompleted, Interrupted, CaptureFailed})"
| "valid_capture_transition _ c = False"

definition transition_capture :: "ustring \<Rightarrow> ustring \<Rightarrow> capture_state \<Rightarrow> capture_state \<Rightarrow> run cs" where
  "transition_capture now i expected to =
     sm_then (sm_check (valid_capture_transition expected to) CaptureInvalid)
     (sm_then (update_or CaptureConflict (\<lambda>r. run_id r = i \<and> run_capture r = expected)
        (\<lambda>r. r\<lparr>run_capture := to, run_completed := (if is_terminal to then Some now else run_completed r),
               run_health := (if is_terminal to then HealthOff else run_health r)\<rparr>))
      (require_run i))"

record provider_failure =
  failure_type :: ustring
  failure_request :: "ustring option"

definition interrupt_capture :: "ustring \<Rightarrow> ustring \<Rightarrow> capture_state \<Rightarrow> provider_failure \<Rightarrow> run cs" where
  "interrupt_capture now i expected failure =
     sm_then (sm_check (expected \<in> {Recording, Paused}) CaptureInvalid)
     (sm_then (sm_check (failure_type failure \<in>
         {lit ''local_audio_overflow'', lit ''local_audio_unavailable'', lit ''local_persistence''}) CaptureInvalid)
     (sm_then (update_or CaptureConflict
        (\<lambda>r. run_id r = i \<and> run_capture r = expected \<and> run_async r \<in> {AsyncNone, AsyncPending} \<and>
             run_projection r \<in> {ProjPending, ProjFailed})
        (\<lambda>r. r\<lparr>run_capture := Interrupted, run_health := HealthOff, provider_error := Some (failure_type failure),
               provider_request := failure_request failure, run_async := AsyncNone, async_task := None,
               async_payload := None, run_completed := Some now\<rparr>))
      (require_run i)))"

text \<open>A task intent that has no task yet is dropped with the capture it belongs to.\<close>

definition drop_pending_intent :: "run \<Rightarrow> run" where
  "drop_pending_intent r =
     (if run_async r = AsyncPending then r\<lparr>run_async := AsyncNone, async_task := None, async_payload := None\<rparr> else r)"

definition interrupt_local_persistence :: "ustring \<Rightarrow> ustring \<Rightarrow> capture_state \<Rightarrow> provider_failure \<Rightarrow> run cs" where
  "interrupt_local_persistence now i expected failure =
     sm_then (sm_check (is_active expected) CaptureInvalid)
     (sm_then (sm_check (failure_type failure = lit ''local_persistence'') CaptureInvalid)
     (sm_then (update_or CaptureConflict (\<lambda>r. run_id r = i \<and> run_capture r = expected)
        (\<lambda>r. (drop_pending_intent r)\<lparr>run_capture := Interrupted, run_health := HealthOff,
               provider_error := Some (failure_type failure), provider_request := failure_request failure,
               run_completed := Some now\<rparr>))
      (require_run i)))"

definition update_remote_health :: "ustring \<Rightarrow> remote_health \<Rightarrow> provider_failure option \<Rightarrow> run cs" where
  "update_remote_health i health failure =
     sm_then (update_or CaptureNotFound (\<lambda>r. run_id r = i)
        (\<lambda>r. case failure of
               Some f \<Rightarrow> r\<lparr>run_health := health, provider_error := Some (failure_type f),
                          provider_request := failure_request f\<rparr>
             | None \<Rightarrow> if health = HealthLive then r\<lparr>run_health := health, provider_error := None, provider_request := None\<rparr>
                       else r\<lparr>run_health := health\<rparr>))
      (require_run i)"

definition update_audio_progress :: "ustring \<Rightarrow> nat \<Rightarrow> run cs" where
  "update_audio_progress i frames =
     sm_then (sm_check (frames \<le> max_i64) CaptureInvalid)
     (sm_then (update_or CaptureConflict
        (\<lambda>r. run_id r = i \<and> is_active (run_capture r) \<and> run_frames r \<le> frames) (\<lambda>r. r\<lparr>run_frames := frames\<rparr>))
      (require_run i))"

definition finalize_audio_when :: "capture_state \<Rightarrow> ustring \<Rightarrow> ustring \<Rightarrow> nat \<Rightarrow> run cs" where
  "finalize_audio_when c i path frames =
     sm_then (sm_lift (require_nonempty path))
     (sm_then (sm_check (frames \<le> max_i64) CaptureInvalid)
     (sm_then (update_or CaptureConflict (\<lambda>r. run_id r = i \<and> run_capture r = c \<and> run_frames r \<le> frames)
        (\<lambda>r. r\<lparr>audio_path := Some path, run_frames := frames\<rparr>))
      (require_run i)))"

definition finalize_audio :: "ustring \<Rightarrow> ustring \<Rightarrow> nat \<Rightarrow> run cs" where
  "finalize_audio = finalize_audio_when Draining"

definition finalize_interrupted_audio :: "ustring \<Rightarrow> ustring \<Rightarrow> nat \<Rightarrow> run cs" where
  "finalize_interrupted_audio = finalize_audio_when Interrupted"

definition clear_retained_audio_references :: "ustring \<Rightarrow> run cs" where
  "clear_retained_audio_references k =
     sm_then (sm_lift (require_nonempty k))
     (sm_then (update_or CaptureNotFound (\<lambda>r. run_session r = k) (\<lambda>r. r\<lparr>audio_path := None, audio_key := None\<rparr>))
      (require_session k))"

section \<open>Recovery\<close>

definition recovered_projection :: "run \<Rightarrow> run" where
  "recovered_projection r =
     r\<lparr>run_projection := (if run_projection r = Projecting then ProjFailed else run_projection r),
       async_projection := (if async_projection r = AProjecting then AProjFailed else async_projection r)\<rparr>"

definition recovered_capture :: "ustring \<Rightarrow> run \<Rightarrow> run" where
  "recovered_capture now r =
     r\<lparr>run_capture := Interrupted, run_health := HealthOff,
       run_completed := (case run_completed r of None \<Rightarrow> Some now | Some t \<Rightarrow> Some t)\<rparr>"

definition needs_recovery :: "run \<Rightarrow> bool" where
  "needs_recovery r \<longleftrightarrow> is_active (run_capture r) \<or> run_projection r = Projecting \<or> async_projection r = AProjecting"

definition recover_unfinished_runs :: "ustring \<Rightarrow> nat cs" where
  "recover_unfinished_runs now =
     execute_runs needs_recovery
       (\<lambda>r. recovered_projection (if is_active (run_capture r) then recovered_capture now (drop_pending_intent r) else r))"

definition recover_detached_unfinished_run :: "ustring \<Rightarrow> ustring \<Rightarrow> run cs" where
  "recover_detached_unfinished_run now i =
     sm_then (sm_lift (require_nonempty i))
     (sm_bind (execute_runs (\<lambda>r. run_id r = i \<and> is_active (run_capture r))
         (\<lambda>r. recovered_projection (recovered_capture now r))) (\<lambda>n.
      sm_bind (require_run i) (\<lambda>r.
        if n = 0 \<and> is_active (run_capture r) then sm_throw CaptureConflict else sm_return r)))"

section \<open>Projection of the transcript\<close>

fun valid_projection_transition :: "projection_state \<Rightarrow> projection_state \<Rightarrow> bool" where
  "valid_projection_transition ProjPending p = (p \<in> {Projecting, ProjFailed})"
| "valid_projection_transition Projecting p = (p \<in> {ProjReady, ProjFailed})"
| "valid_projection_transition ProjFailed p = (p = ProjPending)"
| "valid_projection_transition ProjReady p = False"

definition set_projection_state :: "ustring \<Rightarrow> projection_state \<Rightarrow> projection_state \<Rightarrow> run cs" where
  "set_projection_state i expected to =
     sm_then (sm_check (valid_projection_transition expected to) CaptureInvalid)
     (sm_then (update_or CaptureConflict
        (\<lambda>r. run_id r = i \<and> run_projection r = expected \<and> is_terminal (run_capture r))
        (\<lambda>r. r\<lparr>run_projection := to\<rparr>))
      (require_run i))"

definition retry_projection :: "ustring \<Rightarrow> run cs" where
  "retry_projection i = set_projection_state i ProjFailed ProjPending"

definition complete_projection_unless_purging :: "ustring \<Rightarrow> unit cs" where
  "complete_projection_unless_purging i =
     sm_then (sm_lift (require_nonempty i))
     (in_tx (sm_bind (require_run i) (\<lambda>run.
        sm_then (not_purging (run_session run))
        (update_or CaptureConflict
           (\<lambda>r. run_id r = i \<and> run_projection r = Projecting \<and> is_terminal (run_capture r))
           (\<lambda>r. r\<lparr>run_projection := ProjReady\<rparr>)))))"

text \<open>Gaps of the realtime transcript: one row for each stretch of frames.\<close>

definition preserve_network_transcript_gap :: "ustring \<Rightarrow> ustring \<Rightarrow> nat \<Rightarrow> nat \<Rightarrow> transcript_gap cs" where
  "preserve_network_transcript_gap fresh k start_frame end_frame =
     sm_then (sm_check (start_frame < end_frame) CaptureConflict)
     (sm_then (sm_check (start_frame \<le> max_i64 \<and> end_frame \<le> max_i64) CaptureInvalid)
     (\<lambda>s. case find (\<lambda>g. gap_session g = k \<and> gap_start g = start_frame \<and> gap_end g = end_frame) (gaps s) of
            Some g \<Rightarrow> (Inr g, s)
          | None \<Rightarrow>
              if find_session k s = None then (Inl SqliteError, s)
              else let g = \<lparr>gap_id = fresh, gap_session = k, gap_start = start_frame, gap_end = end_frame, gap_repaired = False\<rparr>
                   in (Inr g, s\<lparr>gaps := gaps s @ [g]\<rparr>)))"

definition has_unrepaired_transcript_gaps :: "ustring \<Rightarrow> bool cs" where
  "has_unrepaired_transcript_gaps k = sm_gets (\<lambda>s. list_ex (\<lambda>g. gap_session g = k \<and> \<not> gap_repaired g) (gaps s))"

definition get_active_run :: "run option cs" where
  "get_active_run = sm_gets (\<lambda>s. find (\<lambda>r. is_active (run_capture r)) (runs s))"

end
