(* ===== verification/Capture_Async.thy ===== *)
theory Capture_Async
  imports Capture_Run Model_Text
begin

text \<open>
  Crate \<open>vt-store\<close>: the transcription after a recording. \<open>notebook_capture_store.rs\<close> keeps the
  authorization, the one task, the provider's receipt, the projection of its result and the deletion
  of a session; \<open>search.rs\<close> makes the result searchable. SHA-256, the encoding of the token list and
  the parsing of the provider's JSON are the record \<open>codec\<close>.
\<close>

section \<open>Provenance and authorization\<close>

datatype provider_role = Realtime | PostStop

definition role_model :: "provider_role \<Rightarrow> ustring" where
  "role_model role = (case role of Realtime \<Rightarrow> SONIOX_STT_RT_V5_MODEL_ID | PostStop \<Rightarrow> SONIOX_STT_ASYNC_V5_MODEL_ID)"

definition claim_of :: "provider_role \<Rightarrow> run \<Rightarrow> ustring option \<times> ustring option" where
  "claim_of role r = (case role of Realtime \<Rightarrow> (realtime_provider r, realtime_model r)
     | PostStop \<Rightarrow> (post_stop_provider r, post_stop_model r))"

definition claim_eligible :: "provider_role \<Rightarrow> run \<Rightarrow> bool" where
  "claim_eligible role r = (case role of Realtime \<Rightarrow> is_active (run_capture r)
     | PostStop \<Rightarrow> allows_post_stop_async (run_capture r))"

definition set_claim :: "provider_role \<Rightarrow> ustring \<Rightarrow> ustring \<Rightarrow> run \<Rightarrow> run" where
  "set_claim role provider model r = (case role of
       Realtime \<Rightarrow> r\<lparr>realtime_provider := Some provider, realtime_model := Some model\<rparr>
     | PostStop \<Rightarrow> r\<lparr>post_stop_provider := Some provider, post_stop_model := Some model\<rparr>)"

definition claim_provider_provenance :: "ustring \<Rightarrow> provider_role \<Rightarrow> ustring \<Rightarrow> ustring \<Rightarrow> run cs" where
  "claim_provider_provenance k role provider model =
     sm_then (sm_lift (require_nonempty k)) (sm_then (sm_lift (require_nonempty provider))
     (sm_then (sm_lift (require_nonempty model))
     (sm_then (sm_check (provider = SONIOX_PROVIDER_ID \<and> model = role_model role) CaptureInvalid)
     (in_tx (sm_bind (require_session k) (\<lambda>run.
        sm_then (not_purging k)
        (sm_then (sm_check (claim_eligible role run) CaptureConflict)
        (case claim_of role run of
           (Some p, Some m) \<Rightarrow> if p = provider \<and> m = model then sm_return run else sm_throw CaptureConflict
         | (None, None) \<Rightarrow>
             sm_then (update_or CaptureConflict
               (\<lambda>r. run_session r = k \<and> claim_eligible role r \<and> claim_of role r = (None, None))
               (set_claim role provider model))
             (require_session k)
         | _ \<Rightarrow> sm_throw CaptureCorrupt))))))))"

text \<open>Retained audio: a session with chunks keeps one that is not deleted, another its own file.\<close>

definition has_retained_audio :: "ustring \<Rightarrow> capture_store \<Rightarrow> bool" where
  "has_retained_audio k s =
     (if list_ex (\<lambda>c. chunk_session c = k) (chunks s)
      then list_ex (\<lambda>c. chunk_session c = k \<and> \<not> chunk_deleted c) (chunks s)
      else list_ex (\<lambda>r. run_session r = k \<and> audio_path r \<noteq> None \<and> audio_key r \<noteq> None) (runs s))"

definition trimmed_hint :: "ustring option \<Rightarrow> ustring option" where
  "trimmed_hint hint = (case hint of None \<Rightarrow> None | Some h \<Rightarrow> if trim h = [] then None else Some (trim h))"

definition unauthorized :: "ustring \<Rightarrow> run \<Rightarrow> bool" where
  "unauthorized k r \<longleftrightarrow> run_session r = k \<and> allows_post_stop_async (run_capture r) \<and> run_async r = AsyncNone \<and>
     async_authorized r = None \<and> async_hint r = None \<and> async_task r = None \<and> async_payload r = None"

definition authorize_async_transcription :: "ustring \<Rightarrow> int \<Rightarrow> ustring option \<Rightarrow> run cs" where
  "authorize_async_transcription k at_ms hint =
     sm_then (sm_lift (require_nonempty k)) (sm_then (sm_check (0 < at_ms) CaptureInvalid)
     (sm_then (case trimmed_hint hint of None \<Rightarrow> sm_return () | Some l \<Rightarrow> sm_lift (validate_language l))
     (in_tx (sm_bind (require_session k) (\<lambda>run.
        sm_then (not_purging k)
        (if run_async run \<noteq> AsyncNone then sm_return run
         else sm_then (sm_check (allows_post_stop_async (run_capture run)) CaptureConflict)
           (sm_bind (sm_gets (has_retained_audio k)) (\<lambda>audio.
            sm_then (sm_check audio CaptureConflict)
            (sm_bind (execute_runs (unauthorized k)
                (\<lambda>r. r\<lparr>run_async := AsyncPending, async_authorized := Some at_ms, async_hint := trimmed_hint hint\<rparr>)) (\<lambda>n.
              if n \<noteq> 0 then require_session k
              else sm_bind (require_session k) (\<lambda>raced.
                if run_async raced \<noteq> AsyncNone then sm_return raced else sm_throw CaptureConflict)))))))))))"

section \<open>The task\<close>

definition validate_sha256_hex :: "ustring \<Rightarrow> capture_error + unit" where
  "validate_sha256_hex v = (if is_sha256_hex v then Inr () else Inl CaptureInvalid)"

definition reserve_async_task :: "ustring \<Rightarrow> ustring \<Rightarrow> ustring \<Rightarrow> run cs" where
  "reserve_async_task i tid payload =
     sm_then (sm_lift (require_nonempty i)) (sm_then (sm_lift (require_nonempty tid))
     (sm_then (sm_lift (validate_sha256_hex payload))
     (in_tx (sm_bind (require_run i) (\<lambda>run.
        sm_then (not_purging (run_session run))
        (sm_then (sm_check (allows_post_stop_async (run_capture run)) CaptureConflict)
        (if run_async run = AsyncPending then
           sm_then (update_or CaptureConflict
             (\<lambda>r. run_id r = i \<and> allows_post_stop_async (run_capture r) \<and> run_async r = AsyncPending \<and>
                  async_task r = None \<and> async_payload r = None)
             (\<lambda>r. r\<lparr>run_async := AsyncReserved, async_task := Some tid, async_payload := Some payload\<rparr>))
           (require_run i)
         else if run_async run = AsyncReserved \<and> async_task run = Some tid \<and> async_payload run = Some payload
         then sm_return run
         else sm_throw CaptureConflict)))))))"

definition mark_async_task_enqueued :: "ustring \<Rightarrow> ustring \<Rightarrow> run cs" where
  "mark_async_task_enqueued i tid =
     sm_then (sm_lift (require_nonempty i)) (sm_then (sm_lift (require_nonempty tid))
     (in_tx (sm_bind (require_run i) (\<lambda>run.
        sm_then (not_purging (run_session run))
        (if run_async run = AsyncReserved \<and> async_task run = Some tid \<and> async_payload run \<noteq> None then
           sm_then (update_or CaptureConflict
             (\<lambda>r. run_id r = i \<and> run_async r = AsyncReserved \<and> async_task r = Some tid \<and> async_payload r \<noteq> None)
             (\<lambda>r. r\<lparr>run_async := AsyncEnqueued\<rparr>))
           (require_run i)
         else if run_async run = AsyncEnqueued \<and> async_task run = Some tid then sm_return run
         else sm_throw CaptureConflict)))))"

definition exact_task :: "ustring \<Rightarrow> async_task_state \<Rightarrow> ustring \<Rightarrow> run \<Rightarrow> bool" where
  "exact_task k a tid r \<longleftrightarrow> run_session r = k \<and> run_async r = a \<and> async_task r = Some tid \<and> async_payload r \<noteq> None"

definition mark_async_task_terminal_for_session :: "ustring \<Rightarrow> ustring \<Rightarrow> bool \<Rightarrow> run cs" where
  "mark_async_task_terminal_for_session k tid success =
     sm_then (sm_lift (require_nonempty k)) (sm_then (sm_lift (require_nonempty tid))
     (in_tx (sm_bind (require_session k) (\<lambda>run.
        let desired = (if success then AsyncCompleted else AsyncFailed);
            reserved_failure = (\<not> success \<and> exact_task k AsyncReserved tid run)
        in sm_then (not_purging k)
          (if run_async run = desired \<and> async_task run = Some tid then sm_return run
           else if \<not> reserved_failure \<and> \<not> exact_task k AsyncEnqueued tid run then sm_throw CaptureConflict
           else
             sm_then (sm_when reserved_failure
               (update_or CaptureConflict (exact_task k AsyncReserved tid) (\<lambda>r. r\<lparr>run_async := AsyncEnqueued\<rparr>)))
             (sm_then (update_or CaptureConflict (exact_task k AsyncEnqueued tid)
                (\<lambda>r. r\<lparr>run_async := desired,
                       async_projection := (if desired = AsyncCompleted then AProjPending else async_projection r)\<rparr>))
             (require_session k)))))))"

section \<open>Receipts\<close>

text \<open>What \<open>validate_provider_result_shape\<close> reads of the provider's JSON object: the session, the
  number of tokens, and whether it has a text and a duration.\<close>

record result_shape =
  shape_session :: "ustring option"
  shape_count :: "nat option"
  has_full_text :: bool
  has_duration :: bool

record 'tok codec =
  sha256_hex :: "nat list \<Rightarrow> ustring"
  encode_tokens :: "'tok list \<Rightarrow> ustring"
  decode_tokens :: "ustring \<Rightarrow> 'tok list option"
  parse_result :: "ustring \<Rightarrow> result_shape option"

definition result_shape_ok :: "'tok codec \<Rightarrow> ustring \<Rightarrow> nat \<Rightarrow> ustring \<Rightarrow> bool" where
  "result_shape_ok c k n json =
     (case parse_result c json of
        None \<Rightarrow> False
      | Some shape \<Rightarrow> shape_session shape = Some k \<and> shape_count shape = Some n \<and> has_full_text shape \<and> has_duration shape)"

text \<open>UTF-8, and the length in eight bytes, most significant first.\<close>

definition utf8_char :: "uchar \<Rightarrow> nat list" where
  "utf8_char c =
     (if c < 0x80 then [c]
      else if c < 0x800 then [0xC0 + c div 0x40, 0x80 + c mod 0x40]
      else if c < 0x10000 then [0xE0 + c div 0x1000, 0x80 + c div 0x40 mod 0x40, 0x80 + c mod 0x40]
      else [0xF0 + c div 0x40000, 0x80 + c div 0x1000 mod 0x40, 0x80 + c div 0x40 mod 0x40, 0x80 + c mod 0x40])"

definition utf8 :: "ustring \<Rightarrow> nat list" where
  "utf8 s = concat (map utf8_char s)"

definition be_bytes :: "nat \<Rightarrow> nat list" where
  "be_bytes n = map (\<lambda>i. n div 256 ^ i mod 256) [7, 6, 5, 4, 3, 2, 1, 0]"

definition digest_input :: "ustring list \<Rightarrow> nat list" where
  "digest_input vs = concat (map (\<lambda>v. be_bytes (length (utf8 v)) @ utf8 v) vs)"

definition async_provider_output_digest :: "'tok codec \<Rightarrow> ustring list \<Rightarrow> ustring" where
  "async_provider_output_digest c vs = sha256_hex c (digest_input vs)"

record receipt =
  receipt_session :: ustring
  receipt_task :: ustring
  receipt_provider :: ustring
  receipt_model :: ustring
  receipt_sha :: ustring
  receipt_json :: ustring
  receipt_search :: async_search_state
  receipt_completed :: ustring

definition find_tokens :: "ustring \<Rightarrow> capture_store \<Rightarrow> ustring option" where
  "find_tokens k s = Option.bind (find (\<lambda>m. meta_session m = k) (metas s)) meta_tokens"

definition supported_model :: "ustring \<Rightarrow> bool" where
  "supported_model m \<longleftrightarrow> m = SONIOX_STT_ASYNC_V5_MODEL_ID \<or> m = SONIOX_STT_RT_V5_MODEL_ID"

definition validate_receipt_fields ::
    "'tok codec \<Rightarrow> ustring \<Rightarrow> ustring \<Rightarrow> ustring \<Rightarrow> ustring \<Rightarrow> ustring \<Rightarrow> ustring \<Rightarrow> ustring \<Rightarrow> ustring \<Rightarrow> bool" where
  "validate_receipt_fields c k tid provider model sha json tokens completed \<longleftrightarrow>
     trim k \<noteq> [] \<and> trim tid \<noteq> [] \<and> provider = SONIOX_PROVIDER_ID \<and> supported_model model \<and> is_sha256_hex sha \<and>
     (case decode_tokens c tokens of None \<Rightarrow> False | Some ts \<Rightarrow> result_shape_ok c k (length ts) json) \<and>
     sha = async_provider_output_digest c [k, tid, provider, model, tokens, json] \<and> trim completed \<noteq> []"

definition validate_async_provider_receipt :: "'tok codec \<Rightarrow> run \<Rightarrow> ustring option \<Rightarrow> capture_error + receipt" where
  "validate_async_provider_receipt c r tokens =
     (case (async_task r, post_stop_provider r, post_stop_model r, output_sha r, result_json r, tokens, provider_completed r) of
        (Some tid, Some provider, Some model, Some sha, Some json, Some ts, Some completed) \<Rightarrow>
          if validate_receipt_fields c (run_session r) tid provider model sha json ts completed
          then Inr \<lparr>receipt_session = run_session r, receipt_task = tid, receipt_provider = provider, receipt_model = model,
                 receipt_sha = sha, receipt_json = json, receipt_search = search_state r, receipt_completed = completed\<rparr>
          else Inl CaptureCorrupt
      | _ \<Rightarrow> Inl CaptureCorrupt)"

definition receipt_of :: "'tok codec \<Rightarrow> ustring \<Rightarrow> receipt option cs" where
  "receipt_of c k =
     sm_bind (sm_gets (\<lambda>s. (find (\<lambda>r. run_session r = k \<and> output_sha r \<noteq> None) (runs s), find_tokens k s)))
       (\<lambda>(found, tokens). case found of
          None \<Rightarrow> sm_return None
        | Some r \<Rightarrow> sm_bind (sm_lift (validate_async_provider_receipt c r tokens)) (\<lambda>x. sm_return (Some x)))"

definition get_async_provider_receipt :: "'tok codec \<Rightarrow> ustring \<Rightarrow> ustring \<Rightarrow> receipt option cs" where
  "get_async_provider_receipt c k tid =
     sm_then (sm_lift (require_nonempty k)) (sm_then (sm_lift (require_nonempty tid))
     (sm_bind (receipt_of c k) (\<lambda>x.
        sm_then (sm_check (case x of None \<Rightarrow> True | Some q \<Rightarrow> receipt_task q = tid) CaptureConflict) (sm_return x))))"

text \<open>Scans keep a damaged receipt apart, so that it does not hide the others.\<close>

fun scan_receipts :: "'tok codec \<Rightarrow> capture_store \<Rightarrow> run list \<Rightarrow> receipt list \<times> (ustring \<times> ustring option) list" where
  "scan_receipts c s [] = ([], [])"
| "scan_receipts c s (r # rs) =
     (let (good, corrupt) = scan_receipts c s rs
      in case validate_async_provider_receipt c r (find_tokens (run_session r) s) of
           Inr x \<Rightarrow> (x # good, corrupt)
         | Inl e \<Rightarrow> (good, (run_session r, async_task r) # corrupt))"

definition list_async_provider_receipts :: "'tok codec \<Rightarrow> capture_store \<Rightarrow> receipt list \<times> (ustring \<times> ustring option) list" where
  "list_async_provider_receipts c s =
     scan_receipts c s (filter (\<lambda>r. output_sha r \<noteq> None \<and> run_async r \<in> {AsyncReserved, AsyncEnqueued} \<and>
       \<not> (search_state r = SearchFailed \<and> async_task r = None) \<and> \<not> session_purge_job_exists (run_session r) s) (runs s))"

definition list_async_search_projections_requiring_retry ::
    "'tok codec \<Rightarrow> capture_store \<Rightarrow> receipt list \<times> (ustring \<times> ustring option) list" where
  "list_async_search_projections_requiring_retry c s =
     scan_receipts c s (filter (\<lambda>r. output_sha r \<noteq> None \<and> search_state r \<in> {SearchPending, SearchFailed} \<and>
       \<not> (search_state r = SearchFailed \<and> async_task r = None) \<and> \<not> session_purge_job_exists (run_session r) s) (runs s))"

text \<open>The tokens of a session with a receipt are protected by a trigger.\<close>

definition store_tokens :: "ustring \<Rightarrow> ustring \<Rightarrow> unit cs" where
  "store_tokens k json = (\<lambda>s.
     if find (\<lambda>m. meta_session m = k) (metas s) = None
     then (Inr (), s\<lparr>metas := metas s @ [\<lparr>meta_session = k, meta_path = None, meta_key = None, meta_tokens = Some json\<rparr>]\<rparr>)
     else if list_ex (\<lambda>r. run_session r = k \<and> output_sha r \<noteq> None) (runs s) \<and> find_tokens k s \<noteq> Some json
     then (Inl SqliteError, s)
     else (Inr (), s\<lparr>metas := map_where (\<lambda>m. meta_session m = k) (\<lambda>m. m\<lparr>meta_tokens := Some json\<rparr>) (metas s)\<rparr>))"

definition claimed_post_stop :: "run \<Rightarrow> capture_error + ustring \<times> ustring" where
  "claimed_post_stop r =
     (case (post_stop_provider r, post_stop_model r) of
        (Some p, Some m) \<Rightarrow> if p = SONIOX_PROVIDER_ID \<and> supported_model m then Inr (p, m) else Inl CaptureCorrupt
      | (None, None) \<Rightarrow> Inl CaptureConflict
      | _ \<Rightarrow> Inl CaptureCorrupt)"

definition commit_async_provider_success ::
    "'tok codec \<Rightarrow> ustring \<Rightarrow> ustring \<Rightarrow> ustring \<Rightarrow> 'tok list \<Rightarrow> ustring \<Rightarrow> receipt cs" where
  "commit_async_provider_success c now k tid tokens json =
     sm_then (sm_lift (require_nonempty k)) (sm_then (sm_lift (require_nonempty tid))
     (sm_then (sm_check (result_shape_ok c k (length tokens) json) CaptureInvalid)
     (in_tx (sm_bind (require_session k) (\<lambda>run.
        let tokens_json = encode_tokens c tokens
        in sm_then (not_purging k)
        (sm_then (sm_check (async_task run = Some tid) CaptureConflict)
        (sm_bind (sm_lift (claimed_post_stop run)) (\<lambda>(provider, model).
          let sha = async_provider_output_digest c [k, tid, provider, model, tokens_json, json]
          in sm_bind (receipt_of c k) (\<lambda>existing. case existing of
              Some x \<Rightarrow>
                sm_then (sm_check (receipt_task x = tid \<and> receipt_provider x = provider \<and> receipt_model x = model \<and>
                    receipt_sha x = sha \<and> receipt_json x = json) CaptureConflict)
                (sm_bind (sm_gets (find_tokens k)) (\<lambda>stored.
                 sm_then (sm_check (stored = Some tokens_json) CaptureCorrupt) (sm_return x)))
            | None \<Rightarrow>
                sm_then (sm_check (run_async run = AsyncEnqueued) CaptureConflict)
                (sm_then (store_tokens k tokens_json)
                (sm_then (update_or CaptureConflict
                   (\<lambda>r. run_session r = k \<and> run_async r = AsyncEnqueued \<and> async_task r = Some tid \<and> output_sha r = None)
                   (\<lambda>r. r\<lparr>output_sha := Some sha, result_json := Some json, provider_completed := Some now,
                          search_state := SearchPending\<rparr>))
                (sm_bind (receipt_of c k) (sm_some CaptureCorrupt)))))))))))))"

section \<open>Search\<close>

definition replace_session :: "ustring \<Rightarrow> ustring \<Rightarrow> capture_store \<Rightarrow> capture_store" where
  "replace_session k txt s =
     s\<lparr>search_index := filter (\<lambda>(j, _). j \<noteq> k) (search_index s) @ [(k, compose_thai_sara_am txt)]\<rparr>"

definition replace_session_from_async_receipt :: "ustring \<Rightarrow> ustring \<Rightarrow> ustring \<Rightarrow> ustring \<Rightarrow> unit cs" where
  "replace_session_from_async_receipt k tid sha txt =
     in_tx (sm_then (not_purging k)
       (sm_bind (sm_gets (\<lambda>s. find (\<lambda>r. run_session r = k \<and> output_sha r \<noteq> None) (runs s))) (\<lambda>found.
        sm_bind (sm_some CaptureConflict found) (\<lambda>r.
          sm_then (sm_check (async_task r = Some tid \<and> output_sha r = Some sha) CaptureConflict)
          (sm_then (sm_check (search_state r \<in> {SearchPending, SearchFailed, SearchReady}) CaptureConflict)
          (sm_then (sm_modify (replace_session k txt))
          (sm_bind (execute_runs (\<lambda>r. run_session r = k \<and> async_task r = Some tid \<and> output_sha r = Some sha \<and>
               search_state r \<in> {SearchPending, SearchFailed, SearchReady}) (\<lambda>r. r\<lparr>search_state := SearchReady\<rparr>))
             (\<lambda>n. sm_return ()))))))))"

datatype realtime_search_outcome = Replaced | SkippedAsyncReady

definition replace_session_from_realtime_unless_async_ready :: "ustring \<Rightarrow> ustring \<Rightarrow> realtime_search_outcome cs" where
  "replace_session_from_realtime_unless_async_ready k txt =
     in_tx (sm_bind (sm_gets (\<lambda>s. (find_session k s, session_purge_job_exists k s))) (\<lambda>(found, purging).
       sm_then (sm_check (found \<noteq> None \<and> \<not> purging) CaptureConflict)
       (if option_ok (\<lambda>r. search_state r = SearchReady) found then sm_return SkippedAsyncReady
        else sm_then (sm_modify (replace_session k txt)) (sm_return Replaced))))"

definition fail_corrupt_async_search_projection :: "ustring \<Rightarrow> ustring option \<Rightarrow> unit cs" where
  "fail_corrupt_async_search_projection k tid =
     sm_then (sm_lift (require_nonempty k))
     (sm_bind (execute_runs (\<lambda>r. run_session r = k \<and> output_sha r \<noteq> None \<and>
          search_state r \<in> {SearchPending, SearchFailed} \<and> (tid = None \<or> async_task r = tid))
        (\<lambda>r. r\<lparr>search_state := SearchFailed\<rparr>)) (\<lambda>n. sm_return ()))"

definition mark_async_search_projection :: "'tok codec \<Rightarrow> ustring \<Rightarrow> ustring \<Rightarrow> bool \<Rightarrow> receipt cs" where
  "mark_async_search_projection c k tid success =
     sm_then (sm_lift (require_nonempty k)) (sm_then (sm_lift (require_nonempty tid))
     (sm_then (sm_check (\<not> success) CaptureInvalid)
     (in_tx (sm_then (not_purging k)
       (sm_bind (receipt_of c k) (\<lambda>x. sm_bind (sm_some CaptureNotFound x) (\<lambda>current.
         sm_then (sm_check (receipt_task current = tid) CaptureConflict)
         (if receipt_search current = SearchFailed then sm_return current
          else sm_then (sm_check (receipt_search current \<in> {SearchPending, SearchFailed}) CaptureConflict)
            (sm_then (update_or CaptureConflict
               (\<lambda>r. run_session r = k \<and> async_task r = Some tid \<and> output_sha r \<noteq> None \<and>
                    search_state r \<in> {SearchPending, SearchFailed})
               (\<lambda>r. r\<lparr>search_state := SearchFailed\<rparr>))
             (sm_bind (receipt_of c k) (sm_some CaptureCorrupt)))))))))))"

section \<open>Projection of the result\<close>

fun valid_async_projection_transition :: "async_projection_state \<Rightarrow> async_projection_state \<Rightarrow> bool" where
  "valid_async_projection_transition AProjPending p = (p = AProjecting)"
| "valid_async_projection_transition AProjecting p = (p \<in> {AProjReady, AProjFailed})"
| "valid_async_projection_transition AProjFailed p = (p = AProjPending)"
| "valid_async_projection_transition _ p = False"

definition async_projectable :: "ustring \<Rightarrow> async_projection_state \<Rightarrow> run \<Rightarrow> bool" where
  "async_projectable i p r \<longleftrightarrow> run_id r = i \<and> async_projection r = p \<and> run_async r = AsyncCompleted \<and>
     allows_post_stop_async (run_capture r)"

definition set_async_projection_state :: "ustring \<Rightarrow> async_projection_state \<Rightarrow> async_projection_state \<Rightarrow> run cs" where
  "set_async_projection_state i expected to =
     sm_then (sm_check (valid_async_projection_transition expected to) CaptureInvalid)
     (sm_then (update_or CaptureConflict (async_projectable i expected) (\<lambda>r. r\<lparr>async_projection := to\<rparr>))
      (require_run i))"

definition retry_async_projection :: "ustring \<Rightarrow> run cs" where
  "retry_async_projection i = set_async_projection_state i AProjFailed AProjPending"

definition complete_async_projection_unless_purging :: "ustring \<Rightarrow> unit cs" where
  "complete_async_projection_unless_purging i =
     sm_then (sm_lift (require_nonempty i))
     (in_tx (sm_bind (require_run i) (\<lambda>run.
        sm_then (not_purging (run_session run))
        (sm_then (update_or CaptureConflict (async_projectable i AProjecting) (\<lambda>r. r\<lparr>async_projection := AProjReady\<rparr>))
        (sm_modify (\<lambda>s. s\<lparr>gaps := map_where (\<lambda>g. gap_session g = run_session run) (\<lambda>g. g\<lparr>gap_repaired := True\<rparr>) (gaps s)\<rparr>))))))"

section \<open>Remote artifacts\<close>

definition open_provider_remote_artifact_claim :: "ustring \<Rightarrow> ustring \<Rightarrow> ustring \<Rightarrow> unit cs" where
  "open_provider_remote_artifact_claim tid k reference =
     sm_then (sm_lift (require_nonempty tid)) (sm_then (sm_lift (require_nonempty k))
     (sm_then (sm_lift (require_nonempty reference))
     (\<lambda>s. if find (\<lambda>c. claim_task c = tid) (remote_claims s) \<noteq> None then (Inr (), s)
          else if list_ex (\<lambda>c. client_reference c = reference) (remote_claims s) then (Inl SqliteError, s)
          else (Inr (), s\<lparr>remote_claims := remote_claims s @ [\<lparr>claim_task = tid, claim_session = k,
                 client_reference = reference, remote_file = None, remote_transcription = None\<rparr>]\<rparr>))))"

definition record_provider_remote :: "ustring \<Rightarrow> ustring \<Rightarrow> (remote_claim \<Rightarrow> remote_claim) \<Rightarrow> unit cs" where
  "record_provider_remote tid remote_id f =
     sm_then (sm_lift (require_nonempty tid)) (sm_then (sm_lift (require_nonempty remote_id))
     (\<lambda>s. if find (\<lambda>c. claim_task c = tid) (remote_claims s) = None then (Inl CaptureNotFound, s)
          else (Inr (), s\<lparr>remote_claims := map_where (\<lambda>c. claim_task c = tid) f (remote_claims s)\<rparr>)))"

definition record_provider_remote_file :: "ustring \<Rightarrow> ustring \<Rightarrow> unit cs" where
  "record_provider_remote_file tid f = record_provider_remote tid f (\<lambda>c. c\<lparr>remote_file := Some f\<rparr>)"

definition record_provider_remote_transcription :: "ustring \<Rightarrow> ustring \<Rightarrow> unit cs" where
  "record_provider_remote_transcription tid x = record_provider_remote tid x (\<lambda>c. c\<lparr>remote_transcription := Some x\<rparr>)"

definition close_provider_remote_artifact_claim :: "ustring \<Rightarrow> unit cs" where
  "close_provider_remote_artifact_claim tid =
     sm_then (sm_lift (require_nonempty tid))
     (sm_modify (\<lambda>s. s\<lparr>remote_claims := filter (\<lambda>c. claim_task c \<noteq> tid) (remote_claims s)\<rparr>))"

section \<open>Deleting a session\<close>

definition option_list :: "'a option \<Rightarrow> 'a list" where
  "option_list x = (case x of None \<Rightarrow> [] | Some a \<Rightarrow> [a])"

text \<open>\<open>deduplicate_preserving_order\<close> keeps the first of equal values.\<close>

fun dedup_seen :: "'a list \<Rightarrow> 'a list \<Rightarrow> 'a list" where
  "dedup_seen seen [] = []"
| "dedup_seen seen (x # xs) = (if x \<in> set seen then dedup_seen seen xs else x # dedup_seen (x # seen) xs)"

definition deduplicate_preserving_order :: "'a list \<Rightarrow> 'a list" where
  "deduplicate_preserving_order = dedup_seen []"

definition plan_targets_of :: "ustring \<Rightarrow> capture_store \<Rightarrow> (ustring \<times> ustring \<times> ustring \<times> ustring) list" where
  "plan_targets_of k s = concat (map (\<lambda>p.
     map (\<lambda>t. (projection_id p, projection_notebook p, projection_tab p, tab_doc t))
       (filter (\<lambda>t. tab_id t = projection_tab p) (tabs s)))
     (filter (\<lambda>p. projection_session p = k) (projections s)))"

definition build_session_purge_plan :: "ustring \<Rightarrow> capture_store \<Rightarrow> purge_plan" where
  "build_session_purge_plan k s =
     (let run = find_session k s;
          meta = find (\<lambda>m. meta_session m = k) (metas s);
          of_run = (\<lambda>f. case run of None \<Rightarrow> [] | Some r \<Rightarrow> option_list (f r));
          of_meta = (\<lambda>f. case meta of None \<Rightarrow> [] | Some m \<Rightarrow> option_list (f m))
      in \<lparr>plan_session = k, plan_run = map_option run_id run, plan_targets = plan_targets_of k s,
          plan_files = deduplicate_preserving_order (of_run journal_path @ of_run audio_path @ of_meta meta_path @
            map chunk_path (filter (\<lambda>c. chunk_session c = k) (chunks s))),
          plan_keys = deduplicate_preserving_order ((lit ''zutalk.audio.'' @ k) # of_run audio_key @ of_run context_key @
            of_meta meta_key),
          plan_names = [k @ lit ''.capture-journal.enc''],
          plan_prefixes = [k @ lit ''.chunk.'', lit ''.'' @ k @ lit ''.chunk.''],
          plan_dirs = [lit ''audio/'' @ k],
          plan_utterances = length (filter (\<lambda>u. u = k) (utterance_rows s))\<rparr>)"

definition find_job :: "ustring \<Rightarrow> capture_store \<Rightarrow> purge_job option" where
  "find_job k s = find (\<lambda>j. job_session j = k) (purge_jobs s)"

definition begin_session_purge_with_extras :: "ustring \<Rightarrow> ustring list \<Rightarrow> ustring list \<Rightarrow> purge_job cs" where
  "begin_session_purge_with_extras k extra_files extra_keys =
     sm_then (sm_lift (require_nonempty k))
     (sm_then (sm_check (list_all (\<lambda>v. trim v \<noteq> []) (extra_files @ extra_keys)) CaptureInvalid)
     (in_tx (sm_bind (sm_gets (find_job k)) (\<lambda>existing. case existing of
          Some j \<Rightarrow> sm_return j
        | None \<Rightarrow>
            sm_bind (sm_gets (find_session k)) (\<lambda>run.
            sm_then (sm_check (\<not> option_ok (\<lambda>r. is_active (run_capture r)) run) CaptureConflict)
            (sm_bind (sm_gets (build_session_purge_plan k)) (\<lambda>plan.
             let job = \<lparr>job_session = k,
                        job_plan = plan\<lparr>plan_files := deduplicate_preserving_order (plan_files plan @ extra_files),
                                        plan_keys := deduplicate_preserving_order (plan_keys plan @ extra_keys)\<rparr>,
                        job_phase = lit ''prepared'', job_error = None\<rparr>
             in sm_then (sm_modify (\<lambda>s. s\<lparr>purge_jobs := purge_jobs s @ [job]\<rparr>))
                (sm_bind (sm_gets (find_job k)) (sm_some CaptureNotFound)))))))))"

definition begin_session_purge :: "ustring \<Rightarrow> purge_job cs" where
  "begin_session_purge k = begin_session_purge_with_extras k [] []"

definition update_session_purge_job :: "ustring \<Rightarrow> ustring \<Rightarrow> ustring option \<Rightarrow> purge_job cs" where
  "update_session_purge_job k phase error =
     sm_then (sm_lift (require_nonempty k)) (sm_then (sm_lift (require_nonempty phase))
     (sm_then (sm_check (utf8_length phase \<le> 64) CaptureInvalid)
     (sm_then (\<lambda>s. if find_job k s = None then (Inl CaptureNotFound, s)
          else (Inr (), s\<lparr>purge_jobs := map_where (\<lambda>j. job_session j = k)
                 (\<lambda>j. j\<lparr>job_phase := phase, job_error := error\<rparr>) (purge_jobs s)\<rparr>))
      (sm_bind (sm_gets (find_job k)) (sm_some CaptureNotFound)))))"

definition complete_session_purge_job :: "ustring \<Rightarrow> bool cs" where
  "complete_session_purge_job k =
     sm_then (sm_lift (require_nonempty k))
     (\<lambda>s. (Inr (find_job k s \<noteq> None), s\<lparr>purge_jobs := filter (\<lambda>j. job_session j \<noteq> k) (purge_jobs s)\<rparr>))"

text \<open>Deleting a run deletes its gaps with it.\<close>

definition purge_session_artifacts :: "ustring \<Rightarrow> purge_plan cs" where
  "purge_session_artifacts k =
     sm_then (sm_lift (require_nonempty k))
     (\<lambda>s. (Inr (build_session_purge_plan k s),
        s\<lparr>utterance_rows := filter (\<lambda>u. u \<noteq> k) (utterance_rows s),
          search_index := filter (\<lambda>(j, _). j \<noteq> k) (search_index s),
          chunks := filter (\<lambda>c. chunk_session c \<noteq> k) (chunks s),
          metas := filter (\<lambda>m. meta_session m \<noteq> k) (metas s),
          projections := filter (\<lambda>p. projection_session p \<noteq> k) (projections s),
          memberships := filter (\<lambda>(n, j). j \<noteq> k) (memberships s),
          session_rows := filter (\<lambda>j. j \<noteq> k) (session_rows s),
          runs := filter (\<lambda>r. run_session r \<noteq> k) (runs s),
          gaps := filter (\<lambda>g. gap_session g \<noteq> k) (gaps s)\<rparr>))"

end
