(* ===== verification/Capture_Laws.thy ===== *)
theory Capture_Laws
  imports Capture_Async
begin

text \<open>
  What holds of a capture store through every operation. An operation either updates rows, and then
  every row goes forward (\<open>row_le\<close>), or it creates a row, opens or closes the deletion of a session,
  or deletes the rows of one. The database's constraints do much of the work: an update that would
  break them fails.
\<close>

section \<open>Relations that the combinators keep\<close>

text \<open>A reflexive and transitive relation on stores is kept by everything that does not update. One that
  only looks at the rows is kept by an update if the row function keeps it; one that does not look at
  the rows is kept by every update.\<close>

locale store_preorder = state_preorder R for R :: "capture_store \<Rightarrow> capture_store \<Rightarrow> bool"
begin

lemma keeps_check: "keeps R (sm_check b e)"
  by (simp add: sm_check_def keeps_return keeps_throw)

lemma keeps_guard: "(b \<Longrightarrow> keeps R m) \<Longrightarrow> keeps R (sm_then (sm_check b e) m)"
  by (cases b) (simp_all add: sm_check_def keeps_then keeps_return, simp add: keeps_def sm_defs refl)

lemma keeps_lift: "keeps R (sm_lift x)"
  by (simp add: sm_lift_def keeps_return keeps_throw split: sum.split)

lemma keeps_some: "keeps R (sm_some e x)"
  by (simp add: sm_some_def keeps_return keeps_throw split: option.split)

lemma keeps_require: "keeps R (require_run i)" "keeps R (require_session k)"
  by (simp_all add: require_run_def require_session_def keeps_bind keeps_gets keeps_some)

lemma keeps_not_purging: "keeps R (not_purging k)"
  by (simp add: not_purging_def keeps_bind keeps_gets keeps_check)

lemma keeps_tx: "keeps R m \<Longrightarrow> keeps R (in_tx m)"
  unfolding keeps_def in_tx_def by (auto simp: refl split: prod.splits sum.splits) (metis snd_conv)

lemma keeps_update_or: "keeps R (execute_runs p f) \<Longrightarrow> keeps R (update_or e p f)"
  unfolding update_or_def by (intro keeps_bind keeps_check)

lemmas store_intros = keeps_guard keeps_intros keeps_tx keeps_check keeps_lift keeps_some keeps_require
  keeps_not_purging keeps_update_or

end

locale runs_free = store_preorder +
  assumes rows_free: "R s (s\<lparr>runs := rows\<rparr>)"
begin

lemma keeps_execute: "keeps R (execute_runs p f)"
  by (simp add: keeps_def execute_runs_def Let_def refl rows_free)

lemmas free_intros = store_intros keeps_execute

end

definition rows_rel :: "(run \<Rightarrow> run \<Rightarrow> bool) \<Rightarrow> capture_store \<Rightarrow> capture_store \<Rightarrow> bool" where
  "rows_rel Q s t \<longleftrightarrow> purge_jobs t = purge_jobs s \<and>
     (list_all row_check (runs s) \<longrightarrow> list_all row_check (runs t) \<and> list_all2 Q (runs s) (runs t))"

locale row_relation =
  fixes Q :: "run \<Rightarrow> run \<Rightarrow> bool"
  assumes row_refl: "Q r r"
    and row_trans: "Q r r' \<Longrightarrow> Q r' r'' \<Longrightarrow> Q r r''"
begin

lemma rows_trans: "list_all2 Q a b \<Longrightarrow> list_all2 Q b c \<Longrightarrow> list_all2 Q a c"
  by (rule list_all2_trans [of Q Q Q]) (auto intro: row_trans)

lemma rows_same: "runs (f s) = runs s \<Longrightarrow> purge_jobs (f s) = purge_jobs s \<Longrightarrow> rows_rel Q s (f s)"
  by (simp add: rows_rel_def list_all2_refl row_refl)

lemma keeps_rows:
  assumes "\<And>r. p r \<Longrightarrow> row_check r \<Longrightarrow> row_check (f r) \<Longrightarrow> row_update_ok r (f r) \<Longrightarrow> Q r (f r)"
  shows "keeps (rows_rel Q) (execute_runs p f)"
  unfolding keeps_def
proof
  fix s
  have "list_all row_check rows \<longrightarrow> list_all row_check (map_where p f rows) \<and> list_all2 Q rows (map_where p f rows)"
    if "list_all (\<lambda>r. p r \<longrightarrow> row_check (f r) \<and> row_update_ok r (f r)) rows" for rows
    using that assms by (induction rows) (auto simp: map_where_def row_refl)
  then show "rows_rel Q s (snd (execute_runs p f s))"
    by (auto simp: execute_runs_def rows_rel_def Let_def list_all2_refl row_refl)
qed

end

sublocale row_relation \<subseteq> rows: store_preorder "rows_rel Q"
  by unfold_locales (auto simp: rows_rel_def list_all2_refl row_refl intro: rows_trans)

context row_relation begin

lemmas row_intros = rows.store_intros keeps_rows rows_same

end

section \<open>Rows only go forward\<close>

fun async_rank :: "async_task_state \<Rightarrow> nat" where
  "async_rank AsyncNone = 0"
| "async_rank AsyncPending = 1"
| "async_rank AsyncReserved = 2"
| "async_rank AsyncEnqueued = 3"
| "async_rank AsyncCompleted = 4"
| "async_rank AsyncFailed = 4"

definition async_le :: "async_task_state \<Rightarrow> async_task_state \<Rightarrow> bool" where
  "async_le a b \<longleftrightarrow> a = b \<or> async_rank a < async_rank b"

lemma async_le_refl [simp]: "async_le a a"
  by (simp add: async_le_def)

lemma async_le_trans: "async_le a b \<Longrightarrow> async_le b c \<Longrightarrow> async_le a c"
  by (auto simp: async_le_def)

lemma async_transition_le: "async_transition a b \<Longrightarrow> async_le a b"
  by (auto simp: async_transition_def async_le_def)

lemma settled_le: "task_settled a \<Longrightarrow> async_le a b \<Longrightarrow> task_settled b"
  by (cases a; cases b) (auto simp: task_settled_def async_le_def)

text \<open>While a capture is active nothing of its later transcription exists.\<close>

definition row_inv :: "run \<Rightarrow> bool" where
  "row_inv r \<longleftrightarrow> (is_active (run_capture r) \<longrightarrow> run_async r = AsyncNone \<and> post_stop_provider r = None)"

definition same_identity :: "run \<Rightarrow> run \<Rightarrow> bool" where
  "same_identity r r' \<longleftrightarrow> run_id r' = run_id r \<and> run_session r' = run_session r \<and> run_notebook r' = run_notebook r \<and>
     run_profile r' = run_profile r \<and> run_profile_revision r' = run_profile_revision r"

definition same_past :: "run \<Rightarrow> run \<Rightarrow> bool" where
  "same_past r r' \<longleftrightarrow>
     (\<not> is_active (run_capture r) \<longrightarrow> run_capture r' = run_capture r) \<and>
     (async_authorized r \<noteq> None \<longrightarrow> async_authorized r' = async_authorized r \<and> async_hint r' = async_hint r) \<and>
     (task_settled (run_async r) \<longrightarrow> async_task r' = async_task r \<and> async_payload r' = async_payload r) \<and>
     (output_sha r \<noteq> None \<longrightarrow> output_sha r' = output_sha r \<and> result_json r' = result_json r \<and>
        provider_completed r' = provider_completed r) \<and>
     (realtime_provider r \<noteq> None \<longrightarrow> realtime_provider r' = realtime_provider r \<and> realtime_model r' = realtime_model r) \<and>
     (post_stop_provider r \<noteq> None \<longrightarrow> post_stop_provider r' = post_stop_provider r \<and> post_stop_model r' = post_stop_model r) \<and>
     (output_sha r \<noteq> None \<and> search_state r = SearchReady \<longrightarrow> search_state r' = SearchReady)"

definition row_le :: "run \<Rightarrow> run \<Rightarrow> bool" where
  "row_le r r' \<longleftrightarrow> same_identity r r' \<and> same_past r r' \<and> (row_inv r \<longrightarrow> row_inv r') \<and>
     (is_active (run_capture r') \<longrightarrow> is_active (run_capture r)) \<and> async_le (run_async r) (run_async r') \<and>
     run_frames r \<le> run_frames r'"

lemma row_le_refl [simp]: "row_le r r"
  by (simp add: row_le_def same_identity_def same_past_def)

lemma same_past_trans:
  assumes "same_past a b" and "same_past b c" and "async_le (run_async a) (run_async b)"
  shows "same_past a c"
  using assms(1,2) settled_le [OF _ assms(3)] unfolding same_past_def by (elim conjE, intro conjI impI) simp_all

lemma row_le_trans: "row_le a b \<Longrightarrow> row_le b c \<Longrightarrow> row_le a c"
  unfolding row_le_def
  by (elim conjE, intro conjI) (simp_all add: same_identity_def same_past_trans async_le_trans)

interpretation forward: row_relation row_le
  by unfold_locales (auto intro: row_le_trans)

abbreviation forward :: "capture_store \<Rightarrow> capture_store \<Rightarrow> bool" where
  "forward \<equiv> rows_rel row_le"

lemmas forward_intros = forward.row_intros

text \<open>What the triggers leave to show of an update.\<close>

lemma row_leI:
  assumes "row_check r'" and "row_update_ok r r'" and "same_identity r r'" and "row_inv r \<Longrightarrow> row_inv r'"
    and "is_active (run_capture r') \<Longrightarrow> is_active (run_capture r)"
    and "\<not> is_active (run_capture r) \<Longrightarrow> run_capture r' = run_capture r"
    and "output_sha r \<noteq> None \<Longrightarrow> search_state r = SearchReady \<Longrightarrow> search_state r' = SearchReady" and "run_frames r \<le> run_frames r'"
  shows "row_le r r'"
  using assms async_transition_le by (auto simp: row_le_def same_past_def row_update_ok_def)

lemmas row_rules = same_identity_def row_inv_def is_active_def is_terminal_def allows_post_stop_async_def

section \<open>Updates go forward\<close>

lemma transition_target:
  "valid_capture_transition a b \<Longrightarrow> is_active a \<and> (is_active b \<or> b \<in> {CaptureCompleted, Interrupted, CaptureFailed})"
  by (cases a) (auto simp: is_active_def)

lemma transition_forward: "keeps forward (transition_capture now i expected to)"
  unfolding transition_capture_def
  by (intro forward_intros row_leI) (auto simp: same_identity_def row_inv_def dest!: transition_target)

lemma interrupt_forward: "keeps forward (interrupt_capture now i expected failure)"
  unfolding interrupt_capture_def
  by (intro forward_intros row_leI) (auto simp: row_rules)

lemma interrupt_local_forward: "keeps forward (interrupt_local_persistence now i expected failure)"
  unfolding interrupt_local_persistence_def drop_pending_intent_def
  by (intro forward_intros row_leI) (auto simp: same_identity_def row_inv_def is_active_def split: if_splits)

lemma health_forward: "keeps forward (update_remote_health i health failure)"
  unfolding update_remote_health_def
  by (auto intro!: forward_intros row_leI simp: same_identity_def row_inv_def split: option.splits if_splits)

lemma audio_forward:
  "keeps forward (update_audio_progress i frames)" "keeps forward (finalize_audio_when c i path frames)"
  "keeps forward (clear_retained_audio_references k)"
  unfolding update_audio_progress_def finalize_audio_when_def clear_retained_audio_references_def
  by (auto intro!: forward_intros row_leI simp: same_identity_def row_inv_def)

lemma recovery_forward: "keeps forward (recover_unfinished_runs now)"
  unfolding recover_unfinished_runs_def
  by (intro forward_intros row_leI)
    (auto simp: recovered_projection_def recovered_capture_def drop_pending_intent_def same_identity_def row_inv_def is_active_def
      split: if_splits)

lemma detached_forward: "keeps forward (recover_detached_unfinished_run now i)"
  unfolding recover_detached_unfinished_run_def
  by (intro forward_intros row_leI)
    (auto simp: recovered_projection_def recovered_capture_def same_identity_def row_inv_def is_active_def)

lemma projection_forward:
  "keeps forward (set_projection_state i expected next_state)" "keeps forward (complete_projection_unless_purging i)"
  "keeps forward (set_async_projection_state i a b)" "keeps forward (complete_async_projection_unless_purging i)"
  unfolding set_projection_state_def complete_projection_unless_purging_def set_async_projection_state_def
    complete_async_projection_unless_purging_def
  by (auto intro!: forward_intros row_leI forward.rows_same simp: same_identity_def row_inv_def)

lemma gap_forward: "keeps forward (preserve_network_transcript_gap fresh k a b)"
  unfolding preserve_network_transcript_gap_def
  by (intro forward_intros) (auto simp: keeps_def rows_rel_def list_all2_refl Let_def split: option.splits)

lemma claim_forward: "keeps forward (claim_provider_provenance k role provider model)"
proof -
  have "row_le r (set_claim role provider model r)"
    if "claim_eligible role r" "row_check (set_claim role provider model r)" "row_update_ok r (set_claim role provider model r)" for r
    using that by (cases role) (auto intro!: row_leI simp: set_claim_def claim_eligible_def row_rules)
  then show ?thesis
    unfolding claim_provider_provenance_def
    by (auto intro!: forward_intros split: prod.split option.split)
qed

lemma authorize_forward: "keeps forward (authorize_async_transcription k at_ms hint)"
  unfolding authorize_async_transcription_def
  by (auto intro!: forward_intros row_leI simp: unauthorized_def row_rules split: option.split)

lemma task_forward:
  "keeps forward (reserve_async_task i tid payload)" "keeps forward (mark_async_task_enqueued i tid)"
  unfolding reserve_async_task_def mark_async_task_enqueued_def
  by (auto intro!: forward_intros row_leI simp: row_rules)

lemma terminal_forward: "keeps forward (mark_async_task_terminal_for_session k tid success)"
  unfolding mark_async_task_terminal_for_session_def Let_def
  by (auto intro!: forward_intros row_leI simp: exact_task_def row_rules split: if_splits)

lemma receipt_of_forward: "keeps forward (receipt_of c k)"
  unfolding receipt_of_def by (auto intro!: forward_intros split: prod.split option.split)

lemma store_tokens_forward: "keeps forward (store_tokens k json)"
  by (auto simp: keeps_def store_tokens_def rows_rel_def list_all2_refl)

lemma commit_forward: "keeps forward (commit_async_provider_success c now k tid tokens json)"
  unfolding commit_async_provider_success_def Let_def
  by (auto intro!: forward_intros receipt_of_forward store_tokens_forward row_leI
      simp: row_rules row_check_def output_ok_def split: option.split prod.split)

lemma search_forward:
  "keeps forward (replace_session_from_async_receipt k tid sha txt)"
  "keeps forward (replace_session_from_realtime_unless_async_ready k txt)"
  "keeps forward (fail_corrupt_async_search_projection k t)"
  "keeps forward (mark_async_search_projection c k tid success)"
  unfolding replace_session_from_async_receipt_def replace_session_from_realtime_unless_async_ready_def
    fail_corrupt_async_search_projection_def mark_async_search_projection_def replace_session_def
  by (auto intro!: forward_intros receipt_of_forward row_leI forward.rows_same simp: row_rules split: option.split prod.split)

lemma artifact_forward:
  "keeps forward (open_provider_remote_artifact_claim tid k reference)"
  "keeps forward (record_provider_remote tid x g)" "keeps forward (close_provider_remote_artifact_claim tid)"
  unfolding open_provider_remote_artifact_claim_def record_provider_remote_def close_provider_remote_artifact_claim_def
  by (auto intro!: forward_intros forward.rows_same) (auto simp: keeps_def rows_rel_def list_all2_refl)

lemma profile_forward:
  "keeps forward (get_or_create_profile now n)" "keeps forward (update_profile now n revision u)"
proof -
  show "keeps forward (get_or_create_profile now n)"
    unfolding get_or_create_profile_def by (auto intro!: forward_intros forward.rows_same)
  have "forward s (snd (sm_bind (sm_gets (find_profile n)) (sm_some CaptureNotFound) (s\<lparr>profiles := ps\<rparr>)))" for s ps
    by (simp add: sm_defs rows_rel_def list_all2_refl split: option.split)
  then have "keeps forward (\<lambda>s. let hit = (\<lambda>p. profile_notebook p = n \<and> profile_revision p = revision)
          in if list_all (\<lambda>p. hit p \<longrightarrow> profile_check (apply_profile_update now u p)) (profiles s)
             then (if filter hit (profiles s) = [] then (Inl CaptureConflict, s)
                   else let s' = s\<lparr>profiles := map_where hit (apply_profile_update now u) (profiles s)\<rparr>
                        in sm_bind (sm_gets (find_profile n)) (sm_some CaptureNotFound) s')
             else (Inl SqliteError, s))"
    by (simp add: keeps_def Let_def forward.rows.refl)
  then show "keeps forward (update_profile now n revision u)"
    unfolding update_profile_def by (intro forward_intros)
qed

end
