(* ===== verification/Capture_Reach.thy ===== *)
theory Capture_Reach
  imports Capture_Laws
begin

text \<open>
  The capture store as a state machine: one constructor for every call that changes it, the stores
  that any sequence of calls reaches, what holds in all of them, and how far back a recording's past
  can be changed (it cannot).
\<close>

section \<open>Calls\<close>

datatype 'tok capture_op =
    GetProfile ustring ustring | UpdateProfile ustring ustring nat profile
  | CreateRun new_run_input profile
  | CreateSession "ustring \<Rightarrow> ustring" session_record new_run_input profile
  | ImportRun ustring new_import_input profile
  | Transition ustring ustring capture_state capture_state
  | Interrupt ustring ustring capture_state provider_failure
  | InterruptLocal ustring ustring capture_state provider_failure
  | Health ustring remote_health "provider_failure option"
  | AudioProgress ustring nat | FinalizeAudio ustring ustring nat | FinalizeInterrupted ustring ustring nat
  | ClearAudio ustring
  | Recover ustring | RecoverDetached ustring ustring
  | SetProjection ustring projection_state projection_state | CompleteProjection ustring
  | SaveGap ustring ustring nat nat
  | Claim ustring provider_role ustring ustring
  | Authorize ustring int "ustring option"
  | Reserve ustring ustring ustring | MarkEnqueued ustring ustring | MarkTerminal ustring ustring bool
  | Commit ustring ustring ustring "'tok list" ustring
  | IndexAsync ustring ustring ustring ustring | IndexRealtime ustring ustring
  | FailSearch ustring "ustring option" | MarkSearch ustring ustring bool
  | SetAsyncProjection ustring async_projection_state async_projection_state | CompleteAsyncProjection ustring
  | OpenArtifact ustring ustring ustring | RecordFile ustring ustring | RecordTranscription ustring ustring
  | CloseArtifact ustring
  | BeginPurge ustring "ustring list" "ustring list" | UpdatePurge ustring ustring "ustring option"
  | CompletePurge ustring | DeleteSession ustring

fun perform :: "'tok codec \<Rightarrow> 'tok capture_op \<Rightarrow> capture_store \<Rightarrow> capture_store" where
  "perform c (GetProfile now n) s = snd (get_or_create_profile now n s)"
| "perform c (UpdateProfile now n revision u) s = snd (update_profile now n revision u s)"
| "perform c (CreateRun i p) s = snd (create_run i p s)"
| "perform c (CreateSession new_ids rec i p) s = snd (create_session_and_run new_ids rec i p s)"
| "perform c (ImportRun now i p) s = snd (create_completed_import_run now i p s)"
| "perform c (Transition now i a b) s = snd (transition_capture now i a b s)"
| "perform c (Interrupt now i a f) s = snd (interrupt_capture now i a f s)"
| "perform c (InterruptLocal now i a f) s = snd (interrupt_local_persistence now i a f s)"
| "perform c (Health i h f) s = snd (update_remote_health i h f s)"
| "perform c (AudioProgress i n) s = snd (update_audio_progress i n s)"
| "perform c (FinalizeAudio i path n) s = snd (finalize_audio i path n s)"
| "perform c (FinalizeInterrupted i path n) s = snd (finalize_interrupted_audio i path n s)"
| "perform c (ClearAudio k) s = snd (clear_retained_audio_references k s)"
| "perform c (Recover now) s = snd (recover_unfinished_runs now s)"
| "perform c (RecoverDetached now i) s = snd (recover_detached_unfinished_run now i s)"
| "perform c (SetProjection i a b) s = snd (set_projection_state i a b s)"
| "perform c (CompleteProjection i) s = snd (complete_projection_unless_purging i s)"
| "perform c (SaveGap fresh k a b) s = snd (preserve_network_transcript_gap fresh k a b s)"
| "perform c (Claim k role p m) s = snd (claim_provider_provenance k role p m s)"
| "perform c (Authorize k t h) s = snd (authorize_async_transcription k t h s)"
| "perform c (Reserve i tid payload) s = snd (reserve_async_task i tid payload s)"
| "perform c (MarkEnqueued i tid) s = snd (mark_async_task_enqueued i tid s)"
| "perform c (MarkTerminal k tid success) s = snd (mark_async_task_terminal_for_session k tid success s)"
| "perform c (Commit now k tid tokens json) s = snd (commit_async_provider_success c now k tid tokens json s)"
| "perform c (IndexAsync k tid sha txt) s = snd (replace_session_from_async_receipt k tid sha txt s)"
| "perform c (IndexRealtime k txt) s = snd (replace_session_from_realtime_unless_async_ready k txt s)"
| "perform c (FailSearch k tid) s = snd (fail_corrupt_async_search_projection k tid s)"
| "perform c (MarkSearch k tid success) s = snd (mark_async_search_projection c k tid success s)"
| "perform c (SetAsyncProjection i a b) s = snd (set_async_projection_state i a b s)"
| "perform c (CompleteAsyncProjection i) s = snd (complete_async_projection_unless_purging i s)"
| "perform c (OpenArtifact tid k reference) s = snd (open_provider_remote_artifact_claim tid k reference s)"
| "perform c (RecordFile tid f) s = snd (record_provider_remote_file tid f s)"
| "perform c (RecordTranscription tid x) s = snd (record_provider_remote_transcription tid x s)"
| "perform c (CloseArtifact tid) s = snd (close_provider_remote_artifact_claim tid s)"
| "perform c (BeginPurge k fs ks) s = snd (begin_session_purge_with_extras k fs ks s)"
| "perform c (UpdatePurge k phase e) s = snd (update_session_purge_job k phase e s)"
| "perform c (CompletePurge k) s = snd (complete_session_purge_job k s)"
| "perform c (DeleteSession k) s = snd (purge_session_artifacts k s)"

text \<open>A new recording gets a new session id, so none that is being deleted.\<close>

fun new_session_of :: "'tok capture_op \<Rightarrow> ustring option" where
  "new_session_of (CreateRun i p) = Some (new_session i)"
| "new_session_of (CreateSession f rec i p) = Some (new_session i)"
| "new_session_of (ImportRun now i p) = Some (import_session i)"
| "new_session_of _ = None"

fun on_jobs :: "'tok capture_op \<Rightarrow> bool" where
  "on_jobs (BeginPurge k fs ks) = True"
| "on_jobs (UpdatePurge k phase e) = True"
| "on_jobs (CompletePurge k) = True"
| "on_jobs (DeleteSession k) = True"
| "on_jobs _ = False"

inductive capture_path :: "'tok codec \<Rightarrow> capture_store \<Rightarrow> 'tok capture_op list \<Rightarrow> capture_store \<Rightarrow> bool" for c where
  path_nil: "capture_path c s [] s"
| path_cons: "(case new_session_of op of None \<Rightarrow> True | Some k \<Rightarrow> \<not> session_purge_job_exists k s) \<Longrightarrow>
    capture_path c (perform c op s) ops t \<Longrightarrow> capture_path c s (op # ops) t"

section \<open>What each call does to the rows\<close>

lemma forward_snd: "keeps forward m \<Longrightarrow> forward s (snd (m s))"
  by (simp add: keeps_def)

lemmas all_forward =
  profile_forward [THEN forward_snd]
  transition_forward [THEN forward_snd]
  interrupt_forward [THEN forward_snd]
  interrupt_local_forward [THEN forward_snd]
  health_forward [THEN forward_snd]
  audio_forward [THEN forward_snd]
  recovery_forward [THEN forward_snd]
  detached_forward [THEN forward_snd]
  projection_forward [THEN forward_snd]
  gap_forward [THEN forward_snd]
  claim_forward [THEN forward_snd]
  authorize_forward [THEN forward_snd]
  task_forward [THEN forward_snd]
  terminal_forward [THEN forward_snd]
  commit_forward [THEN forward_snd]
  search_forward [THEN forward_snd]
  artifact_forward [THEN forward_snd]

lemma perform_forward:
  assumes "new_session_of op = None" and "\<not> on_jobs op"
  shows "forward s (perform c op s)"
  using assms
  by (cases op) (simp_all add: finalize_audio_def finalize_interrupted_audio_def record_provider_remote_file_def
      record_provider_remote_transcription_def all_forward)

text \<open>A call that makes a run appends one row, or leaves the rows alone.\<close>

definition adds_run :: "ustring \<Rightarrow> capture_store \<Rightarrow> capture_store \<Rightarrow> bool" where
  "adds_run k s t \<longleftrightarrow> purge_jobs t = purge_jobs s \<and>
     (runs t = runs s \<or>
      (\<exists>r. runs t = runs s @ [r] \<and> run_session r = k \<and> row_check r \<and> row_inv r \<and>
         run_id r \<notin> set (map run_id (runs s)) \<and> k \<notin> set (map run_session (runs s)) \<and>
         length (active_rows (runs t)) \<le> 1))"

lemma adds_run_refl [simp]: "adds_run k s s"
  by (simp add: adds_run_def)

lemma insert_authorized_adds:
  assumes "row_inv r" and "run_session r = k"
  shows "adds_run k s (snd (insert_authorized snapshot r s))"
  using assms
  by (auto simp: insert_authorized_def insert_run_def sm_defs adds_run_def find_run_def find_session_def find_key_None)

lemma in_tx_adds: "adds_run k s (snd (m s)) \<Longrightarrow> adds_run k s (snd (in_tx m s))"
  by (auto simp: in_tx_def split: prod.split sum.split)

lemma require_state [simp]: "snd (require_run i s) = s" "snd (require_session k s) = s"
  by (simp_all add: require_run_def require_session_def sm_defs split: option.split)

lemma then_state: "snd (sm_then m n s) = (case m s of (Inl e, t) \<Rightarrow> t | (Inr a, t) \<Rightarrow> snd (n t))"
  by (simp add: sm_defs split: prod.split sum.split)

lemma lift_then_state: "snd (sm_then (sm_lift x) m s) = (case x of Inl e \<Rightarrow> s | Inr a \<Rightarrow> snd (m s))"
  by (simp add: sm_defs split: sum.split)

lemma check_then_state: "snd (sm_then (sm_check b e) m s) = (if b then snd (m s) else s)"
  by (simp add: sm_defs)

lemma then_require_state: "snd (sm_then m (require_run i) s) = snd (m s)"
  by (simp add: then_state split: prod.split sum.split)

lemma membership_adds: "adds_run k s t \<Longrightarrow> adds_run k s (snd (attach_new_capture_membership fresh n j t))"
  by (auto simp: attach_new_capture_membership_def sm_defs adds_run_def)

lemma create_adds:
  "adds_run (new_session i) s (snd (create_run i p s))"
  "adds_run (new_session i) s (snd (create_session_and_run fresh rec i p s))"
  "adds_run (import_session j) s (snd (create_completed_import_run now j p s))"
proof -
  have rec_run: "row_inv (recording_run i p)" "run_session (recording_run i p) = new_session i"
    and imp: "row_inv (imported_run now j p)" "run_session (imported_run now j p) = import_session j"
    by (simp_all add: recording_run_def imported_run_def blank_run_def row_inv_def is_active_def)
  have admit: "admit_run i p s = (r, t) \<Longrightarrow> t = s" for r t
    by (auto simp: admit_run_def sm_defs split: sum.splits if_splits)
  show "adds_run (new_session i) s (snd (create_run i p s))"
    unfolding create_run_def then_state [of "admit_run i p"] then_require_state
    using admit by (auto split: prod.split sum.split intro!: in_tx_adds insert_authorized_adds rec_run)
  have "adds_run (new_session i) s (snd (sm_then (insert_session_rows (session_id rec))
         (sm_then (insert_authorized p (recording_run i p))
            (attach_new_capture_membership fresh (new_notebook i) (new_session i))) s))"
  proof -
    have "adds_run (new_session i) s (snd (insert_authorized p (recording_run i p)
        (s\<lparr>session_rows := xs, metas := ms\<rparr>)))" for xs ms
      using insert_authorized_adds [OF rec_run, of "s\<lparr>session_rows := xs, metas := ms\<rparr>" p] by (simp add: adds_run_def)
    then show ?thesis
      by (auto simp: then_state insert_session_rows_def split: prod.split sum.split) (metis membership_adds snd_conv)+
  qed
  then show "adds_run (new_session i) s (snd (create_session_and_run fresh rec i p s))"
    unfolding create_session_and_run_def by (auto simp: lift_then_state check_then_state then_require_state split: sum.split intro!: in_tx_adds)
  show "adds_run (import_session j) s (snd (create_completed_import_run now j p s))"
    unfolding create_completed_import_run_def
    by (auto simp: lift_then_state check_then_state then_require_state split: sum.split
        intro!: in_tx_adds insert_authorized_adds imp)
qed

lemma perform_adds: "new_session_of op = Some k \<Longrightarrow> adds_run k s (perform c op s)"
  by (cases op) (auto simp: create_adds)

section \<open>Reachable stores\<close>

definition store_ok :: "capture_store \<Rightarrow> bool" where
  "store_ok s \<longleftrightarrow> list_all row_check (runs s) \<and> list_all row_inv (runs s) \<and>
     distinct (map run_id (runs s)) \<and> distinct (map run_session (runs s)) \<and>
     length (active_rows (runs s)) \<le> 1 \<and>
     list_all (\<lambda>r. session_purge_job_exists (run_session r) s \<longrightarrow> \<not> is_active (run_capture r)) (runs s)"

lemma session_row: "store_ok s \<Longrightarrow> r \<in> set (runs s) \<Longrightarrow> find_session (run_session r) s = Some r"
  by (simp add: store_ok_def find_session_def find_key)

lemma job_exists_iff: "session_purge_job_exists k s \<longleftrightarrow> k \<in> job_session ` set (purge_jobs s)"
  by (auto simp: session_purge_job_exists_def find_None_iff)

lemma job_exists_cong: "purge_jobs t = purge_jobs s \<Longrightarrow> session_purge_job_exists k t = session_purge_job_exists k s"
  by (simp add: session_purge_job_exists_def)

lemma row_le_parts:
  assumes "list_all2 row_le rows rows'"
  shows "map run_id rows' = map run_id rows" "map run_session rows' = map run_session rows"
    "length (active_rows rows') \<le> length (active_rows rows)"
    "list_all row_inv rows \<Longrightarrow> list_all row_inv rows'"
    "list_all (\<lambda>r. P (run_session r) \<longrightarrow> \<not> is_active (run_capture r)) rows \<Longrightarrow>
     list_all (\<lambda>r. P (run_session r) \<longrightarrow> \<not> is_active (run_capture r)) rows'"
  using assms
  by (induction rule: list_all2_induct) (auto simp: row_le_def same_identity_def active_rows_def)

lemma forward_ok: "store_ok s \<Longrightarrow> forward s t \<Longrightarrow> store_ok t"
  using row_le_parts [of "runs s" "runs t"] row_le_parts(5) [of "runs s" "runs t" "\<lambda>k. session_purge_job_exists k s"]
  by (simp add: store_ok_def rows_rel_def job_exists_cong [of t s])

lemma adds_ok: "store_ok s \<Longrightarrow> adds_run k s t \<Longrightarrow> \<not> session_purge_job_exists k s \<Longrightarrow> store_ok t"
  by (auto simp: store_ok_def adds_run_def job_exists_cong [of t s])

lemma fewer_jobs_ok:
  assumes "store_ok s" and "set (runs t) \<subseteq> set (runs s)" "distinct (map run_id (runs t))" "distinct (map run_session (runs t))"
    and "length (active_rows (runs t)) \<le> 1"
    and "\<And>k. session_purge_job_exists k t \<Longrightarrow> session_purge_job_exists k s"
  shows "store_ok t"
  using assms by (auto simp: store_ok_def list_all_iff)

lemma jobs_ok:
  assumes "store_ok s" and "on_jobs op"
  shows "store_ok (perform c op s)"
proof (cases op)
  case (BeginPurge k fs ks)
  have "store_ok t" if "runs t = runs s" "purge_jobs t = purge_jobs s \<or> (\<exists>j. purge_jobs t = purge_jobs s @ [j] \<and> job_session j = k \<and>
      \<not> option_ok (\<lambda>r. is_active (run_capture r)) (find_session k s))" for t
  proof -
    have "run_session r \<noteq> k" if "purge_jobs t \<noteq> purge_jobs s" "r \<in> set (runs s)" "is_active (run_capture r)" for r
      using session_row [OF assms(1) that(2)] that \<open>purge_jobs t = _ \<or> _\<close> by (auto simp: option_ok_def)
    then show ?thesis
      using that assms(1) by (auto simp: store_ok_def list_all_iff job_exists_iff)
  qed
  moreover have "runs (perform c op s) = runs s \<and> (purge_jobs (perform c op s) = purge_jobs s \<or>
      (\<exists>j. purge_jobs (perform c op s) = purge_jobs s @ [j] \<and> job_session j = k \<and>
      \<not> option_ok (\<lambda>r. is_active (run_capture r)) (find_session k s)))"
    unfolding BeginPurge perform.simps begin_session_purge_with_extras_def
    by (auto simp: lift_then_state check_then_state in_tx_def sm_defs Let_def split: sum.split option.splits if_splits prod.splits)
  ultimately show ?thesis by blast
next
  case (UpdatePurge k phase e)
  have jobs: "job_session ` set (map_where (\<lambda>j. job_session j = k) (\<lambda>j. j\<lparr>job_phase := phase, job_error := e\<rparr>) js) = job_session ` set js" for js
    by (induction js) (simp_all add: map_where_def)
  show ?thesis
    by (rule fewer_jobs_ok [OF assms(1)], insert assms(1),
      auto simp: UpdatePurge update_session_purge_job_def lift_then_state check_then_state then_state store_ok_def
        job_exists_iff jobs sm_defs find_job_def split: sum.splits option.splits if_splits prod.splits)
next
  case (CompletePurge k)
  let ?t = "perform c op s"
  have "runs ?t = runs s" and "set (purge_jobs ?t) \<subseteq> set (purge_jobs s)"
    by (auto simp: CompletePurge complete_session_purge_job_def lift_then_state split: sum.splits)
  then show ?thesis
    using assms(1) by (intro fewer_jobs_ok [OF assms(1)]) (auto simp: store_ok_def job_exists_iff)
next
  case (DeleteSession k)
  let ?t = "perform c op s"
  have "runs ?t = runs s \<or> runs ?t = filter (\<lambda>r. run_session r \<noteq> k) (runs s)" and "purge_jobs ?t = purge_jobs s"
    by (auto simp: DeleteSession purge_session_artifacts_def lift_then_state split: sum.splits)
  moreover have "length (active_rows (filter p rows)) \<le> length (active_rows rows)" for p rows
    by (induction rows) (auto simp: active_rows_def)
  then have "length (active_rows (filter (\<lambda>r. run_session r \<noteq> k) (runs s))) \<le> 1"
    using assms(1) order_trans unfolding store_ok_def by blast
  ultimately show ?thesis
    using assms(1) by (elim disjE; intro fewer_jobs_ok [OF assms(1)])
      (simp_all add: store_ok_def distinct_map_filter job_exists_cong [of ?t s])
qed (use assms in simp_all)

lemma perform_ok:
  assumes "store_ok s" and "case new_session_of op of None \<Rightarrow> True | Some k \<Rightarrow> \<not> session_purge_job_exists k s"
  shows "store_ok (perform c op s)"
proof (cases "new_session_of op")
  case None
  then show ?thesis using assms(1) jobs_ok perform_forward forward_ok by (cases "on_jobs op") blast+
next
  case (Some k)
  then show ?thesis using assms adds_ok [OF assms(1) perform_adds] by simp
qed

lemma path_ok: "capture_path c s ops t \<Longrightarrow> store_ok s \<Longrightarrow> store_ok t"
  by (induction rule: capture_path.induct) (auto intro: perform_ok)

lemma active_rows_find:
  "length (active_rows rows) \<le> 1 \<Longrightarrow>
    active_rows rows = (case find (\<lambda>r. is_active (run_capture r)) rows of None \<Rightarrow> [] | Some r \<Rightarrow> [r])"
  by (induction rows) (auto simp: active_rows_def)

text \<open>C13. However the store is used, it stays well formed: every row meets the constraints, ids and
  sessions are unique, nothing of a later transcription exists while a capture runs, a session that is
  being deleted is not recording, and at most one recording is active, which is the one the program is
  told about.\<close>

theorem reachable_store_ok:
  assumes "capture_path c s ops t" and "runs s = []" and "purge_jobs s = []"
  shows "store_ok t \<and> active_rows (runs t) = (case fst (get_active_run t) of Inr (Some r) \<Rightarrow> [r] | _ \<Rightarrow> [])"
proof -
  have "store_ok s" using assms(2,3) by (simp add: store_ok_def active_rows_def)
  with assms(1) have "store_ok t" by (rule path_ok)
  then show ?thesis
    using active_rows_find [of "runs t"] by (auto simp: store_ok_def get_active_run_def sm_defs split: option.split)
qed

section \<open>A recording's past\<close>

lemma list_all2_mem: "list_all2 R xs ys \<Longrightarrow> x \<in> set xs \<Longrightarrow> \<exists>y \<in> set ys. R x y"
  by (induction rule: list_all2_induct) auto

lemma jobs_rows:
  assumes "on_jobs op" and "r \<in> set (runs s)" and "op \<noteq> DeleteSession (run_session r)"
  shows "r \<in> set (runs (perform c op s))"
proof (cases op)
  case (BeginPurge k fs ks)
  have "runs (perform c op s) = runs s"
    unfolding BeginPurge perform.simps begin_session_purge_with_extras_def
    by (auto simp: lift_then_state check_then_state in_tx_def sm_defs Let_def split: sum.split option.splits if_splits prod.splits)
  with assms show ?thesis by simp
next
  case (UpdatePurge k phase e)
  have "runs (perform c op s) = runs s"
    by (auto simp: UpdatePurge update_session_purge_job_def lift_then_state check_then_state then_state sm_defs
        split: sum.splits option.splits if_splits prod.splits)
  with assms show ?thesis by simp
next
  case (CompletePurge k)
  with assms show ?thesis by (auto simp: complete_session_purge_job_def lift_then_state split: sum.splits)
next
  case (DeleteSession k)
  with assms show ?thesis by (auto simp: purge_session_artifacts_def lift_then_state split: sum.splits)
qed (use assms in simp_all)

lemma perform_row:
  assumes "store_ok s" and "r \<in> set (runs s)" and "op \<noteq> DeleteSession (run_session r)"
  shows "\<exists>r' \<in> set (runs (perform c op s)). row_le r r'"
proof (cases "new_session_of op")
  case None
  show ?thesis
  proof (cases "on_jobs op")
    case True
    with jobs_rows [OF True assms(2,3)] show ?thesis by (intro bexI [of _ r]) simp_all
  next
    case False
    with None perform_forward [of op s c] list_all2_mem [OF _ assms(2)] assms(1) show ?thesis
      by (auto simp: rows_rel_def store_ok_def)
  qed
next
  case (Some k)
  with perform_adds [OF Some, of s c] assms(2) show ?thesis by (intro bexI [of _ r]) (auto simp: adds_run_def)
qed

lemma path_row:
  "capture_path c s ops t \<Longrightarrow> store_ok s \<Longrightarrow> r \<in> set (runs s) \<Longrightarrow> DeleteSession (run_session r) \<notin> set ops \<Longrightarrow>
    \<exists>r' \<in> set (runs t). row_le r r'"
proof (induction arbitrary: r rule: capture_path.induct)
  case (path_nil s)
  then show ?case by (intro bexI [of _ r]) simp_all
next
  case (path_cons op s ops t)
  then obtain r1 where r1: "r1 \<in> set (runs (perform c op s))" "row_le r r1"
    using perform_row [of s r op c] by auto
  then have "run_session r1 = run_session r" by (simp add: row_le_def same_identity_def)
  with path_cons.IH [OF perform_ok r1(1)] path_cons.hyps(1) path_cons.prems r1(2) row_le_trans show ?case by auto
qed


section \<open>Recovery after a restart\<close>

definition put_in_order :: "run \<Rightarrow> run \<Rightarrow> bool" where
  "put_in_order r r' \<longleftrightarrow>
     \<not> needs_recovery r' \<and> (\<not> needs_recovery r \<longrightarrow> r' = r) \<and>
     run_capture r' = (if is_active (run_capture r) then Interrupted else run_capture r) \<and>
     (is_active (run_capture r) \<longrightarrow> run_health r' = HealthOff \<and> run_completed r' \<noteq> None) \<and>
     run_projection r' = (if run_projection r = Projecting then ProjFailed else run_projection r) \<and>
     async_projection r' = (if async_projection r = AProjecting then AProjFailed else async_projection r) \<and>
     run_async r' = run_async r \<and> output_sha r' = output_sha r \<and> run_frames r' = run_frames r \<and>
     journal_path r' = journal_path r \<and> audio_path r' = audio_path r \<and> audio_key r' = audio_key r"

text \<open>C17. Recovery after a restart always succeeds. Afterwards no capture is active and no projection is
  under way; a capture that was active is interrupted and ended, a projection that was under way has
  failed, and a row that was in order is untouched.\<close>

theorem restart_recovers:
  assumes "store_ok s"
  shows "\<exists>t. recover_unfinished_runs now s = (Inr (length (filter needs_recovery (runs s))), t) \<and>
    list_all2 put_in_order (runs s) (runs t) \<and>
    fst (get_active_run t) = Inr None"
proof -
  let ?f = "\<lambda>r. recovered_projection (if is_active (run_capture r) then recovered_capture now (drop_pending_intent r) else r)"
  let ?rows = "map_where needs_recovery ?f (runs s)"
  have fine: "row_check (?f r) \<and> row_update_ok r (?f r)" if "r \<in> set (runs s)" for r
  proof -
    have inv: "row_check r" "row_inv r" using assms that by (auto simp: store_ok_def list_all_iff)
    then have drop: "is_active (run_capture r) \<Longrightarrow> drop_pending_intent r = r" by (simp add: row_inv_def drop_pending_intent_def)
    from inv(1) show ?thesis
      by (cases "is_active (run_capture r)")
        (auto simp: drop recovered_projection_def recovered_capture_def row_check_def async_receipt_ok_def output_ok_def
          row_update_ok_def async_transition_def async_projection_transition_def task_settled_def split: option.splits if_splits)
  qed
  have still: "\<not> is_active (run_capture r)" if "r \<in> set ?rows" for r
    using that by (auto simp: map_where_def recovered_projection_def recovered_capture_def needs_recovery_def is_active_def
        split: if_splits)
  then have "active_rows ?rows = []" by (auto simp: active_rows_def filter_empty_conv)
  with fine have run: "recover_unfinished_runs now s = (Inr (length (filter needs_recovery (runs s))), s\<lparr>runs := ?rows\<rparr>)"
    by (simp add: recover_unfinished_runs_def execute_runs_def list_all_iff)
  moreover have "drop_pending_intent r = r" if "r \<in> set (runs s)" "is_active (run_capture r)" for r
    using assms that by (auto simp: store_ok_def list_all_iff row_inv_def drop_pending_intent_def)
  then have "list_all2 put_in_order (runs s) ?rows"
    unfolding map_where_def list_all2_map2
    by (intro list.rel_refl_strong) (auto simp: put_in_order_def recovered_projection_def recovered_capture_def needs_recovery_def
        is_active_def split: option.splits)
  moreover have "find (\<lambda>r. is_active (run_capture r)) ?rows = None" using still by (auto simp: find_None_iff)
  ultimately show ?thesis by (simp add: get_active_run_def sm_defs)
qed

section \<open>A concrete store\<close>

definition store_with :: "run list \<Rightarrow> purge_job list \<Rightarrow> capture_store" where
  "store_with rows jobs =
     \<lparr>live_notebooks = [lit ''n''], tabs = [], profiles = [default_profile (lit ''n'') (lit ''t'')], runs = rows,
      session_rows = [], metas = [], memberships = [], projections = [], chunks = [], utterance_rows = [], gaps = [],
      remote_claims = [], purge_jobs = jobs, search_index = []\<rparr>"

definition sample_import :: new_import_input where
  "sample_import =
     \<lparr>import_id = lit ''r'', import_notebook = lit ''n'', import_session = lit ''s'', import_path = lit ''a'',
      import_key = lit ''k'', import_sample_rate = 16000, import_channels = 1, import_frames = 9\<rparr>"

definition sample_row :: run where
  "sample_row = imported_run (lit ''t'') sample_import (default_profile (lit ''n'') (lit ''t''))"

definition sample_recording :: run where
  "sample_recording = (blank_run (lit ''r'') (lit ''n'') (lit ''s'') (default_profile (lit ''n'') (lit ''t'')))\<lparr>run_frames := 7\<rparr>"

definition sample_codec :: "nat codec" where
  "sample_codec =
     \<lparr>sha256_hex = (\<lambda>_. replicate 64 0x61), encode_tokens = id, decode_tokens = Some,
      parse_result = (\<lambda>_. Some \<lparr>shape_session = Some (lit ''s''), shape_count = Some 2, has_full_text = True, has_duration = True\<rparr>)\<rparr>"

lemmas sample_simps = store_with_def sample_import_def sample_row_def sample_recording_def imported_run_def blank_run_def
  default_profile_def row_check_def row_inv_def async_receipt_ok_def output_ok_def claim_ok_def is_active_def session_purge_job_exists_def

lemma sample_ok: "store_ok (store_with [sample_row] [])" "store_ok (store_with [sample_recording] [])"
  by (simp_all add: store_ok_def active_rows_def sample_simps)

lemma sample_imported:
  "perform sample_codec (ImportRun (lit ''t'') sample_import (default_profile (lit ''n'') (lit ''t''))) (store_with [] []) =
    store_with [sample_row] []"
proof -
  let ?p = "default_profile (lit ''n'') (lit ''t'')"
  have "profile_ok ?p"
    by (simp add: profile_ok_def default_profile_def MAX_CAPTURE_LANGUAGES_def language_ok_def canonical_language_def
        legacy_capture_language_pair_def capture_mode_for_selection_def privacy_ok_def lit_def Let_def utf8_length_def
        len_utf8_def trim_def is_whitespace_def to_ascii_lowercase_def is_ascii_alphabetic_def)
  then have admitted: "validate_authorized_profile_snapshot (lit ''n'') ?p = Inr ()"
    by (simp add: validate_authorized_profile_snapshot_def validate_profile_update_def)
      (simp add: default_profile_def lit_def trim_def is_whitespace_def)
  have valid: "validate_completed_import_run sample_import = Inr ()" "import_frames sample_import \<le> max_i64"
    by (simp_all add: validate_completed_import_run_def sample_import_def lit_def trim_def is_whitespace_def max_i64_def)
  have "row_check sample_row" "active_rows [sample_row] = []" "profile_revision ?p \<le> max_i64"
    by (simp_all add: sample_simps active_rows_def)
  moreover have "list_ex (same_authorization ?p) (profiles (store_with rows jobs))" for rows jobs
    by (simp add: store_with_def same_authorization_def)
  ultimately have "insert_authorized ?p sample_row (store_with [] []) = (Inr (), store_with [sample_row] [])"
    by (simp add: insert_authorized_def insert_run_def sm_defs find_run_def find_session_def) (simp add: store_with_def)
  then show ?thesis using admitted valid
    by (simp add: create_completed_import_run_def lift_then_state check_then_state then_require_state in_tx_def
        sample_row_def [symmetric]) (simp add: sample_import_def check_then_state then_require_state)
qed

theorem reachable_store_ok_witness:
  "active_rows (runs (perform sample_codec (ImportRun (lit ''t'') sample_import (default_profile (lit ''n'') (lit ''t'')))
     (store_with [] []))) = []"
proof -
  have "capture_path sample_codec (store_with [] []) [ImportRun (lit ''t'') sample_import (default_profile (lit ''n'') (lit ''t''))]
      (store_with [sample_row] [])"
    by (rule path_cons, simp add: session_purge_job_exists_def store_with_def)
      (simp add: sample_imported path_nil del: perform.simps)
  moreover have "runs (store_with [] []) = []" "purge_jobs (store_with [] []) = []" by (simp_all add: store_with_def)
  ultimately have "active_rows (runs (store_with [sample_row] [])) =
      (case fst (get_active_run (store_with [sample_row] [])) of Inr (Some r) \<Rightarrow> [r] | _ \<Rightarrow> [])"
    by (rule reachable_store_ok [THEN conjunct2])
  moreover have "fst (get_active_run (store_with [sample_row] [])) = Inr None"
    by (simp add: get_active_run_def sm_defs sample_simps)
  ultimately show ?thesis by (simp add: sample_imported del: perform.simps)
qed


theorem restart_recovers_witness:
  "\<exists>t. recover_unfinished_runs (lit ''u'') (store_with [sample_recording] []) = (Inr 1, t) \<and>
    map run_capture (runs t) = [Interrupted] \<and> map run_frames (runs t) = [7] \<and> fst (get_active_run t) = Inr None"
  using restart_recovers [OF sample_ok(2), of "lit ''u''"]
  by (auto simp: put_in_order_def needs_recovery_def sample_simps list_all2_Cons1)

end
