(* ===== verification/Capture_Deletion.thy ===== *)
theory Capture_Deletion
  imports Capture_Reach
begin

text \<open>
  The deletion of a session. From the moment its purge job is written nothing that was done for the
  session elsewhere may come back: no task, result, claim, index entry or token list of it changes
  until its rows are deleted. The job's plan names every file and key of the session.
\<close>

section \<open>What an update leaves alone\<close>

text \<open>The columns that record the work of a provider.\<close>

definition remote_part :: "run \<Rightarrow> (async_task_state \<times> int option \<times> ustring option) \<times> (ustring option \<times> ustring option) \<times>
    (ustring option \<times> ustring option \<times> ustring option) \<times> (ustring option \<times> ustring option) \<times>
    ustring option \<times> ustring option" where
  "remote_part r = ((run_async r, async_authorized r, async_hint r), (async_task r, async_payload r),
     (output_sha r, result_json r, provider_completed r), (realtime_provider r, realtime_model r),
     post_stop_provider r, post_stop_model r)"

definition same_remote :: "run \<Rightarrow> run \<Rightarrow> bool" where
  "same_remote r r' \<longleftrightarrow> run_session r' = run_session r \<and> remote_part r' = remote_part r"

interpretation remote: row_relation same_remote
  by unfold_locales (auto simp: same_remote_def)

definition touches :: "(ustring \<Rightarrow> ustring \<Rightarrow> bool) \<Rightarrow> run \<Rightarrow> run \<Rightarrow> bool" where
  "touches p r r' \<longleftrightarrow> run_id r' = run_id r \<and> run_session r' = run_session r \<and>
     (p (run_id r) (run_session r) \<or> r' = r)"

interpretation touching: row_relation "touches p" for p
  by unfold_locales (auto simp: touches_def)

lemma capture_untouched:
  "keeps (rows_rel same_remote) (get_or_create_profile now n)"
  "keeps (rows_rel same_remote) (transition_capture now i a b)"
  "keeps (rows_rel same_remote) (update_remote_health i h failure)"
  "keeps (rows_rel same_remote) (update_audio_progress i frames)"
  "keeps (rows_rel same_remote) (finalize_audio_when st i path frames)"
  "keeps (rows_rel same_remote) (clear_retained_audio_references k)"
  "keeps (rows_rel same_remote) (recover_detached_unfinished_run now i)"
  unfolding get_or_create_profile_def transition_capture_def update_remote_health_def
    update_audio_progress_def finalize_audio_when_def clear_retained_audio_references_def
    recover_detached_unfinished_run_def recovered_projection_def recovered_capture_def
  by (auto intro!: remote.row_intros simp: same_remote_def remote_part_def split: option.split)

lemma projection_untouched:
  "keeps (rows_rel same_remote) (set_projection_state i p q)"
  "keeps (rows_rel same_remote) (complete_projection_unless_purging i)"
  "keeps (rows_rel same_remote) (fail_corrupt_async_search_projection k t)"
  "keeps (rows_rel same_remote) (set_async_projection_state i x y)"
  "keeps (rows_rel same_remote) (complete_async_projection_unless_purging i)"
  unfolding set_projection_state_def complete_projection_unless_purging_def
    fail_corrupt_async_search_projection_def set_async_projection_state_def
    complete_async_projection_unless_purging_def
  by (auto intro!: remote.row_intros simp: same_remote_def remote_part_def split: option.split)

text \<open>A statement that would drop a task intent does not pass the trigger.\<close>

lemma no_intent_dropped:
  assumes "row_check r" and "row_update_ok r r'" and "run_async r' = AsyncNone"
  shows "run_async r = AsyncNone \<and> async_task r = None \<and> async_payload r = None"
  using assms by (auto simp: row_update_ok_def async_transition_def row_check_def async_receipt_ok_def)

lemma drop_pending_kept:
  assumes "row_check r" and "row_update_ok r r'" and "run_async r' = run_async (drop_pending_intent r)"
  shows "drop_pending_intent r = r"
proof -
  have "run_async r \<noteq> AsyncPending"
    using no_intent_dropped [OF assms(1,2)] assms(3) by (auto simp: drop_pending_intent_def)
  then show ?thesis by (simp add: drop_pending_intent_def)
qed

lemma intent_kept:
  "keeps (rows_rel same_remote) (interrupt_capture now i a failure)"
  "keeps (rows_rel same_remote) (interrupt_local_persistence now i a failure)"
  "keeps (rows_rel same_remote) (recover_unfinished_runs now)"
proof -
  show "keeps (rows_rel same_remote) (interrupt_capture now i a failure)"
    unfolding interrupt_capture_def
    by (intro remote.row_intros) (drule (1) no_intent_dropped, auto simp: same_remote_def remote_part_def)
  show "keeps (rows_rel same_remote) (interrupt_local_persistence now i a failure)"
    unfolding interrupt_local_persistence_def
    by (intro remote.row_intros) (drule (1) drop_pending_kept, auto simp: same_remote_def remote_part_def)
  show "keeps (rows_rel same_remote) (recover_unfinished_runs now)"
    unfolding recover_unfinished_runs_def
  proof (intro remote.row_intros)
    fix r
    let ?r = "recovered_projection (if is_active (run_capture r) then recovered_capture now (drop_pending_intent r) else r)"
    assume "row_check r" and "row_update_ok r ?r"
    then have "is_active (run_capture r) \<Longrightarrow> drop_pending_intent r = r"
      using drop_pending_kept [of r ?r] by (simp add: recovered_projection_def recovered_capture_def)
    then show "same_remote r ?r"
      by (simp add: same_remote_def remote_part_def recovered_projection_def recovered_capture_def)
  qed
qed

lemma remote_untouched_too:
  "keeps (rows_rel same_remote) (preserve_network_transcript_gap fresh k a b)"
  "keeps (rows_rel same_remote) (update_profile now n revision u)"
  "keeps (rows_rel same_remote) (open_provider_remote_artifact_claim tid k reference)"
  "keeps (rows_rel same_remote) (record_provider_remote tid x g)"
  "keeps (rows_rel same_remote) (close_provider_remote_artifact_claim tid)"
proof -
  have [simp]: "list_all2 same_remote rows rows" for rows by (simp add: list_all2_refl remote.row_refl)
  show "keeps (rows_rel same_remote) (preserve_network_transcript_gap fresh k a b)"
    "keeps (rows_rel same_remote) (open_provider_remote_artifact_claim tid k reference)"
    "keeps (rows_rel same_remote) (record_provider_remote tid x g)"
    "keeps (rows_rel same_remote) (close_provider_remote_artifact_claim tid)"
    "keeps (rows_rel same_remote) (update_profile now n revision u)"
    unfolding preserve_network_transcript_gap_def open_provider_remote_artifact_claim_def record_provider_remote_def
      close_provider_remote_artifact_claim_def update_profile_def
    by (auto intro!: remote.row_intros) (auto simp: keeps_def rows_rel_def Let_def sm_defs split: option.split)
qed

text \<open>The calls that may change such a column are about one session, or one run.\<close>

lemma touchesI:
  "run_id r' = run_id r \<Longrightarrow> run_session r' = run_session r \<Longrightarrow> p (run_id r) (run_session r) \<Longrightarrow> touches p r r'"
  by (simp add: touches_def)

lemma session_touched:
  "keeps (rows_rel (touches (\<lambda>i j. j = k))) (claim_provider_provenance k role provider model)"
  "keeps (rows_rel (touches (\<lambda>i j. j = k))) (authorize_async_transcription k at_ms hint)"
  "keeps (rows_rel (touches (\<lambda>i j. j = k))) (mark_async_task_terminal_for_session k tid success)"
proof -
  show "keeps (rows_rel (touches (\<lambda>i j. j = k))) (claim_provider_provenance k role provider model)"
    unfolding claim_provider_provenance_def set_claim_def
    by (auto intro!: touching.row_intros touchesI split: option.split prod.split provider_role.split)
  show "keeps (rows_rel (touches (\<lambda>i j. j = k))) (authorize_async_transcription k at_ms hint)"
    unfolding authorize_async_transcription_def
    by (auto intro!: touching.row_intros touchesI simp: unauthorized_def split: option.split)
  show "keeps (rows_rel (touches (\<lambda>i j. j = k))) (mark_async_task_terminal_for_session k tid success)"
    unfolding mark_async_task_terminal_for_session_def Let_def
    by (auto intro!: touching.row_intros touchesI simp: exact_task_def)
qed

lemma receipt_touched: "keeps (rows_rel (touches p)) (receipt_of c k)"
  unfolding receipt_of_def by (auto intro!: touching.row_intros split: prod.split option.split)

lemma tokens_touched: "keeps (rows_rel (touches p)) (store_tokens k json)"
  by (auto simp: keeps_def store_tokens_def rows_rel_def list_all2_refl touching.row_refl)

lemma result_touched:
  "keeps (rows_rel (touches (\<lambda>i j. j = k))) (commit_async_provider_success c now k tid tokens json)"
  "keeps (rows_rel (touches (\<lambda>i j. j = k))) (replace_session_from_async_receipt k tid sha txt)"
  "keeps (rows_rel (touches (\<lambda>i j. j = k))) (replace_session_from_realtime_unless_async_ready k txt)"
  "keeps (rows_rel (touches (\<lambda>i j. j = k))) (mark_async_search_projection c k tid success)"
  unfolding commit_async_provider_success_def replace_session_from_async_receipt_def replace_session_def
    replace_session_from_realtime_unless_async_ready_def mark_async_search_projection_def Let_def
  by (auto intro!: touching.row_intros receipt_touched tokens_touched touchesI split: option.split prod.split)

lemma run_touched:
  "keeps (rows_rel (touches (\<lambda>j _. j = i))) (reserve_async_task i tid payload)"
  "keeps (rows_rel (touches (\<lambda>j _. j = i))) (mark_async_task_enqueued i tid)"
  unfolding reserve_async_task_def mark_async_task_enqueued_def
  by (auto intro!: touching.row_intros touchesI)

section \<open>Refused while a session is being deleted\<close>

lemma purging_session_refused:
  assumes "session_purge_job_exists k s"
  shows "snd (claim_provider_provenance k role provider model s) = s"
    "snd (authorize_async_transcription k at_ms hint s) = s"
    "snd (mark_async_task_terminal_for_session k tid success s) = s"
    "snd (commit_async_provider_success c now k tid tokens json s) = s"
    "snd (replace_session_from_async_receipt k tid sha txt s) = s"
    "snd (replace_session_from_realtime_unless_async_ready k txt s) = s"
    "snd (mark_async_search_projection c k tid success s) = s"
  using assms
  unfolding claim_provider_provenance_def authorize_async_transcription_def mark_async_task_terminal_for_session_def
    commit_async_provider_success_def replace_session_from_async_receipt_def
    replace_session_from_realtime_unless_async_ready_def mark_async_search_projection_def Let_def
  by (auto simp: store_run split: sum.split option.split)

lemma purging_run_refused:
  assumes "find_run i s = Some r" and "session_purge_job_exists (run_session r) s"
  shows "snd (reserve_async_task i tid payload s) = s" "snd (mark_async_task_enqueued i tid s) = s"
  using assms unfolding reserve_async_task_def mark_async_task_enqueued_def
  by (auto simp: store_run split: sum.split)

lemma unknown_run_refused:
  assumes "find_run i s = None"
  shows "snd (reserve_async_task i tid payload s) = s" "snd (mark_async_task_enqueued i tid s) = s"
  using assms unfolding reserve_async_task_def mark_async_task_enqueued_def
  by (auto simp: store_run split: sum.split)

section \<open>Index and tokens\<close>

definition same_text :: "capture_store \<Rightarrow> capture_store \<Rightarrow> bool" where
  "same_text s t \<longleftrightarrow> search_index t = search_index s \<and> metas t = metas s"

interpretation same_text: runs_free same_text
  by unfold_locales (simp_all add: same_text_def)

lemma capture_text:
  "keeps same_text (get_or_create_profile now n)" "keeps same_text (create_run i p)"
  "keeps same_text (create_completed_import_run now j p)" "keeps same_text (transition_capture now i' a b)"
  "keeps same_text (interrupt_capture now i' a failure)" "keeps same_text (interrupt_local_persistence now i' a failure)"
  "keeps same_text (update_remote_health i' h failure')" "keeps same_text (update_audio_progress i' frames)"
  "keeps same_text (finalize_audio_when st i' path frames)" "keeps same_text (clear_retained_audio_references k)"
  "keeps same_text (recover_unfinished_runs now)" "keeps same_text (recover_detached_unfinished_run now i')"
proof -
  have insert: "keeps same_text (insert_authorized q r)" for q r
    unfolding insert_authorized_def
    by (intro same_text.free_intros) (auto simp: keeps_def insert_run_def same_text_def sm_throw_def)
  show "keeps same_text (get_or_create_profile now n)" "keeps same_text (create_run i p)"
    "keeps same_text (create_completed_import_run now j p)" "keeps same_text (transition_capture now i' a b)"
    "keeps same_text (interrupt_capture now i' a failure)" "keeps same_text (interrupt_local_persistence now i' a failure)"
    "keeps same_text (update_remote_health i' h failure')" "keeps same_text (update_audio_progress i' frames)"
    "keeps same_text (finalize_audio_when st i' path frames)" "keeps same_text (clear_retained_audio_references k)"
    "keeps same_text (recover_unfinished_runs now)" "keeps same_text (recover_detached_unfinished_run now i')"
    unfolding get_or_create_profile_def create_run_def admit_run_def create_completed_import_run_def transition_capture_def
      interrupt_capture_def interrupt_local_persistence_def update_remote_health_def update_audio_progress_def
      finalize_audio_when_def clear_retained_audio_references_def recover_unfinished_runs_def recover_detached_unfinished_run_def
    by (auto intro!: same_text.free_intros insert simp: same_text_def)
qed

lemma rest_text:
  "keeps same_text (set_projection_state i a b)" "keeps same_text (complete_projection_unless_purging i)"
  "keeps same_text (set_async_projection_state i a' b')" "keeps same_text (complete_async_projection_unless_purging i)"
  "keeps same_text (claim_provider_provenance k role provider model)"
  "keeps same_text (authorize_async_transcription k at_ms hint)"
  "keeps same_text (reserve_async_task i tid payload)" "keeps same_text (mark_async_task_enqueued i tid)"
  "keeps same_text (mark_async_task_terminal_for_session k tid success)"
  "keeps same_text (receipt_of c k)" "keeps same_text (fail_corrupt_async_search_projection k t)"
  "keeps same_text (mark_async_search_projection c k tid success)"
  unfolding set_projection_state_def complete_projection_unless_purging_def set_async_projection_state_def
    complete_async_projection_unless_purging_def claim_provider_provenance_def authorize_async_transcription_def
    reserve_async_task_def mark_async_task_enqueued_def mark_async_task_terminal_for_session_def receipt_of_def
    fail_corrupt_async_search_projection_def mark_async_search_projection_def Let_def
  by (auto intro!: same_text.free_intros simp: same_text_def split: option.split prod.split)

lemma table_text:
  "keeps same_text (preserve_network_transcript_gap fresh k x y)" "keeps same_text (update_profile now n revision u)"
  "keeps same_text (open_provider_remote_artifact_claim tid k reference)" "keeps same_text (record_provider_remote tid x' g)"
  "keeps same_text (close_provider_remote_artifact_claim tid)"
  "keeps same_text (begin_session_purge_with_extras k fs ks)" "keeps same_text (update_session_purge_job k phase e)"
  "keeps same_text (complete_session_purge_job k)"
  unfolding preserve_network_transcript_gap_def open_provider_remote_artifact_claim_def record_provider_remote_def
    close_provider_remote_artifact_claim_def update_profile_def begin_session_purge_with_extras_def
    update_session_purge_job_def complete_session_purge_job_def
  by (auto intro!: same_text.free_intros simp: Let_def split: option.split)
    (auto simp: keeps_def same_text_def Let_def sm_defs split: option.split)

section \<open>Nothing comes back during a deletion\<close>

definition remote_of :: "ustring \<Rightarrow> capture_store \<Rightarrow> ((async_task_state \<times> int option \<times> ustring option) \<times>
    (ustring option \<times> ustring option) \<times> (ustring option \<times> ustring option \<times> ustring option) \<times>
    (ustring option \<times> ustring option) \<times> ustring option \<times> ustring option) list" where
  "remote_of k s = map remote_part (filter (\<lambda>r. run_session r = k) (runs s))"

definition texts_of :: "ustring \<Rightarrow> capture_store \<Rightarrow> (ustring \<times> ustring) list" where
  "texts_of k s = filter (\<lambda>(j, _). j = k) (search_index s)"

definition held :: "ustring \<Rightarrow> capture_store \<Rightarrow> capture_store \<Rightarrow> bool" where
  "held k s t \<longleftrightarrow> remote_of k t = remote_of k s \<and> texts_of k t = texts_of k s \<and> find_tokens k t = find_tokens k s"

lemma held_refl [simp]: "held k s s"
  by (simp add: held_def)

lemma held_trans: "held k s t \<Longrightarrow> held k t u \<Longrightarrow> held k s u"
  by (simp add: held_def)

lemma remote_rows: "list_all2 same_remote rows rows' \<Longrightarrow>
    map remote_part (filter (\<lambda>r. run_session r = k) rows') = map remote_part (filter (\<lambda>r. run_session r = k) rows)"
  by (induction rule: list_all2_induct) (auto simp: same_remote_def)

lemma untouched_rows: "list_all2 (touches p) rows rows' \<Longrightarrow>
    list_all (\<lambda>r. run_session r = k \<longrightarrow> \<not> p (run_id r) (run_session r)) rows \<Longrightarrow>
    filter (\<lambda>r. run_session r = k) rows' = filter (\<lambda>r. run_session r = k) rows"
  by (induction rule: list_all2_induct) (auto simp: touches_def)

lemma held_untouched:
  assumes "store_ok s" and "rows_rel same_remote s t" and "same_text s t"
  shows "held k s t"
  using assms remote_rows [of "runs s" "runs t" k]
  by (simp add: held_def remote_of_def texts_of_def find_tokens_def rows_rel_def same_text_def store_ok_def)

lemma keeps_held:
  "store_ok s \<Longrightarrow> keeps (rows_rel same_remote) m \<Longrightarrow> keeps same_text m \<Longrightarrow> held k s (snd (m s))"
  by (rule held_untouched) (simp_all add: keeps_def)

text \<open>The index and the tokens of another session.\<close>

definition other_text :: "ustring \<Rightarrow> capture_store \<Rightarrow> capture_store \<Rightarrow> bool" where
  "other_text k s t \<longleftrightarrow> texts_of k t = texts_of k s \<and> find_tokens k t = find_tokens k s"

interpretation other_text: runs_free "other_text k" for k
  by unfold_locales (simp_all add: other_text_def texts_of_def find_tokens_def)

lemma same_other_text: "keeps same_text m \<Longrightarrow> keeps (other_text k) m"
  by (simp add: keeps_def same_text_def other_text_def texts_of_def find_tokens_def)

lemma replace_other_text: "j \<noteq> k \<Longrightarrow> other_text k s (replace_session j txt s)"
  by (simp add: other_text_def texts_of_def replace_session_def find_tokens_def)
    (auto intro: filter_cong)

lemma find_meta_other:
  "j \<noteq> k \<Longrightarrow> find (\<lambda>m. meta_session m = k) (map_where (\<lambda>m. meta_session m = j) (\<lambda>m. m\<lparr>meta_tokens := x\<rparr>) ms) =
    find (\<lambda>m. meta_session m = k) ms"
  "meta_session m \<noteq> k \<Longrightarrow> find (\<lambda>m. meta_session m = k) (ms @ [m]) = find (\<lambda>m. meta_session m = k) ms"
  by (induction ms) (auto simp: map_where_def)

lemma store_tokens_other_text: "j \<noteq> k \<Longrightarrow> keeps (other_text k) (store_tokens j json)"
  by (auto simp: keeps_def store_tokens_def other_text_def texts_of_def find_tokens_def find_meta_other)

lemma other_session_text:
  assumes "j \<noteq> k"
  shows "keeps (other_text k) (commit_async_provider_success c now j tid tokens json)"
    "keeps (other_text k) (replace_session_from_async_receipt j tid sha txt)"
    "keeps (other_text k) (replace_session_from_realtime_unless_async_ready j txt)"
  using assms unfolding commit_async_provider_success_def replace_session_from_async_receipt_def
    replace_session_from_realtime_unless_async_ready_def Let_def
  by (auto intro!: other_text.free_intros same_other_text [OF rest_text(10)] store_tokens_other_text replace_other_text
      split: option.split prod.split)

lemma held_other:
  assumes "store_ok s" and "rows_rel (touches p) s t" and "other_text k s t"
    and "list_all (\<lambda>r. run_session r = k \<longrightarrow> \<not> p (run_id r) (run_session r)) (runs s)"
  shows "held k s t"
  using assms untouched_rows [of p "runs s" "runs t" k]
  by (simp add: held_def remote_of_def rows_rel_def other_text_def store_ok_def)

text \<open>A call about a session, refused while the session is being deleted.\<close>

lemma session_call_held:
  assumes "store_ok s" and "session_purge_job_exists k s"
    and "keeps (rows_rel (touches (\<lambda>_ l. l = j))) m" and "j \<noteq> k \<Longrightarrow> keeps (other_text k) m"
    and "session_purge_job_exists j s \<Longrightarrow> snd (m s) = s"
  shows "held k s (snd (m s))"
proof (cases "j = k")
  case True
  with assms(2,5) show ?thesis by simp
next
  case False
  with assms(1,3,4) show ?thesis by (intro held_other [of s "\<lambda>_ l. l = j"]) (auto simp: keeps_def list_all_iff)
qed

lemma run_call_held:
  assumes "store_ok s" and "session_purge_job_exists k s"
    and "keeps (rows_rel (touches (\<lambda>i' _. i' = i))) m" and "keeps same_text m"
    and "find_run i s = None \<Longrightarrow> snd (m s) = s"
    and "\<And>r. find_run i s = Some r \<Longrightarrow> session_purge_job_exists (run_session r) s \<Longrightarrow> snd (m s) = s"
  shows "held k s (snd (m s))"
proof (cases "find_run i s")
  case None
  with assms(5) show ?thesis by simp
next
  case (Some r)
  show ?thesis
  proof (cases "run_session r = k")
    case True
    with Some assms(2,6) show ?thesis by simp
  next
    case False
    have "run_session r' \<noteq> k" if "r' \<in> set (runs s)" "run_id r' = i" for r'
      using that False Some find_key [of run_id "runs s" r'] assms(1) by (simp add: store_ok_def find_run_def)
    with assms(1,3,4) show ?thesis
      by (intro held_other [of s "\<lambda>i' _. i' = i"]) (use same_other_text [OF assms(4)] in \<open>auto simp: keeps_def list_all_iff\<close>)
  qed
qed

lemma artifact_text:
  "keeps same_text (open_provider_remote_artifact_claim tid j reference)" "keeps same_text (record_provider_remote tid x g)"
  "keeps same_text (close_provider_remote_artifact_claim tid)"
  by (rule table_text)+

lemma jobs_held:
  assumes "on_jobs op" and "op \<noteq> DeleteSession k"
  shows "held k s (perform c op s)"
proof (cases op)
  case (DeleteSession j)
  have "find (\<lambda>m. meta_session m = k) (filter (\<lambda>m. meta_session m \<noteq> j) ms) = find (\<lambda>m. meta_session m = k) ms" if "j \<noteq> k"
    for ms :: "session_meta list"
    using that by (induction ms) auto
  with assms DeleteSession show ?thesis
    by (auto simp: purge_session_artifacts_def lift_then_state held_def remote_of_def texts_of_def find_tokens_def
        split: sum.split intro!: arg_cong [of _ _ "map remote_part"] filter_cong)
qed (use assms in \<open>auto simp: begin_session_purge_with_extras_def update_session_purge_job_def
    complete_session_purge_job_def store_run held_def remote_of_def texts_of_def find_tokens_def Let_def sm_defs
    split: sum.splits option.splits if_splits\<close>)

lemma created_held:
  assumes "new_session_of op = Some j" and "j \<noteq> k"
  shows "held k s (perform c op s)"
proof -
  have index: "other_text k s (perform c op s)"
  proof (cases op)
    case (CreateSession fresh rec i p)
    have rows: "keeps (other_text k) (insert_session_rows j)"
      using assms(2) by (auto simp: keeps_def insert_session_rows_def other_text_def texts_of_def find_tokens_def find_meta_other)
    have run: "keeps (other_text k) (insert_run r)" for r
      by (auto simp: keeps_def insert_run_def other_text_def texts_of_def find_tokens_def)
    have "keeps (other_text k) (create_session_and_run fresh rec i p)"
      using rows assms(1) CreateSession unfolding create_session_and_run_def insert_authorized_def attach_new_capture_membership_def
      by (auto intro!: other_text.free_intros run simp: other_text_def texts_of_def find_tokens_def)
    then show ?thesis by (simp add: CreateSession keeps_def)
  next
    case (CreateRun i p)
    then show ?thesis using same_other_text [OF capture_text(2)] by (simp add: keeps_def)
  next
    case (ImportRun now i p)
    then show ?thesis using same_other_text [OF capture_text(3)] by (simp add: keeps_def)
  qed (use assms(1) in simp_all)
  from perform_adds [OF assms(1), of s c] have "remote_of k (perform c op s) = remote_of k s"
    using assms(2) by (auto simp: adds_run_def remote_of_def)
  with index show ?thesis by (simp add: held_def other_text_def)
qed

lemma perform_held:
  assumes "store_ok s" and "session_purge_job_exists k s" and "op \<noteq> DeleteSession k"
    and "case new_session_of op of None \<Rightarrow> True | Some j \<Rightarrow> \<not> session_purge_job_exists j s"
  shows "held k s (perform c op s)"
proof (cases "new_session_of op")
  case (Some j)
  with assms show ?thesis by (intro created_held) auto
next
  case None
  note hold = keeps_held [OF assms(1)]
  note session = session_call_held [OF assms(1,2)] and run = run_call_held [OF assms(1,2)]
  show ?thesis
  proof (cases "on_jobs op")
    case True
    then show ?thesis using assms(3) by (rule jobs_held)
  next
    case False
    with None show ?thesis
      by (cases op) (simp_all add: finalize_audio_def finalize_interrupted_audio_def record_provider_remote_file_def
          record_provider_remote_transcription_def
          hold capture_untouched projection_untouched intent_kept remote_untouched_too capture_text rest_text table_text
          session [OF session_touched(1) _ purging_session_refused(1)] session [OF session_touched(2) _ purging_session_refused(2)]
          session [OF session_touched(3) _ purging_session_refused(3)] session [OF result_touched(1) _ purging_session_refused(4)]
          session [OF result_touched(2) _ purging_session_refused(5)] session [OF result_touched(3) _ purging_session_refused(6)]
          session [OF result_touched(4) _ purging_session_refused(7)]
          run [OF run_touched(1) _ unknown_run_refused(1) purging_run_refused(1)]
          run [OF run_touched(2) _ unknown_run_refused(2) purging_run_refused(2)]
          other_session_text same_other_text)
  qed
qed

lemma job_kept:
  assumes "session_purge_job_exists k s" and "op \<noteq> CompletePurge k"
  shows "session_purge_job_exists k (perform c op s)"
proof (cases "on_jobs op")
  case False
  have "purge_jobs (perform c op s) = purge_jobs s"
  proof (cases "new_session_of op")
    case None
    from perform_forward [OF this False, of s c] show ?thesis by (simp add: rows_rel_def)
  next
    case (Some j)
    from perform_adds [OF this, of s c] show ?thesis unfolding adds_run_def by (rule conjunct1)
  qed
  with assms(1) show ?thesis by (simp add: session_purge_job_exists_def)
next
  case True
  show ?thesis
  proof (cases op)
    case (BeginPurge j fs ks)
    have "set (purge_jobs s) \<subseteq> set (purge_jobs (perform c op s))"
      by (auto simp: BeginPurge begin_session_purge_with_extras_def store_run Let_def sm_defs
          split: sum.splits option.splits if_splits)
    with assms(1) show ?thesis by (auto simp: job_exists_iff)
  next
    case (UpdatePurge j phase e)
    have "job_session ` set (map_where p (\<lambda>j. j\<lparr>job_phase := x, job_error := e\<rparr>) js) = job_session ` set js"
      for p x e and js :: "purge_job list"
      by (induction js) (simp_all add: map_where_def)
    then have "job_session ` set (purge_jobs (perform c op s)) = job_session ` set (purge_jobs s)"
      by (simp add: UpdatePurge update_session_purge_job_def store_run sm_defs split: sum.split option.split)
    with assms(1) show ?thesis by (simp add: job_exists_iff)
  qed (use True assms in \<open>auto simp: complete_session_purge_job_def purge_session_artifacts_def store_run job_exists_iff
      split: sum.splits\<close>)
qed

text \<open>C12. From the moment the deletion of a session is written down, nothing that was done for it elsewhere
  can come back: whatever is called, until its rows are deleted the recording's task, the provider's
  result and claims, its token list and its entries in the search index stay exactly as they are, and
  so does the note of the deletion.\<close>

theorem deletion_stops_remote_work:
  assumes "capture_path c s ops t" and "store_ok s" and "session_purge_job_exists k s"
    and "DeleteSession k \<notin> set ops" and "CompletePurge k \<notin> set ops"
  shows "session_purge_job_exists k t \<and> held k s t"
  using assms
proof (induction rule: capture_path.induct)
  case (path_cons op s ops t)
  let ?s = "perform c op s"
  have "store_ok ?s" using path_cons.hyps(1) path_cons.prems(1) by (intro perform_ok)
  moreover have "session_purge_job_exists k ?s" using path_cons.prems by (intro job_kept) auto
  moreover have "held k s ?s" using path_cons.hyps(1) path_cons.prems by (intro perform_held) auto
  ultimately show ?case using path_cons.IH path_cons.prems(3,4) held_trans by auto
qed simp

section \<open>The plan\<close>

lemma dedup_seen_spec: "set (dedup_seen seen xs) = set xs - set seen \<and> distinct (dedup_seen seen xs)"
  by (induction seen xs rule: dedup_seen.induct) auto

lemma deduplicate_spec [simp]: "set (deduplicate_preserving_order xs) = set xs" "distinct (deduplicate_preserving_order xs)"
  using dedup_seen_spec [of "[]" xs] by (simp_all add: deduplicate_preserving_order_def)

lemma set_option_list [simp]: "set (option_list x) = set_option x"
  by (cases x) (simp_all add: option_list_def)

lemma find_snoc: "find p xs = None \<Longrightarrow> find p (xs @ [x]) = (if p x then Some x else None)"
  by (induction xs) (auto split: if_splits)

text \<open>C35. The plan of a deletion forgets nothing: every file and every key that a row of the session names,
  and every extra one the caller knows of, is in the job, once; asking again returns the same job.\<close>

theorem purge_plan_names_everything:
  assumes "begin_session_purge_with_extras k extra_files extra_keys s = (Inr job, t)" and "find_job k s = None"
  shows "set (plan_files (job_plan job)) = set extra_files \<union> set_option (Option.bind (find_session k s) journal_path) \<union>
      set_option (Option.bind (find_session k s) audio_path) \<union>
      set_option (Option.bind (find (\<lambda>m. meta_session m = k) (metas s)) meta_path) \<union>
      chunk_path ` {x \<in> set (chunks s). chunk_session x = k} \<and>
    set (plan_keys (job_plan job)) = {lit ''zutalk.audio.'' @ k} \<union> set extra_keys \<union>
      set_option (Option.bind (find_session k s) audio_key) \<union> set_option (Option.bind (find_session k s) context_key) \<union>
      set_option (Option.bind (find (\<lambda>m. meta_session m = k) (metas s)) meta_key) \<and>
    distinct (plan_files (job_plan job)) \<and> distinct (plan_keys (job_plan job)) \<and>
    t = s\<lparr>purge_jobs := purge_jobs s @ [job]\<rparr> \<and>
    begin_session_purge_with_extras k extra_files extra_keys t = (Inr job, t)"
proof -
  have found: "find_job k (s\<lparr>purge_jobs := purge_jobs s @ [j]\<rparr>) = (if job_session j = k then Some j else None)" for j
    using assms(2) by (simp add: find_job_def find_snoc)
  have "job_session job = k \<and> t = s\<lparr>purge_jobs := purge_jobs s @ [job]\<rparr> \<and>
      set (plan_files (job_plan job)) = set (plan_files (build_session_purge_plan k s)) \<union> set extra_files \<and>
      set (plan_keys (job_plan job)) = set (plan_keys (build_session_purge_plan k s)) \<union> set extra_keys \<and>
      distinct (plan_files (job_plan job)) \<and> distinct (plan_keys (job_plan job))"
    and again: "begin_session_purge_with_extras k extra_files extra_keys t = (Inr job, t)"
    using assms found
    by (auto simp: begin_session_purge_with_extras_def store_run Let_def sm_defs split: sum.splits if_splits)
  moreover have "set (plan_files (build_session_purge_plan k s)) = set_option (Option.bind (find_session k s) journal_path) \<union>
      set_option (Option.bind (find_session k s) audio_path) \<union>
      set_option (Option.bind (find (\<lambda>m. meta_session m = k) (metas s)) meta_path) \<union>
      chunk_path ` {x \<in> set (chunks s). chunk_session x = k}"
    and "set (plan_keys (build_session_purge_plan k s)) = {lit ''zutalk.audio.'' @ k} \<union>
      set_option (Option.bind (find_session k s) audio_key) \<union> set_option (Option.bind (find_session k s) context_key) \<union>
      set_option (Option.bind (find (\<lambda>m. meta_session m = k) (metas s)) meta_key)"
    by (auto simp: build_session_purge_plan_def Let_def split: option.splits)
  ultimately show ?thesis by blast
qed

definition sample_job :: purge_job where
  "sample_job = \<lparr>job_session = lit ''s'', job_plan = build_session_purge_plan (lit ''s'') (store_with [sample_row] []),
     job_phase = lit ''prepared'', job_error = None\<rparr>"

theorem deletion_stops_remote_work_witness:
  "\<exists>t. capture_path sample_codec (store_with [sample_row] [sample_job])
      [Authorize (lit ''s'') 5 None, IndexRealtime (lit ''s'') (lit ''late'')] t \<and>
    session_purge_job_exists (lit ''s'') t \<and> held (lit ''s'') (store_with [sample_row] [sample_job]) t"
proof -
  let ?s = "store_with [sample_row] [sample_job]"
  let ?ops = "[Authorize (lit ''s'') 5 None, IndexRealtime (lit ''s'') (lit ''late'')]"
  have "\<exists>t. capture_path sample_codec ?s ?ops t"
    by (rule exI, rule path_cons, simp, rule path_cons, simp, rule path_nil)
  then obtain t where t: "capture_path sample_codec ?s ?ops t" ..
  moreover have "store_ok ?s" "session_purge_job_exists (lit ''s'') ?s"
    by (simp_all add: store_ok_def active_rows_def sample_simps sample_job_def)
  ultimately show ?thesis using deletion_stops_remote_work [OF t] by auto
qed

theorem purge_plan_names_everything_witness:
  "\<exists>job t. begin_session_purge_with_extras (lit ''s'') [lit ''x''] [] (store_with [sample_row] []) = (Inr job, t) \<and>
    set (plan_files (job_plan job)) = {lit ''x'', lit ''a''}"
proof -
  have "trim (lit ''s'') \<noteq> []" "trim (lit ''x'') \<noteq> []" by (simp_all add: lit_def trim_def is_whitespace_def)
  moreover have "find_session (lit ''s'') (store_with [sample_row] []) = Some sample_row"
    and none: "find_job (lit ''s'') (store_with [sample_row] []) = None"
    by (simp_all add: find_session_def find_job_def sample_simps)
  moreover have "\<not> is_active (run_capture sample_row)" by (simp add: sample_simps)
  ultimately have "\<exists>job t. begin_session_purge_with_extras (lit ''s'') [lit ''x''] [] (store_with [sample_row] []) = (Inr job, t)"
    by (simp add: begin_session_purge_with_extras_def store_run require_nonempty_def Let_def sm_defs option_ok_def)
      (simp add: find_job_def store_with_def sm_return_def)
  then obtain job t where run: "begin_session_purge_with_extras (lit ''s'') [lit ''x''] [] (store_with [sample_row] []) = (Inr job, t)"
    by blast
  from purge_plan_names_everything [OF run none] run show ?thesis
    by (auto simp: find_session_def sample_simps)
qed

end
