(* ===== verification/Capture_Receipt.thy ===== *)
theory Capture_Receipt
  imports Capture_Deletion
begin

text \<open>
  The result of a transcription: once the provider's answer is committed it is the answer, whatever is
  called afterwards; once its text is in the search index the realtime text does not replace it; and
  nothing but a deletion keeps the way from the authorization to the finished transcript from its end.
\<close>

section \<open>The tokens of a committed result\<close>

definition has_receipt :: "ustring \<Rightarrow> capture_store \<Rightarrow> bool" where
  "has_receipt k s \<longleftrightarrow> list_ex (\<lambda>r. run_session r = k \<and> output_sha r \<noteq> None) (runs s)"

definition keeps_tokens :: "ustring \<Rightarrow> capture_store \<Rightarrow> capture_store \<Rightarrow> bool" where
  "keeps_tokens k s t \<longleftrightarrow> (has_receipt k s \<longrightarrow> has_receipt k t \<and>
     (\<forall>x. find_tokens k s = Some x \<longrightarrow> find_tokens k t = Some x))"

interpretation tokens: store_preorder "keeps_tokens k" for k
  by unfold_locales (auto simp: keeps_tokens_def)

lemma tokens_execute:
  assumes "\<And>r. run_session (f r) = run_session r"
  shows "keeps (keeps_tokens k) (execute_runs p f)"
  unfolding keeps_def
proof
  fix s
  have "list_ex (\<lambda>r. run_session r = k \<and> output_sha r \<noteq> None) (map_where p f rows)"
    if "list_all (\<lambda>r. p r \<longrightarrow> row_check (f r) \<and> row_update_ok r (f r)) rows"
      and "list_ex (\<lambda>r. run_session r = k \<and> output_sha r \<noteq> None) rows" for rows
    using that assms by (induction rows) (auto simp: map_where_def row_update_ok_def)
  then show "keeps_tokens k s (snd (execute_runs p f s))"
    by (auto simp: execute_runs_def keeps_tokens_def has_receipt_def find_tokens_def Let_def)
qed

lemma tokens_store: "keeps (keeps_tokens k) (store_tokens j json)"
proof (cases "j = k")
  case False
  then have "keeps (other_text k) (store_tokens j json)" by (rule store_tokens_other_text)
  moreover have "runs (snd (store_tokens j json s)) = runs s" for s by (simp add: store_tokens_def)
  ultimately show ?thesis by (simp add: keeps_def keeps_tokens_def other_text_def has_receipt_def)
next
  case True
  have "find (\<lambda>m. meta_session m = k) (map_where (\<lambda>m. meta_session m = k) (\<lambda>m. m\<lparr>meta_tokens := x\<rparr>) ms) =
      map_option (\<lambda>m. m\<lparr>meta_tokens := x\<rparr>) (find (\<lambda>m. meta_session m = k) ms)" for x and ms :: "session_meta list"
    by (induction ms) (auto simp: map_where_def)
  with True show ?thesis
    by (auto simp: keeps_def store_tokens_def keeps_tokens_def has_receipt_def find_tokens_def split: option.splits)
qed

lemma tokens_commit: "keeps (keeps_tokens k) (commit_async_provider_success c now j tid tokens json)"
  unfolding commit_async_provider_success_def receipt_of_def Let_def
  by (auto intro!: tokens.store_intros tokens_store tokens_execute split: option.split prod.split)

lemma session_rows_tokens: "find_tokens k s = Some x \<Longrightarrow> find_tokens k (snd (insert_session_rows j s)) = Some x"
proof -
  have "find (\<lambda>m. meta_session m = k) (ms @ [m]) = Some y" if "find (\<lambda>m. meta_session m = k) ms = Some y"
    for ms :: "session_meta list" and m y using that by (induction ms) auto
  then show "find_tokens k s = Some x \<Longrightarrow> find_tokens k (snd (insert_session_rows j s)) = Some x"
    by (auto simp: insert_session_rows_def find_tokens_def bind_eq_Some_conv)
qed

lemma has_receipt_row: "has_receipt k s \<longleftrightarrow> (\<exists>r. r \<in> set (runs s) \<and> run_session r = k \<and> output_sha r \<noteq> None)"
  by (auto simp: has_receipt_def list_ex_iff)

text \<open>The calls that write tokens or the index; all others leave both alone.\<close>

fun writes_text :: "'tok capture_op \<Rightarrow> bool" where
  "writes_text (CreateSession f rec i p) = True"
| "writes_text (Commit now k tid tokens json) = True"
| "writes_text (IndexAsync k tid sha body) = True"
| "writes_text (IndexRealtime k body) = True"
| "writes_text (DeleteSession k) = True"
| "writes_text _ = False"

lemma text_sndI: "keeps same_text m \<Longrightarrow> same_text s (snd (m s))"
  by (simp add: keeps_def)

lemmas text_snd = capture_text [THEN text_sndI] rest_text [THEN text_sndI] table_text [THEN text_sndI]

lemma perform_text:
  assumes "\<not> writes_text op"
  shows "same_text s (perform c op s)"
  using assms
  by (cases op) (simp_all add: finalize_audio_def finalize_interrupted_audio_def record_provider_remote_file_def
      record_provider_remote_transcription_def text_snd)

definition same_index :: "capture_store \<Rightarrow> capture_store \<Rightarrow> bool" where
  "same_index s t \<longleftrightarrow> search_index t = search_index s"

interpretation same_index: runs_free same_index
  by unfold_locales (simp_all add: same_index_def)

lemma index_insert: "keeps same_index (insert_run r)" "keeps same_index (insert_session_rows j)" "keeps same_index (store_tokens j json)"
  by (auto simp: keeps_def same_index_def insert_run_def insert_session_rows_def store_tokens_def)

lemma index_kept:
  "keeps same_index (create_session_and_run fresh rec i p)"
  "keeps same_index (commit_async_provider_success c now j tid tokens json)"
  unfolding create_session_and_run_def insert_authorized_def attach_new_capture_membership_def
    commit_async_provider_success_def receipt_of_def Let_def
  by (auto intro!: same_index.free_intros index_insert split: option.split prod.split) (simp_all add: same_index_def)

lemmas index_snd = index_kept [unfolded keeps_def same_index_def, rule_format]

lemma perform_index:
  assumes "op \<noteq> DeleteSession k" and "\<And>tid sha body. op \<noteq> IndexAsync k tid sha body" and "\<And>body. op \<noteq> IndexRealtime k body"
  shows "texts_of k (perform c op s) = texts_of k s"
proof (cases "writes_text op")
  case False
  from perform_text [OF this, of s c] show ?thesis by (simp add: same_text_def texts_of_def)
next
  case True
  show ?thesis
  proof (cases op)
    case (CreateSession f rec i p)
    then show ?thesis by (simp add: index_snd texts_of_def)
  next
    case (Commit now j tid toks json)
    then show ?thesis by (simp add: index_snd texts_of_def)
  next
    case (IndexAsync j tid sha body)
    with assms(2) other_session_text(2) [of j k tid sha body] show ?thesis by (auto simp: keeps_def other_text_def)
  next
    case (IndexRealtime j body)
    with assms(3) other_session_text(3) [of j k body] show ?thesis by (auto simp: keeps_def other_text_def)
  next
    case (DeleteSession j)
    with assms(1) jobs_held [of op k s c] show ?thesis by (simp add: held_def)
  qed (use True in simp_all)
qed

text \<open>A session whose final text is in the index.\<close>

definition final_text :: "ustring \<Rightarrow> capture_store \<Rightarrow> bool" where
  "final_text k s \<longleftrightarrow> (\<exists>r. r \<in> set (runs s) \<and> run_session r = k \<and> output_sha r \<noteq> None \<and> search_state r = SearchReady)"

lemma perform_final:
  assumes "store_ok s" and "final_text k s" and "op \<noteq> DeleteSession k"
  shows "final_text k (perform c op s)"
proof -
  from assms(2) obtain r where r: "r \<in> set (runs s)" "run_session r = k" "output_sha r \<noteq> None" "search_state r = SearchReady"
    by (auto simp: final_text_def)
  from perform_row [OF assms(1) r(1), of op c] assms(3) r(2) obtain r' where
    "r' \<in> set (runs (perform c op s))" "row_le r r'" by auto
  with r show ?thesis by (auto simp: final_text_def row_le_def same_identity_def same_past_def intro!: exI [of _ r'])
qed

lemma realtime_skipped:
  assumes "store_ok s" and "final_text k s"
  shows "snd (replace_session_from_realtime_unless_async_ready k body s) = s"
proof -
  from assms obtain r where "find_session k s = Some r" "search_state r = SearchReady"
    by (auto simp: final_text_def dest: session_row)
  then show ?thesis
    by (simp add: replace_session_from_realtime_unless_async_ready_def store_run option_ok_def sm_defs)
qed

lemma perform_keeps_index:
  assumes "store_ok s" and "final_text k s" and "op \<noteq> DeleteSession k" and "\<And>tid sha body. op \<noteq> IndexAsync k tid sha body"
  shows "texts_of k (perform c op s) = texts_of k s"
proof (cases "\<exists>body. op = IndexRealtime k body")
  case True
  with realtime_skipped [OF assms(1,2)] show ?thesis by auto
next
  case False
  with assms(3,4) show ?thesis by (intro perform_index) auto
qed

lemma path_keeps_index:
  "capture_path c s ops t \<Longrightarrow> store_ok s \<Longrightarrow> final_text k s \<Longrightarrow> DeleteSession k \<notin> set ops \<Longrightarrow>
    (\<And>tid sha body. IndexAsync k tid sha body \<notin> set ops) \<Longrightarrow> texts_of k t = texts_of k s"
proof (induction rule: capture_path.induct)
  case (path_cons op s ops t)
  have "store_ok (perform c op s)" using path_cons.hyps(1) path_cons.prems(1) by (intro perform_ok)
  moreover have "final_text k (perform c op s)" using path_cons.prems by (intro perform_final) auto
  moreover have "texts_of k (perform c op s) = texts_of k s" using path_cons.prems by (intro perform_keeps_index) auto
  ultimately show ?case using path_cons.IH path_cons.prems(3,4) by auto
qed simp

text \<open>C16. The final text wins: once the text of a committed transcription is in the search index, the
  realtime text of the recording, which may arrive at any time, does not replace it; until the session
  is deleted or the committed text is indexed again, its entry is that text.\<close>

theorem final_text_wins:
  assumes "replace_session_from_async_receipt k tid sha body s = (Inr (), s')" and "store_ok s"
    and "capture_path c s' ops t" and "DeleteSession k \<notin> set ops"
    and "\<And>tid sha body. IndexAsync k tid sha body \<notin> set ops"
  shows "texts_of k t = [(k, compose_thai_sara_am body)]"
proof -
  from assms(1) obtain r where r: "find (\<lambda>r. run_session r = k \<and> output_sha r \<noteq> None) (runs s) = Some r"
    "async_task r = Some tid" "output_sha r = Some sha" "search_state r \<in> {SearchPending, SearchFailed, SearchReady}"
    and run: "sm_bind (execute_runs (\<lambda>r. run_session r = k \<and> async_task r = Some tid \<and> output_sha r = Some sha \<and>
               search_state r \<in> {SearchPending, SearchFailed, SearchReady}) (\<lambda>r. r\<lparr>search_state := SearchReady\<rparr>))
             (\<lambda>n. sm_return ()) (replace_session k body s) = (Inr (), s')"
    by (auto simp: replace_session_from_async_receipt_def store_run sm_throw_def sm_return_def
        split: if_splits option.splits prod.splits sum.splits)
  have "texts_of k (replace_session k body s) = [(k, compose_thai_sara_am body)]"
    by (auto simp: texts_of_def replace_session_def filter_empty_conv)
  with run have "texts_of k s' = [(k, compose_thai_sara_am body)]"
    by (auto simp: sm_defs execute_runs_def texts_of_def Let_def split: if_splits)
  moreover have "final_text k s'"
  proof -
    have "r \<in> set (runs s)" "run_session r = k" using r(1) by (auto simp: find_Some_iff)
    with r run have "r\<lparr>search_state := SearchReady\<rparr> \<in> set (runs s')"
      by (auto simp: sm_defs execute_runs_def replace_session_def map_where_def Let_def image_iff split: if_splits
          intro!: bexI [of _ r])
    with r(3) \<open>run_session r = k\<close> show ?thesis
      by (auto simp: final_text_def intro!: exI [of _ "r\<lparr>search_state := SearchReady\<rparr>"])
  qed
  moreover have "store_ok s'"
    using forward_ok [OF assms(2)] search_forward(1) [of k tid sha body] assms(1) by (auto simp: keeps_def) (metis snd_conv)
  ultimately show ?thesis using path_keeps_index [OF assms(3) _ _ assms(4,5)] by simp
qed

section \<open>The answer stays the answer\<close>

definition more_tokens :: "ustring \<Rightarrow> ustring \<Rightarrow> capture_store \<Rightarrow> capture_store \<Rightarrow> bool" where
  "more_tokens k x s t \<longleftrightarrow> (find_tokens k s = Some x \<longrightarrow> find_tokens k t = Some x)"

interpretation more_tokens: runs_free "more_tokens k x" for k x
  by unfold_locales (simp_all add: more_tokens_def find_tokens_def)

lemma created_metas:
  "keeps (more_tokens k x) (create_session_and_run fresh rec i p)"
  "keeps (more_tokens k x) (replace_session_from_async_receipt j tid sha body)"
  "keeps (more_tokens k x) (replace_session_from_realtime_unless_async_ready j body)"
proof -
  have rows: "keeps (more_tokens k x) (insert_run r)" "keeps (more_tokens k x) (insert_session_rows j)" for r j
    by (simp_all add: keeps_def more_tokens_def session_rows_tokens) (simp add: insert_run_def find_tokens_def)
  show "keeps (more_tokens k x) (create_session_and_run fresh rec i p)"
    "keeps (more_tokens k x) (replace_session_from_async_receipt j tid sha body)"
    "keeps (more_tokens k x) (replace_session_from_realtime_unless_async_ready j body)"
    unfolding create_session_and_run_def insert_authorized_def attach_new_capture_membership_def
      replace_session_from_async_receipt_def replace_session_from_realtime_unless_async_ready_def replace_session_def
    by (auto intro!: more_tokens.free_intros rows split: option.split prod.split) (simp_all add: more_tokens_def find_tokens_def)
qed

lemma perform_tokens:
  assumes "store_ok s" and "has_receipt k s" and "find_tokens k s = Some x" and "op \<noteq> DeleteSession k"
  shows "find_tokens k (perform c op s) = Some x"
proof (cases "writes_text op")
  case False
  from perform_text [OF this, of s c] assms(3) show ?thesis by (simp add: same_text_def find_tokens_def)
next
  case True
  show ?thesis
  proof (cases op)
    case (CreateSession f rec i p)
    with created_metas(1) [of k x f rec i p] assms(3) show ?thesis by (simp add: keeps_def more_tokens_def)
  next
    case (Commit now j tid toks json)
    with tokens_commit [of k c now j tid toks json] assms(2,3) show ?thesis by (simp add: keeps_def keeps_tokens_def)
  next
    case (IndexAsync j tid sha body)
    with created_metas(2) [of k x j tid sha body] assms(3) show ?thesis by (simp add: keeps_def more_tokens_def)
  next
    case (IndexRealtime j body)
    with created_metas(3) [of k x j body] assms(3) show ?thesis by (simp add: keeps_def more_tokens_def)
  next
    case (DeleteSession j)
    with assms(4) jobs_held [of op k s c] assms(3) show ?thesis by (simp add: held_def)
  qed (use True in simp_all)
qed

lemma receipt_of_eq:
  "receipt_of c k s = (case find (\<lambda>r. run_session r = k \<and> output_sha r \<noteq> None) (runs s) of
       None \<Rightarrow> (Inr None, s)
     | Some r \<Rightarrow> (case validate_async_provider_receipt c r (find_tokens k s) of
           Inl e \<Rightarrow> (Inl e, s) | Inr x \<Rightarrow> (Inr (Some x), s)))"
  by (simp add: receipt_of_def store_run sm_return_def split: option.split sum.split)

lemma find_session_where:
  "distinct (map run_session rows) \<Longrightarrow> r \<in> set rows \<Longrightarrow> P r \<Longrightarrow>
    find (\<lambda>r'. run_session r' = run_session r \<and> P r') rows = Some r"
  by (induction rows) auto

text \<open>A receipt reads the same on a row that has gone forward, up to the state of its index entry.\<close>

lemma receipt_forward:
  assumes "validate_async_provider_receipt c r tokens = Inr x" and "row_le r r'" and "row_check r"
  shows "validate_async_provider_receipt c r' tokens = Inr (x\<lparr>receipt_search := search_state r'\<rparr>)"
proof -
  from assms(1) have some: "async_task r \<noteq> None" "post_stop_provider r \<noteq> None" "output_sha r \<noteq> None"
    by (auto simp: validate_async_provider_receipt_def split: option.splits)
  with assms(3) have "task_settled (run_async r)"
    by (cases "run_async r") (auto simp: row_check_def async_receipt_ok_def task_settled_def)
  with some assms(2) have "async_task r' = async_task r" "post_stop_provider r' = post_stop_provider r"
    "post_stop_model r' = post_stop_model r" "output_sha r' = output_sha r" "result_json r' = result_json r"
    "provider_completed r' = provider_completed r" "run_session r' = run_session r"
    by (auto simp: row_le_def same_past_def same_identity_def)
  with assms(1) show ?thesis
    by (auto simp: validate_async_provider_receipt_def split: option.splits if_splits)
qed

definition answered :: "'tok codec \<Rightarrow> ustring \<Rightarrow> receipt \<Rightarrow> ustring \<Rightarrow> capture_store \<Rightarrow> bool" where
  "answered c k x tokens s \<longleftrightarrow> receipt_of c k s = (Inr (Some x), s) \<and> find_tokens k s = Some tokens"

lemma answered_row:
  assumes "answered c k x tokens s"
  obtains r where "r \<in> set (runs s)" "run_session r = k" "output_sha r \<noteq> None"
    "validate_async_provider_receipt c r (Some tokens) = Inr x"
  using assms by (auto simp: answered_def receipt_of_eq dest!: find_member split: option.splits sum.splits)

lemma row_answered:
  assumes "store_ok s" and "r \<in> set (runs s)" "run_session r = k" "output_sha r \<noteq> None" "find_tokens k s = Some tokens"
    and "validate_async_provider_receipt c r (Some tokens) = Inr x"
  shows "answered c k x tokens s"
  using assms find_session_where [of "runs s" r "\<lambda>r. output_sha r \<noteq> None"]
  by (simp add: answered_def receipt_of_eq store_ok_def)

lemma perform_answered:
  assumes "store_ok s" and "answered c k x tokens s" and "op \<noteq> DeleteSession k"
    and "store_ok (perform c op s)"
  shows "\<exists>st. answered c k (x\<lparr>receipt_search := st\<rparr>) tokens (perform c op s)"
proof -
  obtain r where r: "r \<in> set (runs s)" "run_session r = k" "output_sha r \<noteq> None"
    "validate_async_provider_receipt c r (Some tokens) = Inr x" using assms(2) by (rule answered_row)
  from perform_row [OF assms(1) r(1), of op c] assms(3) r(2) obtain r' where
    r': "r' \<in> set (runs (perform c op s))" "row_le r r'" by auto
  moreover have "row_check r" using assms(1) r(1) by (simp add: store_ok_def list_all_iff)
  moreover have "run_session r' = k" "output_sha r' \<noteq> None"
    using r'(2) r(2,3) by (auto simp: row_le_def same_identity_def same_past_def)
  moreover have "find_tokens k (perform c op s) = Some tokens"
    using assms(2,3) r by (intro perform_tokens [OF assms(1)]) (auto simp: has_receipt_row answered_def)
  ultimately show ?thesis using row_answered [OF assms(4)] receipt_forward [OF r(4)] by blast
qed

lemma path_answered:
  "capture_path c s ops t \<Longrightarrow> store_ok s \<Longrightarrow> answered c k x tokens s \<Longrightarrow> DeleteSession k \<notin> set ops \<Longrightarrow>
    \<exists>st. answered c k (x\<lparr>receipt_search := st\<rparr>) tokens t"
proof (induction arbitrary: x rule: capture_path.induct)
  case (path_nil s)
  then show ?case by (intro exI [of _ "receipt_search x"]) simp
next
  case (path_cons op s ops t)
  have ok: "store_ok (perform c op s)" using path_cons.hyps(1) path_cons.prems(1) by (intro perform_ok)
  with path_cons.prems obtain st where "answered c k (x\<lparr>receipt_search := st\<rparr>) tokens (perform c op s)"
    using perform_answered [OF path_cons.prems(1,2), of op] by auto
  from path_cons.IH [OF ok this] path_cons.prems(3) show ?case by auto
qed

lemma store_tokens_result:
  "store_tokens k json s = (Inr (), t) \<Longrightarrow> find_tokens k t = Some json \<and> runs t = runs s"
proof -
  have "find (\<lambda>m. meta_session m = k) (ms @ [m]) = Some m" if "find (\<lambda>m. meta_session m = k) ms = None" "meta_session m = k"
    for ms :: "session_meta list" and m using that by (induction ms) (auto split: if_splits)
  moreover have "find (\<lambda>m. meta_session m = k) (map_where (\<lambda>m. meta_session m = k) (\<lambda>m. m\<lparr>meta_tokens := x\<rparr>) ms) =
      map_option (\<lambda>m. m\<lparr>meta_tokens := x\<rparr>) (find (\<lambda>m. meta_session m = k) ms)" for x and ms :: "session_meta list"
    by (induction ms) (auto simp: map_where_def)
  ultimately show "store_tokens k json s = (Inr (), t) \<Longrightarrow> find_tokens k t = Some json \<and> runs t = runs s"
    by (auto simp: store_tokens_def find_tokens_def split: if_splits)
qed

lemma receipt_of_result:
  "receipt_of c k s = (Inr (Some x), t) \<Longrightarrow> t = s \<and> (\<exists>r. r \<in> set (runs s) \<and> run_session r = k \<and>
     result_json r = Some (receipt_json x) \<and> async_task r = Some (receipt_task x))"
  by (auto simp: receipt_of_eq validate_async_provider_receipt_def dest!: find_member split: option.splits sum.splits if_splits)

text \<open>A commit that succeeds, for the first time or again.\<close>

lemma commit_success:
  assumes "commit_async_provider_success c now k tid tokens json s = (Inr x, t)" and "store_ok s"
  shows "answered c k x (encode_tokens c tokens) t \<and> receipt_task x = tid \<and> receipt_json x = json"
proof -
  let ?tj = "encode_tokens c tokens"
  from assms(1) obtain r provider model existing s1 where
    found: "find_session k s = Some r" "async_task r = Some tid" "claimed_post_stop r = Inr (provider, model)"
    and existing: "receipt_of c k s = (Inr existing, s1)"
    and rest: "(case existing of
              Some x \<Rightarrow>
                sm_then (sm_check (receipt_task x = tid \<and> receipt_provider x = provider \<and> receipt_model x = model \<and>
                    receipt_sha x = async_provider_output_digest c [k, tid, provider, model, ?tj, json] \<and> receipt_json x = json) CaptureConflict)
                (sm_bind (sm_gets (find_tokens k)) (\<lambda>stored.
                 sm_then (sm_check (stored = Some ?tj) CaptureCorrupt) (sm_return x)))
            | None \<Rightarrow>
                sm_then (sm_check (run_async r = AsyncEnqueued) CaptureConflict)
                (sm_then (store_tokens k ?tj)
                (sm_then (update_or CaptureConflict
                   (\<lambda>r. run_session r = k \<and> run_async r = AsyncEnqueued \<and> async_task r = Some tid \<and> output_sha r = None)
                   (\<lambda>r. r\<lparr>output_sha := Some (async_provider_output_digest c [k, tid, provider, model, ?tj, json]),
                          result_json := Some json, provider_completed := Some now, search_state := SearchPending\<rparr>))
                (sm_bind (receipt_of c k) (sm_some CaptureCorrupt))))) s1 = (Inr x, t)"
    by (auto simp: commit_async_provider_success_def store_run Let_def sm_bind_def [of "receipt_of c k"]
        split: if_splits option.splits prod.splits sum.splits)
  have s1: "s1 = s" using existing by (auto simp: receipt_of_eq split: option.splits sum.splits)
  have only: "r' = r" if "r' \<in> set (runs s)" "run_session r' = k" for r'
    using session_row [OF assms(2) that(1)] that(2) found(1) by simp
  show ?thesis
  proof (cases existing)
    case (Some y)
    with rest existing s1 show ?thesis
      by (auto simp: store_run answered_def sm_return_def split: if_splits)
  next
    case None
    let ?p = "\<lambda>r. run_session r = k \<and> run_async r = AsyncEnqueued \<and> async_task r = Some tid \<and> output_sha r = None"
    let ?f = "\<lambda>r. r\<lparr>output_sha := Some (async_provider_output_digest c [k, tid, provider, model, ?tj, json]),
                  result_json := Some json, provider_completed := Some now, search_state := SearchPending\<rparr>"
    from rest None s1 have "sm_then (store_tokens k ?tj) (sm_then (update_or CaptureConflict ?p ?f)
        (sm_bind (receipt_of c k) (sm_some CaptureCorrupt))) s = (Inr x, t)"
      by (simp add: run_then_check split: if_splits)
    then obtain u s2 where s2: "store_tokens k ?tj s = (Inr u, s2)"
      and "sm_then (update_or CaptureConflict ?p ?f) (sm_bind (receipt_of c k) (sm_some CaptureCorrupt)) s2 = (Inr x, t)"
      by (rule then_Inr)
    then obtain v s3 where s3: "update_or CaptureConflict ?p ?f s2 = (Inr v, s3)"
      and "sm_bind (receipt_of c k) (sm_some CaptureCorrupt) s3 = (Inr x, t)" by (elim then_Inr)
    then have x: "receipt_of c k s3 = (Inr (Some x), t)"
      by (elim bind_Inr) (auto simp: sm_some_def sm_throw_def sm_return_def split: option.splits)
    have s2': "find_tokens k s2 = Some ?tj \<and> runs s2 = runs s" using store_tokens_result [of k ?tj s s2] s2 by simp
    from s3 have rows: "runs s3 = map_where ?p ?f (runs s)" "filter ?p (runs s) \<noteq> []" and tokens: "find_tokens k s3 = Some ?tj"
      using s2' by (auto simp: update_or_def execute_runs_def sm_defs Let_def find_tokens_def split: if_splits)
    from rows(2) obtain q where "q \<in> set (runs s)" "?p q" by (auto simp: filter_empty_conv)
    with only have "?p r" by blast
    from receipt_of_result [OF x] obtain r' where "t = s3" and r': "r' \<in> set (runs s3)" "run_session r' = k"
      "result_json r' = Some (receipt_json x)" "async_task r' = Some (receipt_task x)" by blast
    from r'(1) rows(1) obtain q' where q': "q' \<in> set (runs s)" "r' = (if ?p q' then ?f q' else q')"
      by (auto simp: map_where_def)
    from q'(2) r'(2) have "run_session q' = k" by (cases "?p q'") simp_all
    with only q' \<open>?p r\<close> have "r' = ?f r" by auto
    with r'(3,4) \<open>?p r\<close> x \<open>t = s3\<close> tokens show ?thesis by (auto simp: answered_def)
  qed
qed

lemma answered_commit_again:
  assumes "answered c k x tokens s" and "store_ok s" and "commit_async_provider_success c now k tid toks json s = (Inr y, t)"
  shows "y = x \<and> t = s \<and> json = receipt_json x \<and> encode_tokens c toks = tokens \<and> tid = receipt_task x"
  using assms(1,3)
  by (auto simp: commit_async_provider_success_def store_run Let_def answered_def sm_bind_def [of "receipt_of c k"] sm_return_def
      split: if_splits option.splits sum.splits)

text \<open>C15. The first committed answer of the provider is the answer: whatever is called afterwards, until the
  session is deleted the receipt is read back with the same contents and the tokens that came with it,
  and a further commit either repeats it exactly or is refused.\<close>

theorem answer_is_durable:
  assumes "commit_async_provider_success c now k tid toks json s = (Inr x, s')" and "store_ok s"
    and "capture_path c s' ops t" and "DeleteSession k \<notin> set ops"
  shows "\<exists>st. fst (get_async_provider_receipt c k tid t) = Inr (Some (x\<lparr>receipt_search := st\<rparr>)) \<and>
    receipt_json x = json \<and> find_tokens k t = Some (encode_tokens c toks) \<and>
    fst (commit_async_provider_success c now' k tid' toks' json' t) \<in>
      range Inl \<union> (if json' = json \<and> tid' = tid \<and> encode_tokens c toks' = encode_tokens c toks
        then {Inr (x\<lparr>receipt_search := st\<rparr>)} else {})"
proof -
  have first: "answered c k x (encode_tokens c toks) s'" "receipt_task x = tid" "receipt_json x = json"
    using commit_success [OF assms(1,2)] by auto
  have "forward s s'" using commit_forward [of c now k tid toks json] assms(1) by (metis keepsD)
  with assms(2) have ok: "store_ok s'" by (rule forward_ok)
  from path_answered [OF assms(3) ok first(1) assms(4)] obtain st where
    later: "answered c k (x\<lparr>receipt_search := st\<rparr>) (encode_tokens c toks) t" by blast
  have "store_ok t" using assms(3) ok by (rule path_ok)
  note again = answered_commit_again [OF later this, of now' tid' toks' json']
  obtain r u where run: "commit_async_provider_success c now' k tid' toks' json' t = (r, u)" by force
  have "require_nonempty k = Inr ()" "require_nonempty tid = Inr ()"
    using assms(1) by (auto simp: commit_async_provider_success_def store_run split: sum.splits)
  then have "fst (get_async_provider_receipt c k tid t) = Inr (Some (x\<lparr>receipt_search := st\<rparr>))"
    using later first(2) by (simp add: get_async_provider_receipt_def store_run answered_def sm_bind_def [of "receipt_of c k"]
        sm_return_def)
  moreover have "find_tokens k t = Some (encode_tokens c toks)" using later by (simp add: answered_def)
  moreover have "r \<in> range Inl \<union> (if json' = json \<and> tid' = tid \<and> encode_tokens c toks' = encode_tokens c toks
        then {Inr (x\<lparr>receipt_search := st\<rparr>)} else {})"
    using again run first by (cases r) auto
  ultimately show ?thesis using run first(3) by (intro exI [of _ st]) simp
qed

end
