(* ===== verification/Capture_Pipeline.thy ===== *)
theory Capture_Pipeline
  imports Capture_Receipt
begin

text \<open>
  The way of a recording from the consent to transcribe it to the finished transcript: each call of
  the way succeeds on the row the previous one left, as long as the session is not being deleted.
\<close>

lemma run_return [store_run]: "sm_return a s = (Inr a, s)"
  by (simp add: sm_return_def)

lemma run_require [store_run]:
  "require_session k s = (case find_session k s of None \<Rightarrow> (Inl CaptureNotFound, s) | Some r \<Rightarrow> (Inr r, s))"
  "require_run i s = (case find_run i s of None \<Rightarrow> (Inl CaptureNotFound, s) | Some r \<Rightarrow> (Inr r, s))"
  by (simp_all add: require_session_def require_run_def sm_defs split: option.split)

section \<open>One row\<close>

definition put_row :: "run \<Rightarrow> capture_store \<Rightarrow> capture_store" where
  "put_row r' s = s\<lparr>runs := map_where (\<lambda>r. run_session r = run_session r') (\<lambda>_. r') (runs s)\<rparr>"

definition stands_at :: "run \<Rightarrow> capture_store \<Rightarrow> bool" where
  "stands_at r s \<longleftrightarrow> store_ok s \<and> r \<in> set (runs s) \<and> \<not> is_active (run_capture r) \<and>
     \<not> session_purge_job_exists (run_session r) s"

lemma stands_found:
  assumes "stands_at r s"
  shows "find_session (run_session r) s = Some r" "find_run (run_id r) s = Some r"
    "session_purge_job_exists (run_session r) s = False"
  using assms session_row [of s r] find_key [of run_id "runs s" r]
  by (simp_all add: stands_at_def store_ok_def find_run_def)

lemma put_row_simps [simp]:
  "purge_jobs (put_row r s) = purge_jobs s" "metas (put_row r s) = metas s" "search_index (put_row r s) = search_index s"
  "find_tokens k (put_row r s) = find_tokens k s" "chunks (put_row r s) = chunks s" "gaps (put_row r s) = gaps s"
  "session_purge_job_exists k (put_row r s) = session_purge_job_exists k s"
  by (simp_all add: put_row_def find_tokens_def session_purge_job_exists_def)

lemma execute_put:
  assumes "stands_at r s" and "p r" and "\<And>q. q \<in> set (runs s) \<Longrightarrow> p q \<Longrightarrow> run_session q = run_session r"
    and "row_le r (f r)" and "row_check (f r)" and "row_update_ok r (f r)"
  shows "execute_runs p f s = (Inr 1, put_row (f r) s) \<and> stands_at (f r) (put_row (f r) s)"
proof -
  have ok: "store_ok s" and r: "r \<in> set (runs s)" using assms(1) by (simp_all add: stands_at_def)
  have same: "p q \<longleftrightarrow> q = r" if "q \<in> set (runs s)" for q
    using that r assms(2,3) session_row [OF ok] by (metis option.inject)
  have session: "run_session (f r) = run_session r" and quiet: "\<not> is_active (run_capture (f r))"
    using assms(1,4) by (auto simp: row_le_def same_identity_def stands_at_def)
  have rows: "map_where p f (runs s) = map_where (\<lambda>q. run_session q = run_session (f r)) (\<lambda>_. f r) (runs s)"
    unfolding map_where_def using same session session_row [OF ok] r by (auto intro!: map_cong) (metis option.inject)+
  have le: "list_all2 row_le (runs s) (map_where p f (runs s))"
    using assms(4) same unfolding map_where_def list_all2_map2 by (intro list.rel_refl_strong) auto
  have one: "filter p (runs s) = [r]"
  proof -
    have "filter p (runs s) = filter (\<lambda>q. run_session q = run_session r) (runs s)"
      using same r session_row [OF ok] by (intro filter_cong) (auto, metis option.inject)
    moreover have "filter (\<lambda>q. run_session q = run_session r) rows = [r]" if "distinct (map run_session rows)" "r \<in> set rows" for rows
      using that by (induction rows) (auto simp: filter_empty_conv, metis imageI)
    ultimately show ?thesis using ok r by (simp add: store_ok_def)
  qed
  have "list_all (\<lambda>q. p q \<longrightarrow> row_check (f q) \<and> row_update_ok q (f q)) (runs s)"
    using same assms(5,6) by (auto simp: list_all_iff)
  moreover have "length (active_rows (map_where p f (runs s))) \<le> 1"
    using row_le_parts(3) [OF le] ok by (simp add: store_ok_def)
  ultimately have run: "execute_runs p f s = (Inr 1, put_row (f r) s)"
    by (simp add: execute_runs_def one put_row_def rows)
  moreover have "forward s (put_row (f r) s)"
  proof -
    have "runs (put_row (f r) s) = map_where p f (runs s)" by (simp add: put_row_def rows)
    moreover have "list_all row_check (map_where p f (runs s))"
      using ok assms(5) same by (auto simp: store_ok_def list_all_iff map_where_def)
    ultimately show ?thesis using le by (simp add: rows_rel_def)
  qed
  then have "store_ok (put_row (f r) s)" by (rule forward_ok [OF ok])
  moreover have "f r \<in> set (runs (put_row (f r) s))" using r session by (auto simp: put_row_def map_where_def)
  ultimately show ?thesis using assms(1) session quiet by (simp add: stands_at_def)
qed

lemma update_put:
  assumes "stands_at r s" and "p r" and "\<And>q. q \<in> set (runs s) \<Longrightarrow> p q \<Longrightarrow> run_session q = run_session r"
    and "row_le r (f r)" and "row_check (f r)" and "row_update_ok r (f r)"
  shows "sm_then (update_or e p f) m s = m (put_row (f r) s)" "stands_at (f r) (put_row (f r) s)"
    "sm_bind (execute_runs p f) g s = g 1 (put_row (f r) s)"
proof -
  have "execute_runs p f s = (Inr 1, put_row (f r) s) \<and> stands_at (f r) (put_row (f r) s)"
    by (rule execute_put) (use assms in simp_all)
  then show "sm_then (update_or e p f) m s = m (put_row (f r) s)" "stands_at (f r) (put_row (f r) s)"
    "sm_bind (execute_runs p f) g s = g 1 (put_row (f r) s)" by (simp_all add: update_or_def sm_defs)
qed

text \<open>The row a session has, or the row with an id, is the one we are at.\<close>

lemma stands_only:
  assumes "stands_at r s" and "q \<in> set (runs s)"
  shows "run_id q = run_id r \<Longrightarrow> run_session q = run_session r"
  using assms find_key [of run_id "runs s" r] find_key [of run_id "runs s" q] by (simp add: stands_at_def store_ok_def)

section \<open>The calls\<close>

lemma last_trim: "trim s \<noteq> [] \<Longrightarrow> \<not> is_whitespace (last (trim s))"
  by (simp add: trim_def last_rev hd_dropWhile del: dropWhile_eq_Nil_conv)

lemma blank_trim: "sql_blank s \<Longrightarrow> trim s = []"
proof -
  assume "sql_blank s"
  then have "\<forall>c \<in> set s. is_whitespace c" by (auto simp: sql_blank_def list_all_iff is_whitespace_def)
  then show ?thesis by (auto simp: trim_def dest: set_dropWhileD)
qed

lemma hint_not_blank: "trimmed_hint hint = Some h \<Longrightarrow> \<not> sql_blank h"
proof -
  assume "trimmed_hint hint = Some h"
  then obtain g where "h = trim g" "trim g \<noteq> []" by (auto simp: trimmed_hint_def split: option.splits if_splits)
  then have "last h \<in> set h" "\<not> is_whitespace (last h)" using last_trim by auto
  then show ?thesis by (auto simp: sql_blank_def list_all_iff is_whitespace_def)
qed

lemma nonempty_ok: "trim v \<noteq> [] \<Longrightarrow> require_nonempty v = Inr ()"
  by (simp add: require_nonempty_def)

definition authorized :: "int \<Rightarrow> ustring option \<Rightarrow> run \<Rightarrow> run" where
  "authorized at_ms hint r = r\<lparr>run_async := AsyncPending, async_authorized := Some at_ms, async_hint := trimmed_hint hint\<rparr>"

lemma authorize_step:
  assumes "stands_at r s" and "trim (run_session r) \<noteq> []" and "0 < at_ms" and "\<And>h. trimmed_hint hint = Some h \<Longrightarrow> language_ok h"
    and "unauthorized (run_session r) r" and "has_retained_audio (run_session r) s"
  shows "authorize_async_transcription (run_session r) at_ms hint s =
      (Inr (authorized at_ms hint r), put_row (authorized at_ms hint r) s) \<and>
    stands_at (authorized at_ms hint r) (put_row (authorized at_ms hint r) s)"
proof -
  let ?r = "authorized at_ms hint r"
  note at = assms(1) stands_found [OF assms(1)]
  have "row_check r" using assms(1) by (simp add: stands_at_def store_ok_def list_all_iff)
  then have "row_check ?r" using assms(3,5) hint_not_blank
    by (simp add: authorized_def row_check_def async_receipt_ok_def output_ok_def unauthorized_def split: option.splits)
  moreover have "row_update_ok r ?r" using assms(5)
    by (simp add: authorized_def row_update_ok_def async_transition_def async_projection_transition_def task_settled_def unauthorized_def)
  moreover from calculation have "row_le r ?r" using assms(1)
    by (intro row_leI) (auto simp: authorized_def same_identity_def row_inv_def stands_at_def)
  ultimately have put: "sm_bind (execute_runs (unauthorized (run_session r)) (authorized at_ms hint)) g s = g 1 (put_row ?r s)"
      "stands_at ?r (put_row ?r s)" for g :: "nat \<Rightarrow> run cs"
    using update_put [OF assms(1), of "unauthorized (run_session r)" "authorized at_ms hint"] assms(5)
    by (simp_all add: unauthorized_def)
  have fold: "(\<lambda>r. r\<lparr>run_async := AsyncPending, async_authorized := Some at_ms, async_hint := trimmed_hint hint\<rparr>) =
      authorized at_ms hint" by (simp add: fun_eq_iff authorized_def)
  have "run_session ?r = run_session r" "run_async r = AsyncNone" "allows_post_stop_async (run_capture r)"
    using assms(5) by (simp_all add: authorized_def unauthorized_def)
  moreover have "(case trimmed_hint hint of None \<Rightarrow> sm_return () | Some l \<Rightarrow> sm_lift (validate_language l)) = sm_return ()"
    using assms(4) by (simp add: validate_language_def sm_lift_def split: option.split)
  ultimately show ?thesis using assms(2,3,6) at put stands_found [OF put(2)]
    unfolding authorize_async_transcription_def fold by (simp add: store_run nonempty_ok)
qed

lemma stands_row: "stands_at r s \<Longrightarrow> row_check r \<and> row_inv r \<and> \<not> is_active (run_capture r)"
  by (simp add: stands_at_def store_ok_def list_all_iff)

lemmas row_checks = row_check_def async_receipt_ok_def output_ok_def claim_ok_def row_update_ok_def async_transition_def
  async_projection_transition_def task_settled_def option_ok_def

definition reserved :: "ustring \<Rightarrow> ustring \<Rightarrow> run \<Rightarrow> run" where
  "reserved tid payload r = r\<lparr>run_async := AsyncReserved, async_task := Some tid, async_payload := Some payload\<rparr>"

lemma reserve_step:
  assumes "stands_at r s" and "trim (run_id r) \<noteq> []" "trim tid \<noteq> []" "is_sha256_hex payload"
    and "allows_post_stop_async (run_capture r)" "run_async r = AsyncPending"
  shows "reserve_async_task (run_id r) tid payload s = (Inr (reserved tid payload r), put_row (reserved tid payload r) s) \<and>
    stands_at (reserved tid payload r) (put_row (reserved tid payload r) s)"
proof -
  let ?r = "reserved tid payload r"
  note row = stands_row [OF assms(1)]
  have ids: "run_session ?r = run_session r" "run_id ?r = run_id r" by (simp_all add: reserved_def)
  have ok: "row_check ?r" "row_update_ok r ?r"
    using row assms(2-6) blank_trim [of tid] by (auto simp: reserved_def row_checks split: option.splits)
  have "row_le r ?r" using ok row by (intro row_leI) (auto simp: reserved_def same_identity_def row_inv_def)
  moreover have "async_task r = None" "async_payload r = None" using row assms(6) by (auto simp: row_checks)
  ultimately have put: "sm_then (update_or CaptureConflict (\<lambda>q. run_id q = run_id r \<and> allows_post_stop_async (run_capture q) \<and>
        run_async q = AsyncPending \<and> async_task q = None \<and> async_payload q = None) (reserved tid payload)) m s = m (put_row ?r s)"
      "stands_at ?r (put_row ?r s)" for m :: "run cs"
    using assms ok stands_only [OF assms(1)] by (intro update_put; simp)+
  have fold: "(\<lambda>r. r\<lparr>run_async := AsyncReserved, async_task := Some tid, async_payload := Some payload\<rparr>) = reserved tid payload"
    by (simp add: fun_eq_iff reserved_def)
  show ?thesis using assms(2-6) put stands_found [OF assms(1)] stands_found [OF put(2)] ids
    unfolding reserve_async_task_def fold by (simp add: store_run nonempty_ok validate_sha256_hex_def)
qed

definition enqueued :: "run \<Rightarrow> run" where
  "enqueued r = r\<lparr>run_async := AsyncEnqueued\<rparr>"

lemma enqueue_step:
  assumes "stands_at r s" and "trim (run_id r) \<noteq> []" "trim tid \<noteq> []"
    and "run_async r = AsyncReserved" "async_task r = Some tid"
  shows "mark_async_task_enqueued (run_id r) tid s = (Inr (enqueued r), put_row (enqueued r) s) \<and>
    stands_at (enqueued r) (put_row (enqueued r) s)"
proof -
  let ?r = "enqueued r"
  note row = stands_row [OF assms(1)]
  have ids: "run_session ?r = run_session r" "run_id ?r = run_id r" by (simp_all add: enqueued_def)
  have ok: "row_check ?r" "row_update_ok r ?r"
    using row assms(4,5) by (auto simp: enqueued_def row_checks split: option.splits)
  have "row_le r ?r" using ok row by (intro row_leI) (auto simp: enqueued_def same_identity_def row_inv_def)
  moreover have payload: "async_payload r \<noteq> None" using row assms(4) by (auto simp: row_checks option_ok_def split: option.splits)
  ultimately have put: "sm_then (update_or CaptureConflict (\<lambda>q. run_id q = run_id r \<and> run_async q = AsyncReserved \<and>
        async_task q = Some tid \<and> async_payload q \<noteq> None) enqueued) m s = m (put_row ?r s)"
      "stands_at ?r (put_row ?r s)" for m :: "run cs"
    using assms ok stands_only [OF assms(1)] by (intro update_put; simp)+
  have fold: "(\<lambda>r. r\<lparr>run_async := AsyncEnqueued\<rparr>) = enqueued" by (simp add: fun_eq_iff enqueued_def)
  show ?thesis using assms(2-5) put payload stands_found [OF assms(1)] stands_found [OF put(2)] ids
    unfolding mark_async_task_enqueued_def fold by (simp add: store_run nonempty_ok)
qed

definition claimed :: "run \<Rightarrow> run" where
  "claimed = set_claim PostStop SONIOX_PROVIDER_ID SONIOX_STT_ASYNC_V5_MODEL_ID"

lemma claim_step:
  assumes "stands_at r s" and "trim (run_session r) \<noteq> []" and "allows_post_stop_async (run_capture r)"
    and "claim_of PostStop r = (None, None)"
  shows "claim_provider_provenance (run_session r) PostStop SONIOX_PROVIDER_ID SONIOX_STT_ASYNC_V5_MODEL_ID s =
      (Inr (claimed r), put_row (claimed r) s) \<and> stands_at (claimed r) (put_row (claimed r) s)"
proof -
  let ?r = "claimed r"
  note row = stands_row [OF assms(1)]
  have ids: "run_session ?r = run_session r" "run_id ?r = run_id r" by (simp_all add: claimed_def set_claim_def)
  have names: "trim SONIOX_PROVIDER_ID \<noteq> []" "trim SONIOX_STT_ASYNC_V5_MODEL_ID \<noteq> []"
    by (simp_all add: SONIOX_PROVIDER_ID_def SONIOX_STT_ASYNC_V5_MODEL_ID_def lit_def trim_def is_whitespace_def)
  have ok: "row_check ?r" "row_update_ok r ?r"
  proof -
    have "async_receipt_ok ?r = async_receipt_ok r" by (simp add: async_receipt_ok_def claimed_def set_claim_def)
    with row assms(4) show "row_check ?r" "row_update_ok r ?r"
      by (auto simp: claimed_def set_claim_def claim_of_def row_check_def claim_ok_def output_ok_def row_update_ok_def
          async_transition_def async_projection_transition_def option_ok_def split: option.splits)
  qed
  have "row_le r ?r" using ok row by (intro row_leI) (auto simp: claimed_def set_claim_def same_identity_def row_inv_def)
  then have put: "sm_then (update_or CaptureConflict (\<lambda>q. run_session q = run_session r \<and> claim_eligible PostStop q \<and>
        claim_of PostStop q = (None, None)) claimed) m s = m (put_row ?r s)"
      "stands_at ?r (put_row ?r s)" for m :: "run cs"
    using assms ok by (intro update_put; simp add: claim_eligible_def)+
  show ?thesis using assms(2-4) put stands_found [OF assms(1)] stands_found [OF put(2)] ids names
    unfolding claim_provider_provenance_def claimed_def [symmetric]
    by (simp add: store_run nonempty_ok role_model_def claim_eligible_def)
qed

text \<open>The commit: the codec reads back what it writes, and the answer has the shape of one.\<close>

definition committed :: "'tok codec \<Rightarrow> ustring \<Rightarrow> 'tok list \<Rightarrow> ustring \<Rightarrow> ustring \<Rightarrow> run \<Rightarrow> run" where
  "committed c now toks json tid r =
     r\<lparr>output_sha := Some (async_provider_output_digest c
           [run_session r, tid, SONIOX_PROVIDER_ID, SONIOX_STT_ASYNC_V5_MODEL_ID, encode_tokens c toks, json]),
       result_json := Some json, provider_completed := Some now, search_state := SearchPending\<rparr>"

lemma stands_metas: "stands_at r s \<Longrightarrow> stands_at r (s\<lparr>metas := ms\<rparr>)"
  by (simp add: stands_at_def store_ok_def session_purge_job_exists_def)

lemma store_tokens_ok:
  assumes "\<not> has_receipt k s"
  shows "\<exists>ms. store_tokens k json s = (Inr (), s\<lparr>metas := ms\<rparr>) \<and> find_tokens k (s\<lparr>metas := ms\<rparr>) = Some json"
proof -
  from assms have "\<exists>ms. store_tokens k json s = (Inr (), s\<lparr>metas := ms\<rparr>)"
    by (auto simp: store_tokens_def has_receipt_def)
  with store_tokens_result show ?thesis by blast
qed

lemma commit_step:
  assumes "stands_at r s" and "trim (run_session r) \<noteq> []" "trim tid \<noteq> []" "trim now \<noteq> []"
    and "run_async r = AsyncEnqueued" "async_task r = Some tid" "output_sha r = None"
    and "post_stop_provider r = Some SONIOX_PROVIDER_ID" "post_stop_model r = Some SONIOX_STT_ASYNC_V5_MODEL_ID"
    and "result_shape_ok c (run_session r) (length toks) json" and "decode_tokens c (encode_tokens c toks) = Some toks"
    and "is_sha256_hex (sha256_hex c (digest_input
      [run_session r, tid, SONIOX_PROVIDER_ID, SONIOX_STT_ASYNC_V5_MODEL_ID, encode_tokens c toks, json]))"
  shows "\<exists>x ms. commit_async_provider_success c now (run_session r) tid toks json s =
      (Inr x, put_row (committed c now toks json tid r) (s\<lparr>metas := ms\<rparr>)) \<and>
    output_sha (committed c now toks json tid r) = Some (receipt_sha x) \<and>
    find_tokens (run_session r) (s\<lparr>metas := ms\<rparr>) = Some (encode_tokens c toks) \<and>
    stands_at (committed c now toks json tid r) (put_row (committed c now toks json tid r) (s\<lparr>metas := ms\<rparr>))"
proof -
  let ?k = "run_session r" and ?r = "committed c now toks json tid r" and ?tj = "encode_tokens c toks"
  let ?sha = "async_provider_output_digest c [?k, tid, SONIOX_PROVIDER_ID, SONIOX_STT_ASYNC_V5_MODEL_ID, ?tj, json]"
  note row = stands_row [OF assms(1)]
  have ids: "run_session ?r = ?k" "run_id ?r = run_id r" by (simp_all add: committed_def)
  have none: "\<not> has_receipt ?k s"
  proof
    assume "has_receipt ?k s"
    then obtain q where q: "q \<in> set (runs s)" "run_session q = ?k" "output_sha q \<noteq> None" by (auto simp: has_receipt_row)
    then have "q = r" using session_row [of s q] stands_found(1) [OF assms(1)] assms(1) by (simp add: stands_at_def)
    with q(3) assms(7) show False by simp
  qed
  then obtain ms where tokens: "store_tokens ?k ?tj s = (Inr (), s\<lparr>metas := ms\<rparr>)" "find_tokens ?k (s\<lparr>metas := ms\<rparr>) = Some ?tj"
    using store_tokens_ok by blast
  let ?s = "s\<lparr>metas := ms\<rparr>"
  have at: "stands_at r ?s" using assms(1) by (rule stands_metas)
  have ok: "row_check ?r" "row_update_ok r ?r"
    using row assms(5-9,12) by (auto simp: committed_def row_checks async_provider_output_digest_def split: option.splits)
  have "row_le r ?r" using ok row assms(7) by (intro row_leI) (auto simp: committed_def same_identity_def row_inv_def)
  then have put: "sm_then (update_or CaptureConflict (\<lambda>q. run_session q = ?k \<and> run_async q = AsyncEnqueued \<and>
        async_task q = Some tid \<and> output_sha q = None)
        (\<lambda>q. q\<lparr>output_sha := Some ?sha, result_json := Some json, provider_completed := Some now, search_state := SearchPending\<rparr>)) m ?s =
          m (put_row ?r ?s)"
      "stands_at ?r (put_row ?r ?s)" for m :: "receipt cs"
    unfolding committed_def
    using at ok assms(5-7) by (intro update_put; simp add: committed_def)+
  have "find (\<lambda>r. run_session r = ?k \<and> output_sha r \<noteq> None) (runs (put_row ?r ?s)) = Some ?r"
    using put(2) find_session_where [of "runs (put_row ?r ?s)" ?r "\<lambda>r. output_sha r \<noteq> None"] ids
    by (simp add: stands_at_def store_ok_def committed_def)
  moreover have "validate_receipt_fields c ?k tid SONIOX_PROVIDER_ID SONIOX_STT_ASYNC_V5_MODEL_ID ?sha json ?tj now"
    using assms(2-4,10-12) by (simp add: validate_receipt_fields_def supported_model_def async_provider_output_digest_def)
  then have "validate_async_provider_receipt c ?r (Some ?tj) =
      Inr \<lparr>receipt_session = ?k, receipt_task = tid, receipt_provider = SONIOX_PROVIDER_ID,
        receipt_model = SONIOX_STT_ASYNC_V5_MODEL_ID, receipt_sha = ?sha, receipt_json = json,
        receipt_search = SearchPending, receipt_completed = now\<rparr>"
    using assms(6,8,9) by (simp add: validate_async_provider_receipt_def committed_def)
  ultimately have read: "\<exists>x. receipt_of c ?k (put_row ?r ?s) = (Inr (Some x), put_row ?r ?s) \<and> output_sha ?r = Some (receipt_sha x)"
    using tokens(2) by (simp add: receipt_of_eq) (simp add: committed_def)
  have unread: "receipt_of c ?k s = (Inr None, s)"
    using none by (auto simp: receipt_of_eq has_receipt_row dest!: find_member split: option.split)
  have provenance: "claimed_post_stop r = Inr (SONIOX_PROVIDER_ID, SONIOX_STT_ASYNC_V5_MODEL_ID)"
    using assms(8,9) by (simp add: claimed_post_stop_def supported_model_def)
  have "sm_then (store_tokens ?k ?tj) m s = m ?s" for m :: "receipt cs" using tokens(1) by (simp add: sm_defs)
  moreover have "sm_bind (receipt_of c ?k) g s = g None s" for g :: "receipt option \<Rightarrow> receipt cs" using unread by (simp add: sm_defs)
  moreover obtain x where x: "receipt_of c ?k (put_row ?r ?s) = (Inr (Some x), put_row ?r ?s)"
    "output_sha ?r = Some (receipt_sha x)" using read by blast
  then have "sm_bind (receipt_of c ?k) (sm_some CaptureCorrupt) (put_row ?r ?s) = (Inr x, put_row ?r ?s)"
    by (simp add: sm_defs)
  ultimately have "commit_async_provider_success c now ?k tid toks json s = (Inr x, put_row ?r ?s)"
    using assms(2,3,5,6,10) put(1) stands_found [OF assms(1)] provenance
    by (simp add: commit_async_provider_success_def store_run nonempty_ok Let_def)
  with put(2) tokens(2) x(2) show ?thesis by blast
qed

definition indexed :: "run \<Rightarrow> run" where
  "indexed r = r\<lparr>search_state := SearchReady\<rparr>"

lemma index_step:
  assumes "stands_at r s" and "async_task r = Some tid" "output_sha r = Some sha" "search_state r \<noteq> SearchNone"
  shows "replace_session_from_async_receipt (run_session r) tid sha body s =
      (Inr (), put_row (indexed r) (replace_session (run_session r) body s)) \<and>
    stands_at (indexed r) (put_row (indexed r) (replace_session (run_session r) body s))"
proof -
  let ?k = "run_session r" and ?r = "indexed r" and ?s = "replace_session (run_session r) body s"
  note row = stands_row [OF assms(1)]
  have at: "stands_at r ?s"
    using assms(1) by (simp add: stands_at_def store_ok_def replace_session_def session_purge_job_exists_def)
  have ok: "row_check ?r" "row_update_ok r ?r"
  proof -
    have "async_receipt_ok ?r = async_receipt_ok r" by (simp add: async_receipt_ok_def indexed_def)
    with row assms(3,4) show "row_check ?r" "row_update_ok r ?r"
      by (auto simp: indexed_def row_check_def output_ok_def row_update_ok_def async_transition_def
          async_projection_transition_def)
  qed
  have states: "search_state r \<in> {SearchPending, SearchFailed, SearchReady}" using assms(4) by (cases "search_state r") auto
  have "row_le r ?r" using ok row by (intro row_leI) (auto simp: indexed_def same_identity_def row_inv_def)
  then have put: "sm_bind (execute_runs (\<lambda>q. run_session q = ?k \<and> async_task q = Some tid \<and> output_sha q = Some sha \<and>
        search_state q \<in> {SearchPending, SearchFailed, SearchReady}) indexed) g ?s = g 1 (put_row ?r ?s)"
      "stands_at ?r (put_row ?r ?s)" for g :: "nat \<Rightarrow> unit cs"
    using at ok assms(2,3) states by (intro update_put; simp)+
  have fold: "(\<lambda>r. r\<lparr>search_state := SearchReady\<rparr>) = indexed" by (simp add: fun_eq_iff indexed_def)
  have "r \<in> set (runs s)" "distinct (map run_session (runs s))" using assms(1) by (simp_all add: stands_at_def store_ok_def)
  then have "find (\<lambda>q. run_session q = ?k \<and> output_sha q \<noteq> None) (runs s) = Some r"
    using find_session_where [of "runs s" r "\<lambda>q. output_sha q \<noteq> None"] assms(3) by simp
  with assms(2,3) states put stands_found [OF assms(1)] show ?thesis
    unfolding replace_session_from_async_receipt_def fold by (simp add: store_run del: insert_iff)
qed

definition settled :: "run \<Rightarrow> run" where
  "settled r = r\<lparr>run_async := AsyncCompleted, async_projection := AProjPending\<rparr>"

lemma terminal_step:
  assumes "stands_at r s" and "trim (run_session r) \<noteq> []" "trim tid \<noteq> []"
    and "run_async r = AsyncEnqueued" "async_task r = Some tid"
  shows "mark_async_task_terminal_for_session (run_session r) tid True s = (Inr (settled r), put_row (settled r) s) \<and>
    stands_at (settled r) (put_row (settled r) s)"
proof -
  let ?k = "run_session r" and ?r = "settled r"
  note row = stands_row [OF assms(1)]
  have ids: "run_session ?r = run_session r" "run_id ?r = run_id r" by (simp_all add: settled_def)
  have ok: "row_check ?r" "row_update_ok r ?r"
    using row assms(4,5) by (auto simp: settled_def row_checks split: option.splits)
  have "row_le r ?r" using ok row by (intro row_leI) (auto simp: settled_def same_identity_def row_inv_def)
  moreover have exact: "exact_task ?k AsyncEnqueued tid r" "\<not> exact_task ?k AsyncReserved tid r"
    using row assms(4,5) by (auto simp: exact_task_def row_checks split: option.splits)
  ultimately have put: "sm_then (update_or CaptureConflict (exact_task ?k AsyncEnqueued tid) settled) m s = m (put_row ?r s)"
      "stands_at ?r (put_row ?r s)" for m :: "run cs"
    using assms ok by (intro update_put; simp add: exact_task_def)+
  have fold: "(\<lambda>r. r\<lparr>run_async := AsyncCompleted,
      async_projection := if AsyncCompleted = AsyncCompleted then AProjPending else async_projection r\<rparr>) = settled"
    by (simp add: fun_eq_iff settled_def)
  show ?thesis using assms(2-5) put exact stands_found [OF assms(1)] stands_found [OF put(2)] ids
    unfolding mark_async_task_terminal_for_session_def Let_def if_True fold
    by (simp add: store_run nonempty_ok sm_when_def)
qed

definition projected :: "async_projection_state \<Rightarrow> run \<Rightarrow> run" where
  "projected p r = r\<lparr>async_projection := p\<rparr>"

lemma projected_put:
  assumes "stands_at r s" and "run_async r = AsyncCompleted" and "allows_post_stop_async (run_capture r)"
    and "valid_async_projection_transition (async_projection r) p"
  shows "sm_then (update_or e (async_projectable (run_id r) (async_projection r)) (projected p)) m s = m (put_row (projected p r) s)"
    "stands_at (projected p r) (put_row (projected p r) s)"
proof -
  let ?r = "projected p r"
  note row = stands_row [OF assms(1)]
  have ok: "row_check ?r" "row_update_ok r ?r"
  proof -
    have "async_receipt_ok ?r = async_receipt_ok r" "output_ok ?r = output_ok r"
      by (simp_all add: async_receipt_ok_def output_ok_def projected_def split: option.split)
    with row assms(2,4) show "row_check ?r" "row_update_ok r ?r"
      by (cases "async_projection r"; auto simp: projected_def row_check_def row_update_ok_def async_transition_def
          async_projection_transition_def)+
  qed
  have "row_le r ?r" using ok row by (intro row_leI) (auto simp: projected_def same_identity_def row_inv_def)
  then show "sm_then (update_or e (async_projectable (run_id r) (async_projection r)) (projected p)) m s = m (put_row ?r s)"
    "stands_at ?r (put_row ?r s)"
    using assms ok stands_only [OF assms(1)] by (intro update_put; simp add: async_projectable_def)+
qed

lemma projecting_step:
  assumes "stands_at r s" and "run_async r = AsyncCompleted" and "allows_post_stop_async (run_capture r)"
    and "valid_async_projection_transition (async_projection r) p"
  shows "set_async_projection_state (run_id r) (async_projection r) p s = (Inr (projected p r), put_row (projected p r) s) \<and>
    stands_at (projected p r) (put_row (projected p r) s)"
proof -
  note put = projected_put [OF assms]
  have "run_id (projected p r) = run_id r" by (simp add: projected_def)
  moreover have fold: "(\<lambda>r. r\<lparr>async_projection := p\<rparr>) = projected p" by (simp add: fun_eq_iff projected_def)
  ultimately show ?thesis using put(2) assms(4) stands_found [OF put(2)]
    unfolding set_async_projection_state_def fold by (simp add: store_run put(1))
qed

lemma ready_step:
  assumes "stands_at r s" and "trim (run_id r) \<noteq> []" and "run_async r = AsyncCompleted"
    and "allows_post_stop_async (run_capture r)" and "async_projection r = AProjecting"
  shows "\<exists>gs. complete_async_projection_unless_purging (run_id r) s = (Inr (), put_row (projected AProjReady r) s\<lparr>gaps := gs\<rparr>) \<and>
    list_all (\<lambda>g. gap_session g = run_session r \<longrightarrow> gap_repaired g) gs"
proof -
  note put = projected_put [OF assms(1,3,4), of AProjReady, unfolded assms(5)]
  have fold: "(\<lambda>r. r\<lparr>async_projection := AProjReady\<rparr>) = projected AProjReady" by (simp add: fun_eq_iff projected_def)
  let ?gs = "map_where (\<lambda>g. gap_session g = run_session r) (\<lambda>g. g\<lparr>gap_repaired := True\<rparr>) (gaps s)"
  have "complete_async_projection_unless_purging (run_id r) s = (Inr (), put_row (projected AProjReady r) s\<lparr>gaps := ?gs\<rparr>)"
    using stands_found [OF assms(1)] assms(2)
    unfolding complete_async_projection_unless_purging_def fold
    by (simp add: store_run nonempty_ok put(1)) (simp add: sm_modify_def)
  moreover have "list_all (\<lambda>g. gap_session g = run_session r \<longrightarrow> gap_repaired g) ?gs"
    by (auto simp: list_all_iff map_where_def)
  ultimately show ?thesis by blast
qed

section \<open>The whole way\<close>

text \<open>The calls as the application makes them, one after the other; the first that fails ends it.\<close>

definition transcribe ::
    "'tok codec \<Rightarrow> ustring \<Rightarrow> ustring \<Rightarrow> ustring \<Rightarrow> int \<Rightarrow> ustring option \<Rightarrow> ustring \<Rightarrow> ustring \<Rightarrow> 'tok list \<Rightarrow> ustring \<Rightarrow>
     ustring \<Rightarrow> unit cs" where
  "transcribe c now k i at_ms hint tid payload toks json body =
     sm_then (authorize_async_transcription k at_ms hint)
     (sm_then (reserve_async_task i tid payload)
     (sm_then (mark_async_task_enqueued i tid)
     (sm_then (claim_provider_provenance k PostStop SONIOX_PROVIDER_ID SONIOX_STT_ASYNC_V5_MODEL_ID)
     (sm_bind (commit_async_provider_success c now k tid toks json) (\<lambda>x.
      sm_then (replace_session_from_async_receipt k tid (receipt_sha x) body)
     (sm_then (mark_async_task_terminal_for_session k tid True)
     (sm_then (set_async_projection_state i AProjPending AProjecting)
      (complete_async_projection_unless_purging i))))))))"

text \<open>The first four calls.\<close>

definition asked :: "int \<Rightarrow> ustring option \<Rightarrow> ustring \<Rightarrow> ustring \<Rightarrow> run \<Rightarrow> run" where
  "asked at_ms hint tid payload r = claimed (enqueued (reserved tid payload (authorized at_ms hint r)))"

lemmas asked_defs = asked_def authorized_def reserved_def enqueued_def claimed_def set_claim_def

lemma ask_steps:
  assumes "stands_at r s" and "trim (run_session r) \<noteq> []" "trim (run_id r) \<noteq> []" "trim tid \<noteq> []" "0 < at_ms"
    and "\<And>h. trimmed_hint hint = Some h \<Longrightarrow> language_ok h"
    and "unauthorized (run_session r) r" and "has_retained_audio (run_session r) s" and "is_sha256_hex payload"
    and "claim_of PostStop r = (None, None)"
  shows "\<exists>r1 r2 r3 s1 s2 s3 s4. authorize_async_transcription (run_session r) at_ms hint s = (Inr r1, s1) \<and>
    reserve_async_task (run_id r) tid payload s1 = (Inr r2, s2) \<and> mark_async_task_enqueued (run_id r) tid s2 = (Inr r3, s3) \<and>
    claim_provider_provenance (run_session r) PostStop SONIOX_PROVIDER_ID SONIOX_STT_ASYNC_V5_MODEL_ID s3 =
      (Inr (asked at_ms hint tid payload r), s4) \<and> stands_at (asked at_ms hint tid payload r) s4"
proof -
  let ?k = "run_session r" and ?i = "run_id r"
  define r1 where "r1 = authorized at_ms hint r"
  define r2 where "r2 = reserved tid payload r1"
  define r3 where "r3 = enqueued r2"
  define r4 where "r4 = claimed r3"
  note defs = r1_def r2_def r3_def r4_def asked_defs
  have [simp]: "run_session r1 = ?k" "run_session r2 = ?k" "run_session r3 = ?k" "run_id r1 = ?i" "run_id r2 = ?i"
    and allowed: "allows_post_stop_async (run_capture r1)" "allows_post_stop_async (run_capture r3)"
    using assms(7) by (simp_all add: defs unauthorized_def)
  define s1 where "s1 = put_row r1 s"
  have 1: "authorize_async_transcription ?k at_ms hint s = (Inr r1, s1)" "stands_at r1 s1"
    using authorize_step [OF assms(1,2,5,6,7,8)] by (simp_all add: r1_def s1_def)
  define s2 where "s2 = put_row r2 s1"
  have 2: "reserve_async_task ?i tid payload s1 = (Inr r2, s2)" "stands_at r2 s2"
    using reserve_step [OF 1(2), of tid payload] assms(3,4,9) allowed(1) by (simp_all add: r2_def [symmetric] s2_def) (simp_all add: defs)
  define s3 where "s3 = put_row r3 s2"
  have 3: "mark_async_task_enqueued ?i tid s2 = (Inr r3, s3)" "stands_at r3 s3"
    using enqueue_step [OF 2(2), of tid] assms(3,4) by (simp_all add: r3_def [symmetric] s3_def) (simp_all add: defs)
  have 4: "claim_provider_provenance ?k PostStop SONIOX_PROVIDER_ID SONIOX_STT_ASYNC_V5_MODEL_ID s3 = (Inr r4, put_row r4 s3)"
    "stands_at r4 (put_row r4 s3)"
    using claim_step [OF 3(2)] assms(2,10) allowed(2) by (simp_all add: r4_def [symmetric]) (simp_all add: defs claim_of_def)
  have "asked at_ms hint tid payload r = r4" by (simp add: asked_def r4_def r3_def r2_def r1_def)
  with 1 2 3 4 show ?thesis by auto
qed

text \<open>C14. The way to the transcript has no dead end: from an ended recording whose audio is kept and for
  which nothing has been asked yet, each call of the way succeeds, whatever the identifiers, the hint
  and the answer are, and at its end the task is completed, the answer is stored and searchable, the
  transcript is ready and its gaps are repaired.\<close>

theorem transcription_completes:
  assumes "stands_at r s" and "trim (run_session r) \<noteq> []" "trim (run_id r) \<noteq> []" "trim tid \<noteq> []" "trim now \<noteq> []" "0 < at_ms"
    and "\<And>h. trimmed_hint hint = Some h \<Longrightarrow> language_ok h"
    and "unauthorized (run_session r) r" and "has_retained_audio (run_session r) s" and "is_sha256_hex payload"
    and "async_projection r = AProjNone" and "output_sha r = None" and "claim_of PostStop r = (None, None)"
    and "result_shape_ok c (run_session r) (length toks) json" and "decode_tokens c (encode_tokens c toks) = Some toks"
    and "\<And>bytes. is_sha256_hex (sha256_hex c bytes)"
  shows "\<exists>t r'. transcribe c now (run_session r) (run_id r) at_ms hint tid payload toks json body s = (Inr (), t) \<and>
    find_session (run_session r) t = Some r' \<and> run_async r' = AsyncCompleted \<and> async_projection r' = AProjReady \<and>
    result_json r' = Some json \<and> search_state r' = SearchReady \<and>
    find_tokens (run_session r) t = Some (encode_tokens c toks) \<and>
    texts_of (run_session r) t = [(run_session r, compose_thai_sara_am body)] \<and>
    list_all (\<lambda>g. gap_session g = run_session r \<longrightarrow> gap_repaired g) (gaps t)"
proof -
  let ?k = "run_session r" and ?i = "run_id r"
  define r4 where "r4 = asked at_ms hint tid payload r"
  obtain r1 r2 r3 s1 s2 s3 s4 where ask: "authorize_async_transcription ?k at_ms hint s = (Inr r1, s1)"
    "reserve_async_task ?i tid payload s1 = (Inr r2, s2)" "mark_async_task_enqueued ?i tid s2 = (Inr r3, s3)"
    "claim_provider_provenance ?k PostStop SONIOX_PROVIDER_ID SONIOX_STT_ASYNC_V5_MODEL_ID s3 = (Inr r4, s4)"
    and 4: "stands_at r4 s4"
    using ask_steps [of r s tid at_ms hint payload] assms unfolding r4_def by blast
  define r5 where "r5 = committed c now toks json tid r4"
  define r6 where "r6 = indexed r5"
  define r7 where "r7 = settled r6"
  define r8 where "r8 = projected AProjecting r7"
  define r9 where "r9 = projected AProjReady r8"
  note defs = r4_def r5_def r6_def r7_def r8_def r9_def asked_defs committed_def indexed_def settled_def projected_def
  have [simp]: "run_session r4 = ?k" "run_session r5 = ?k" "run_session r6 = ?k" "run_session r8 = ?k" "run_session r9 = ?k"
    "run_id r7 = ?i" "run_id r8 = ?i"
    and allowed: "allows_post_stop_async (run_capture r7)" "allows_post_stop_async (run_capture r8)"
    using assms(8) by (simp_all add: defs unauthorized_def)
  have "\<exists>x ms. commit_async_provider_success c now ?k tid toks json s4 = (Inr x, put_row r5 (s4\<lparr>metas := ms\<rparr>)) \<and>
      output_sha r5 = Some (receipt_sha x) \<and> find_tokens ?k (s4\<lparr>metas := ms\<rparr>) = Some (encode_tokens c toks) \<and>
      stands_at r5 (put_row r5 (s4\<lparr>metas := ms\<rparr>))"
    using commit_step [OF 4, of tid now c toks json] assms(2,4,5,12,14,15,16)
    by (simp add: r5_def [symmetric]) (simp add: defs)
  then obtain x ms where 5: "commit_async_provider_success c now ?k tid toks json s4 = (Inr x, put_row r5 (s4\<lparr>metas := ms\<rparr>))"
    "output_sha r5 = Some (receipt_sha x)" "find_tokens ?k (s4\<lparr>metas := ms\<rparr>) = Some (encode_tokens c toks)"
    "stands_at r5 (put_row r5 (s4\<lparr>metas := ms\<rparr>))" by blast
  define s5 where "s5 = put_row r5 (s4\<lparr>metas := ms\<rparr>)"
  define s6 where "s6 = put_row r6 (replace_session ?k body s5)"
  have 6: "replace_session_from_async_receipt ?k tid (receipt_sha x) body s5 = (Inr (), s6)" "stands_at r6 s6"
    using index_step [OF 5(4), of tid "receipt_sha x" body] 5(2)
    by (simp_all add: r6_def [symmetric] s5_def [symmetric] s6_def) (simp_all add: defs)
  define s7 where "s7 = put_row r7 s6"
  have 7: "mark_async_task_terminal_for_session ?k tid True s6 = (Inr r7, s7)" "stands_at r7 s7"
    using terminal_step [OF 6(2), of tid] assms(2,4) by (simp_all add: r7_def [symmetric] s7_def) (simp_all add: defs)
  define s8 where "s8 = put_row r8 s7"
  have 8: "set_async_projection_state ?i AProjPending AProjecting s7 = (Inr r8, s8)" "stands_at r8 s8"
    using projecting_step [OF 7(2), of AProjecting] allowed(1) by (simp_all add: r8_def [symmetric] s8_def) (simp_all add: defs)
  have "\<exists>gs. complete_async_projection_unless_purging ?i s8 = (Inr (), put_row r9 s8\<lparr>gaps := gs\<rparr>) \<and>
      list_all (\<lambda>g. gap_session g = ?k \<longrightarrow> gap_repaired g) gs"
    using ready_step [OF 8(2)] assms(3) allowed(2) by (simp add: r9_def [symmetric]) (simp add: defs)
  then obtain gs where 9: "complete_async_projection_unless_purging ?i s8 = (Inr (), put_row r9 s8\<lparr>gaps := gs\<rparr>)"
    "list_all (\<lambda>g. gap_session g = ?k \<longrightarrow> gap_repaired g) gs" by blast
  let ?t = "put_row r9 s8\<lparr>gaps := gs\<rparr>"
  have "transcribe c now ?k ?i at_ms hint tid payload toks json body s = (Inr (), ?t)"
    by (simp add: transcribe_def sm_then_def sm_bind_def ask 5(1) [folded s5_def] 6(1) 7(1) 8(1) 9(1))
  moreover have "find_session ?k ?t = Some r9"
  proof -
    have "stands_at r9 (put_row r9 s8)"
      using projected_put(2) [OF 8(2), of AProjReady] allowed(2) by (simp add: r9_def [symmetric]) (simp add: defs)
    from stands_found(1) [OF this] show ?thesis by (simp add: find_session_def)
  qed
  moreover have "run_async r9 = AsyncCompleted" "async_projection r9 = AProjReady" "result_json r9 = Some json"
    "search_state r9 = SearchReady" by (simp_all add: defs)
  moreover have "find_tokens ?k ?t = Some (encode_tokens c toks)"
    using 5(3) by (simp add: s8_def s7_def s6_def s5_def find_tokens_def replace_session_def)
  moreover have "texts_of ?k ?t = [(?k, compose_thai_sara_am body)]"
    by (simp add: s8_def s7_def s6_def texts_of_def replace_session_def) (auto simp: filter_empty_conv)
  ultimately show ?thesis using 9(2) by auto
qed

section \<open>A concrete way\<close>

definition sample_payload :: ustring where
  "sample_payload = replicate 64 0x61"

definition sample_asked :: run where
  "sample_asked = asked 5 None (lit ''q'') sample_payload sample_row"

definition sample_answered :: run where
  "sample_answered = committed sample_codec (lit ''t'') [1, 2] (lit ''j'') (lit ''q'') sample_asked"

lemma sample_fine:
  "trim (lit ''s'') \<noteq> []" "trim (lit ''r'') \<noteq> []" "trim (lit ''q'') \<noteq> []" "trim (lit ''t'') \<noteq> []"
  "is_sha256_hex sample_payload" "is_sha256_hex (sha256_hex sample_codec bs)" "\<not> sql_blank (lit ''q'')"
  "result_shape_ok sample_codec (lit ''s'') (length [1, 2]) (lit ''j'')"
  "decode_tokens sample_codec (encode_tokens sample_codec ts) = Some ts"
  by (simp_all add: lit_def trim_def is_whitespace_def is_sha256_hex_def sample_payload_def sample_codec_def sql_blank_def
      result_shape_ok_def list_all_iff)

lemma sample_stands:
  "stands_at sample_row (store_with [sample_row] [])" "stands_at sample_asked (store_with [sample_asked] [])"
  "stands_at sample_answered (store_with [sample_answered] [])"
  using sample_fine
  by (simp_all add: stands_at_def store_ok_def active_rows_def sample_simps sample_asked_def sample_answered_def committed_def
      asked_defs trimmed_hint_def option_ok_def async_provider_output_digest_def)

theorem transcription_completes_witness:
  "\<exists>t r'. transcribe sample_codec (lit ''t'') (lit ''s'') (lit ''r'') 5 None (lit ''q'') sample_payload [1, 2] (lit ''j'') (lit ''b'')
      (store_with [sample_row] []) = (Inr (), t) \<and>
    find_session (lit ''s'') t = Some r' \<and> run_async r' = AsyncCompleted \<and> async_projection r' = AProjReady"
proof -
  have row: "run_session sample_row = lit ''s''" "run_id sample_row = lit ''r''" "unauthorized (lit ''s'') sample_row"
    "has_retained_audio (lit ''s'') (store_with [sample_row] [])" "async_projection sample_row = AProjNone"
    "output_sha sample_row = None" "claim_of PostStop sample_row = (None, None)"
    by (simp_all add: sample_simps unauthorized_def allows_post_stop_async_def has_retained_audio_def claim_of_def)
  have hint: "trimmed_hint None = Some h \<Longrightarrow> language_ok h" for h by (simp add: trimmed_hint_def)
  from transcription_completes [OF sample_stands(1), of "lit ''q''" "lit ''t''" 5 None sample_payload sample_codec "[1, 2]"
      "lit ''j''" "lit ''b''"] row sample_fine hint
  show ?thesis by auto
qed

theorem answer_is_durable_witness:
  "\<exists>x s' st. commit_async_provider_success sample_codec (lit ''t'') (lit ''s'') (lit ''q'') [1, 2] (lit ''j'')
      (store_with [sample_asked] []) = (Inr x, s') \<and>
    fst (get_async_provider_receipt sample_codec (lit ''s'') (lit ''q'') (perform sample_codec (Recover (lit ''u'')) s')) =
      Inr (Some (x\<lparr>receipt_search := st\<rparr>)) \<and> receipt_json x = lit ''j''"
proof -
  have row: "run_session sample_asked = lit ''s''" "run_async sample_asked = AsyncEnqueued" "async_task sample_asked = Some (lit ''q'')"
    "output_sha sample_asked = None" "post_stop_provider sample_asked = Some SONIOX_PROVIDER_ID"
    "post_stop_model sample_asked = Some SONIOX_STT_ASYNC_V5_MODEL_ID"
    by (simp_all add: sample_asked_def asked_defs sample_simps)
  from commit_step [OF sample_stands(2), of "lit ''q''" "lit ''t''" sample_codec "[1, 2]" "lit ''j''"] row sample_fine
  obtain x s' where run: "commit_async_provider_success sample_codec (lit ''t'') (lit ''s'') (lit ''q'') [1, 2] (lit ''j'')
      (store_with [sample_asked] []) = (Inr x, s')" by auto
  have path: "capture_path sample_codec s' [Recover (lit ''u'')] (perform sample_codec (Recover (lit ''u'')) s')"
    by (rule path_cons, simp, rule path_nil)
  have "store_ok (store_with [sample_asked] [])" using sample_stands(2) by (simp add: stands_at_def)
  from answer_is_durable [OF run this path, where now' = "lit ''t''" and tid' = "[]" and toks' = "[]" and json' = "[]"] run
  show ?thesis by auto
qed

theorem final_text_wins_witness:
  "\<exists>s'. replace_session_from_async_receipt (lit ''s'') (lit ''q'') sample_payload (lit ''b'') (store_with [sample_answered] []) =
      (Inr (), s') \<and>
    texts_of (lit ''s'') (perform sample_codec (IndexRealtime (lit ''s'') (lit ''late'')) s') =
      [(lit ''s'', compose_thai_sara_am (lit ''b''))]"
proof -
  have row: "run_session sample_answered = lit ''s''" "async_task sample_answered = Some (lit ''q'')"
    "output_sha sample_answered = Some sample_payload" "search_state sample_answered = SearchPending"
    by (simp_all add: sample_answered_def committed_def sample_asked_def asked_defs sample_simps sample_payload_def
        async_provider_output_digest_def sample_codec_def)
  from index_step [OF sample_stands(3), of "lit ''q''" sample_payload "lit ''b''"] row
  obtain s' where run: "replace_session_from_async_receipt (lit ''s'') (lit ''q'') sample_payload (lit ''b'')
      (store_with [sample_answered] []) = (Inr (), s')" by auto
  have path: "capture_path sample_codec s' [IndexRealtime (lit ''s'') (lit ''late'')]
      (perform sample_codec (IndexRealtime (lit ''s'') (lit ''late'')) s')"
    by (rule path_cons, simp, rule path_nil)
  have "store_ok (store_with [sample_answered] [])" using sample_stands(3) by (simp add: stands_at_def)
  from final_text_wins [OF run this path] run show ?thesis by auto
qed

end
