(* ===== verification/Audio_Cipher.thy ===== *)
theory Audio_Cipher
  imports Sync_Wire
begin

text \<open>
  Crate \<open>vt-crypto\<close>, \<open>encrypt.rs\<close> and \<open>decrypt.rs\<close>: sealed blocks, the file format of stored
  audio and its reader. AES-256-GCM (crate \<open>aes-gcm\<close>) and the nonces of the operating system are
  parameters: a \<open>cipher\<close> record, and a sequence of 12-byte nonces. What the code relies on of the
  cipher is \<open>aead_ok\<close>.
\<close>

section \<open>Sealed blocks\<close>

type_synonym session_key = bytes
type_synonym nonces = "nat \<Rightarrow> bytes"

record cipher =
  aead_encrypt :: "session_key \<Rightarrow> bytes \<Rightarrow> bytes \<Rightarrow> bytes option"
  aead_decrypt :: "session_key \<Rightarrow> bytes \<Rightarrow> bytes \<Rightarrow> bytes option"

datatype crypto_error = EncryptionFailed | DecryptionFailed

text \<open>The documented behaviour of AES-256-GCM: a message of less than 64 GiB is sealed with a tag of 16 bytes and opened again.\<close>

definition aead_limit :: nat where
  "aead_limit = 2 ^ 36 - 32"

definition aead_ok :: "cipher \<Rightarrow> bool" where
  "aead_ok c \<longleftrightarrow> (\<forall>key nonce p. length nonce = 12 \<longrightarrow> length p \<le> aead_limit \<longrightarrow>
     (\<exists>ct. aead_encrypt c key nonce p = Some ct \<and> length ct = length p + 16 \<and> aead_decrypt c key nonce ct = Some p))"

definition nonces_ok :: "nonces \<Rightarrow> bool" where
  "nonces_ok nonce \<longleftrightarrow> (\<forall>i. length (nonce i) = 12)"

definition encrypt_chunk :: "cipher \<Rightarrow> session_key \<Rightarrow> bytes \<Rightarrow> bytes \<Rightarrow> crypto_error + bytes" where
  "encrypt_chunk c key nonce plaintext =
     (case aead_encrypt c key nonce plaintext of
        None \<Rightarrow> Inl EncryptionFailed
      | Some ciphertext \<Rightarrow> Inr (nonce @ ciphertext))"

definition decrypt_chunk :: "cipher \<Rightarrow> session_key \<Rightarrow> bytes \<Rightarrow> crypto_error + bytes" where
  "decrypt_chunk c key data =
     (if length data < 12 then Inl DecryptionFailed
      else case aead_decrypt c key (take 12 data) (drop 12 data) of
        None \<Rightarrow> Inl DecryptionFailed
      | Some plaintext \<Rightarrow> Inr plaintext)"

lemma encrypt_chunk_ok:
  assumes "aead_ok c" and "length nonce = 12" and "length p \<le> aead_limit"
  obtains sealed where "encrypt_chunk c key nonce p = Inr sealed" and "length sealed = length p + 28"
    and "decrypt_chunk c key sealed = Inr p"
proof -
  obtain ct where "aead_encrypt c key nonce p = Some ct" and "length ct = length p + 16" and "aead_decrypt c key nonce ct = Some p"
    using assms unfolding aead_ok_def by blast
  with that [of "nonce @ ct"] assms(2) show thesis by (simp add: encrypt_chunk_def decrypt_chunk_def)
qed

text \<open>\<open>slice::chunks\<close> for a positive size.\<close>

function slices :: "nat \<Rightarrow> 'a list \<Rightarrow> 'a list list" where
  "slices n xs = (if xs = [] \<or> n = 0 then [] else take n xs # slices n (drop n xs))"
  by pat_completeness auto
termination by (relation "measure (\<lambda>(n, xs). length xs)") auto

declare slices.simps [simp del]

lemma slices_Nil [simp]: "slices n [] = []"
  by (simp add: slices.simps)

lemma slices_short: "xs \<noteq> [] \<Longrightarrow> length xs \<le> n \<Longrightarrow> slices n xs = [xs]"
  by (cases xs) (simp_all add: slices.simps [of n])

lemma slices_block: "length b = n \<Longrightarrow> 0 < n \<Longrightarrow> slices n (b @ xs) = b # slices n xs"
  by (subst slices.simps) auto

lemma concat_slices: "0 < n \<Longrightarrow> concat (slices n xs) = xs"
  by (induction n xs rule: slices.induct) (subst slices.simps, simp)

lemma slices_sizes: "b \<in> set (slices n xs) \<Longrightarrow> b \<noteq> [] \<and> length b \<le> n"
  by (induction n xs rule: slices.induct) (subst (asm) (2) slices.simps, auto split: if_splits)

section \<open>Files\<close>

definition CHUNK_SIZE :: nat where
  "CHUNK_SIZE = 64 * 1024"

text \<open>A length-prefixed record, the unit of the audio files and of the capture journal.\<close>

definition framed :: "bytes \<Rightarrow> bytes" where
  "framed sealed = to_le_bytes (of_nat (length sealed)) @ sealed"

fun encrypt_blocks :: "cipher \<Rightarrow> session_key \<Rightarrow> nonces \<Rightarrow> nat \<Rightarrow> bytes list \<Rightarrow> crypto_error + bytes" where
  "encrypt_blocks c key nonce i [] = Inr []"
| "encrypt_blocks c key nonce i (chunk # chunks) =
     (case encrypt_chunk c key (nonce i) chunk of
        Inl e \<Rightarrow> Inl e
      | Inr encrypted \<Rightarrow>
          (case encrypt_blocks c key nonce (Suc i) chunks of
             Inl e \<Rightarrow> Inl e
           | Inr rest \<Rightarrow> Inr (framed encrypted @ rest)))"

text \<open>What \<open>encrypt_to_file\<close> hands to \<open>std::fs::write\<close>.\<close>

definition encrypted_file :: "cipher \<Rightarrow> session_key \<Rightarrow> nonces \<Rightarrow> bytes \<Rightarrow> crypto_error + bytes" where
  "encrypted_file c key nonce data = encrypt_blocks c key nonce 0 (slices CHUNK_SIZE data)"

record decrypt_reader =
  file_data :: bytes
  file_offset :: nat
  buffer :: bytes
  buf_offset :: nat

definition new_reader :: "bytes \<Rightarrow> decrypt_reader" where
  "new_reader bs = \<lparr>file_data = bs, file_offset = 0, buffer = [], buf_offset = 0\<rparr>"

definition fill_buffer :: "cipher \<Rightarrow> session_key \<Rightarrow> decrypt_reader \<Rightarrow> (crypto_error + bool) \<times> decrypt_reader" where
  "fill_buffer c key r =
     (if file_offset r \<ge> length (file_data r) then (Inr False, r)
      else if file_offset r + 4 > length (file_data r) then (Inr False, r)
      else
        let chunk_len = unat (from_le_bytes (take 4 (drop (file_offset r) (file_data r))));
            r = r\<lparr>file_offset := file_offset r + 4\<rparr>
        in if file_offset r + chunk_len > length (file_data r) then (Inl DecryptionFailed, r)
           else
             let encrypted = take chunk_len (drop (file_offset r) (file_data r));
                 r = r\<lparr>file_offset := file_offset r + chunk_len\<rparr>
             in case decrypt_chunk c key encrypted of
                  Inl e \<Rightarrow> (Inl e, r)
                | Inr plain \<Rightarrow> (Inr True, r\<lparr>buffer := plain, buf_offset := 0\<rparr>))"

definition copy_out :: "nat \<Rightarrow> decrypt_reader \<Rightarrow> bytes \<times> decrypt_reader" where
  "copy_out n r =
     (let to_copy = min (length (buffer r) - buf_offset r) n
      in (take to_copy (drop (buf_offset r) (buffer r)), r\<lparr>buf_offset := buf_offset r + to_copy\<rparr>))"

text \<open>\<open>Read::read\<close> into a slice of length \<open>n\<close>: the bytes written into it.\<close>

definition read_some :: "cipher \<Rightarrow> session_key \<Rightarrow> nat \<Rightarrow> decrypt_reader \<Rightarrow> (crypto_error + bytes) \<times> decrypt_reader" where
  "read_some c key n r =
     (if buf_offset r \<ge> length (buffer r) then
        (case fill_buffer c key r of
           (Inl e, r) \<Rightarrow> (Inl e, r)
         | (Inr False, r) \<Rightarrow> (Inr [], r)
         | (Inr True, r) \<Rightarrow> apfst Inr (copy_out n r))
      else apfst Inr (copy_out n r))"

lemma fill_buffer_advances:
  "fill_buffer c key r = (Inr True, r') \<Longrightarrow> length (file_data r') = length (file_data r) \<and>
     file_offset r < file_offset r' \<and> file_offset r' \<le> length (file_data r)"
  by (auto simp: fill_buffer_def Let_def split: if_splits sum.splits)

text \<open>
  \<open>Read::read_to_end\<close> of the standard library: \<open>read\<close> into whatever spare capacity the vector has
  (\<open>sizes\<close>, never none) until it answers 0. Every step that is not the last one moves the file
  position or the position in the buffer, whatever the bytes and the cipher are.
\<close>

function read_to_end :: "cipher \<Rightarrow> session_key \<Rightarrow> (nat \<Rightarrow> nat) \<Rightarrow> nat \<Rightarrow> decrypt_reader \<Rightarrow> bytes \<Rightarrow> crypto_error + bytes" where
  "read_to_end c key sizes k r acc =
     (case read_some c key (Suc (sizes k)) r of
        (Inl e, r') \<Rightarrow> Inl e
      | (Inr bs, r') \<Rightarrow> if bs = [] then Inr acc else read_to_end c key sizes (Suc k) r' (acc @ bs))"
  by pat_completeness auto
termination
  by (relation "inv_image (less_than <*lex*> less_than)
      (\<lambda>(c, key, sizes, k, r, acc). (length (file_data r) - file_offset r, length (buffer r) - buf_offset r))")
    (force dest: fill_buffer_advances simp: read_some_def copy_out_def Let_def split: if_splits prod.splits sum.splits bool.splits)+

declare read_to_end.simps [simp del]

section \<open>Round trip\<close>

lemma CHUNK_SIZE_sealable: "length p \<le> CHUNK_SIZE \<Longrightarrow> length p \<le> aead_limit"
  by (simp add: CHUNK_SIZE_def aead_limit_def)

lemma word_length: "n < 2 ^ 32 \<Longrightarrow> unat (of_nat n :: 32 word) = n"
  by (simp add: unat_of_nat)

text \<open>What is left to be read of a reader that stands at the start of well formed blocks.\<close>

definition left_to_read :: "cipher \<Rightarrow> session_key \<Rightarrow> decrypt_reader \<Rightarrow> bytes list \<Rightarrow> bool" where
  "left_to_read c key r blocks \<longleftrightarrow> file_offset r \<le> length (file_data r) \<and>
     (\<exists>nonce i. nonces_ok nonce \<and> encrypt_blocks c key nonce i blocks = Inr (drop (file_offset r) (file_data r)))"

lemma encrypt_blocks_succeeds:
  assumes "aead_ok c" and "nonces_ok nonce" and "\<And>b. b \<in> set blocks \<Longrightarrow> length b \<le> CHUNK_SIZE"
  shows "\<exists>bs. encrypt_blocks c key nonce i blocks = Inr bs"
  using assms(3)
proof (induction blocks arbitrary: i)
  case (Cons b blocks)
  have "length b \<le> aead_limit" by (rule CHUNK_SIZE_sealable) (simp add: Cons.prems)
  then obtain sealed where "encrypt_chunk c key (nonce i) b = Inr sealed"
    using assms(1,2) encrypt_chunk_ok unfolding nonces_ok_def by metis
  moreover obtain bs where "encrypt_blocks c key nonce (Suc i) blocks = Inr bs" using Cons by fastforce
  ultimately show ?case by simp
qed simp

lemma fill_block:
  assumes "aead_ok c" and left: "left_to_read c key r (b # blocks)" and size: "length b \<le> CHUNK_SIZE"
  obtains r' where "fill_buffer c key r = (Inr True, r')" and "buffer r' = b" and "buf_offset r' = 0"
    and "left_to_read c key r' blocks"
proof -
  let ?rest = "drop (file_offset r) (file_data r)"
  obtain nonce i where n: "nonces_ok nonce" and enc: "encrypt_blocks c key nonce i (b # blocks) = Inr ?rest"
    using left by (auto simp: left_to_read_def)
  obtain sealed where sealed: "encrypt_chunk c key (nonce i) b = Inr sealed" "length sealed = length b + 28"
    "decrypt_chunk c key sealed = Inr b"
    using encrypt_chunk_ok [OF assms(1) _ CHUNK_SIZE_sealable [OF size]] n unfolding nonces_ok_def by metis
  then obtain more where more: "encrypt_blocks c key nonce (Suc i) blocks = Inr more" and rest: "?rest = framed sealed @ more"
    using enc by (auto split: sum.splits)
  define r' where "r' = r\<lparr>file_offset := file_offset r + 4 + length sealed, buffer := b, buf_offset := 0\<rparr>"
  have len: "length (file_data r) = file_offset r + (4 + length sealed + length more)"
    using arg_cong [OF rest, of length] left by (auto simp: framed_def left_to_read_def)
  have tail: "drop (file_offset r + k) (file_data r) = drop k (framed sealed @ more)" for k
    by (simp only: rest [symmetric] drop_drop add.commute)
  have four: "take 4 ?rest = to_le_bytes (of_nat (length sealed))" by (simp add: rest framed_def)
  have body: "take (length sealed) (drop (file_offset r + 4) (file_data r)) = sealed"
    by (simp add: tail [of 4] framed_def)
  have "unat (of_nat (length sealed) :: 32 word) = length sealed"
    by (rule word_length) (use size in \<open>simp add: sealed(2) CHUNK_SIZE_def\<close>)
  then have "fill_buffer c key r = (Inr True, r')"
    using len sealed(3) by (simp add: fill_buffer_def Let_def four body r'_def add.assoc)
  moreover have "left_to_read c key r' blocks"
    using n more len tail [of "4 + length sealed"] unfolding left_to_read_def r'_def
    by (auto simp: framed_def add.assoc intro!: exI [of _ nonce] exI [of _ "Suc i"])
  ultimately show thesis by (intro that) (simp_all add: r'_def)
qed

lemma fill_at_end: "left_to_read c key r [] \<Longrightarrow> fill_buffer c key r = (Inr False, r)"
  by (auto simp: left_to_read_def fill_buffer_def)

lemma left_to_read_buf_offset [simp]: "left_to_read c key (r\<lparr>buf_offset := k\<rparr>) blocks = left_to_read c key r blocks"
  by (simp add: left_to_read_def)

lemma read_to_end_rest:
  assumes "aead_ok c" and "left_to_read c key r blocks" and "\<And>b. b \<in> set blocks \<Longrightarrow> b \<noteq> [] \<and> length b \<le> CHUNK_SIZE"
  shows "read_to_end c key sizes k r acc = Inr (acc @ drop (buf_offset r) (buffer r) @ concat blocks)"
  using assms
proof (induction c key sizes k r acc arbitrary: blocks rule: read_to_end.induct)
  case (1 c key sizes k r acc)
  have copied: "fst (copy_out (Suc (sizes k)) r') @ drop (buf_offset (snd (copy_out (Suc (sizes k)) r'))) (buffer r') = drop (buf_offset r') (buffer r')"
    for r' by (simp add: copy_out_def Let_def) (metis append_take_drop_id drop_drop add.commute)
  have next_read: "read_to_end c key sizes k r acc = Inr (acc @ drop (buf_offset r') (buffer r') @ concat bs)"
    if r': "read_some c key (Suc (sizes k)) r = apfst Inr (copy_out (Suc (sizes k)) r')" and more: "buf_offset r' < length (buffer r')"
      and left: "left_to_read c key r' bs" and sizes: "\<And>b. b \<in> set bs \<Longrightarrow> b \<noteq> [] \<and> length b \<le> CHUNK_SIZE" for r' bs
  proof -
    obtain out r'' where out: "copy_out (Suc (sizes k)) r' = (out, r'')" by fastforce
    with more have "out \<noteq> []" "left_to_read c key r'' bs" "buffer r'' = buffer r'"
      using left by (auto simp: copy_out_def Let_def)
    moreover have "out @ drop (buf_offset r'') (buffer r'') = drop (buf_offset r') (buffer r')"
      using copied [of r'] out \<open>buffer r'' = buffer r'\<close> by simp
    ultimately show ?thesis
      using "1.IH" "1.prems"(1) sizes out r'
      by (subst read_to_end.simps) simp
  qed
  show ?case
  proof (cases "buf_offset r < length (buffer r)")
    case True
    with next_read [of r blocks] "1.prems" show ?thesis by (simp add: read_some_def)
  next
    case False
    show ?thesis
    proof (cases blocks)
      case Nil
      with False "1.prems" fill_at_end [of c key r] show ?thesis
        by (subst read_to_end.simps) (simp add: read_some_def)
    next
      case (Cons b bs)
      obtain r' where "fill_buffer c key r = (Inr True, r')" "buffer r' = b" "buf_offset r' = 0" "left_to_read c key r' bs"
        by (rule fill_block [of c key r b bs]) (use "1.prems" Cons in auto)
      with next_read [of r' bs] "1.prems"(3) Cons False show ?thesis by (simp add: read_some_def)
    qed
  qed
qed

lemma stored_audio_read:
  assumes "aead_ok c" and "nonces_ok nonce"
  shows "\<exists>bs. encrypted_file c key nonce data = Inr bs \<and> read_to_end c key sizes k (new_reader bs) acc = Inr (acc @ data)"
proof -
  have sizes: "b \<noteq> [] \<and> length b \<le> CHUNK_SIZE" if "b \<in> set (slices CHUNK_SIZE data)" for b
    using slices_sizes [OF that] .
  obtain bs where bs: "encrypted_file c key nonce data = Inr bs"
    using encrypt_blocks_succeeds [OF assms] sizes unfolding encrypted_file_def by blast
  then have "left_to_read c key (new_reader bs) (slices CHUNK_SIZE data)"
    using assms(2) by (auto simp: left_to_read_def new_reader_def encrypted_file_def)
  from read_to_end_rest [OF assms(1) this sizes, of sizes k acc] bs show ?thesis
    by (simp add: new_reader_def concat_slices CHUNK_SIZE_def)
qed

end
