(* ===== verification/Recording_Chunks.thy ===== *)
theory Recording_Chunks
  imports Audio_Cipher
begin

text \<open>
  Crate \<open>vt-pipeline\<close>, \<open>recording.rs\<close>: where the audio of a session lies on disk, the chunk
  files a recording ends as, and the two writers of them that need no journal. The disk is a map
  from paths to file contents; a path is the list of its components. Failures of the operating
  system are chosen by the caller of the model, together with the random values: a \<open>draw\<close>
  for every file written.
\<close>

section \<open>Sample formats\<close>

datatype stored_sample_format = F32 | S16

fun bytes_per_sample :: "stored_sample_format \<Rightarrow> nat" where
  "bytes_per_sample F32 = 4"
| "bytes_per_sample S16 = 2"

fun format_as_str :: "stored_sample_format \<Rightarrow> string" where
  "format_as_str F32 = ''f32''"
| "format_as_str S16 = ''s16''"

definition format_parse :: "string \<Rightarrow> stored_sample_format option" where
  "format_parse s = (if s = ''f32'' then Some F32 else if s = ''s16'' then Some S16 else None)"

lemma format_roundtrip: "format_parse (format_as_str f) = Some f"
  by (cases f) (simp_all add: format_parse_def)

lemma bytes_per_sample_pos [simp]: "0 < bytes_per_sample f"
  by (cases f) simp_all

definition bytes_per_frame :: "nat \<Rightarrow> stored_sample_format \<Rightarrow> nat" where
  "bytes_per_frame channels f = max channels 1 * bytes_per_sample f"

lemma bytes_per_frame_pos [simp]: "0 < bytes_per_frame channels f"
  by (simp add: bytes_per_frame_def max_def)

section \<open>Paths\<close>

type_synonym path = "ustring list"
type_synonym disk = "path \<rightharpoonup> bytes"

datatype recording_error = WriteFailed | InvalidAudio | JournalCorrupt

definition session_audio_dir :: "path \<Rightarrow> ustring \<Rightarrow> path" where
  "session_audio_dir data_dir session_id = data_dir @ [lit ''audio'', session_id]"

text \<open>\<open>{index:05}\<close>.\<close>

definition pad5 :: "nat \<Rightarrow> ustring" where
  "pad5 n = replicate (5 - length (nat_str n)) 48 @ nat_str n"

definition session_audio_chunk_path :: "path \<Rightarrow> ustring \<Rightarrow> nat \<Rightarrow> path" where
  "session_audio_chunk_path data_dir session_id index =
     session_audio_dir data_dir session_id @ [lit ''chunk.'' @ pad5 index @ lit ''.enc'']"

definition session_capture_journal_path :: "path \<Rightarrow> ustring \<Rightarrow> path" where
  "session_capture_journal_path data_dir session_id =
     session_audio_dir data_dir session_id @ [lit ''capture-journal.enc'']"

definition legacy_session_audio_chunk_path :: "path \<Rightarrow> ustring \<Rightarrow> nat \<Rightarrow> path" where
  "legacy_session_audio_chunk_path data_dir session_id index =
     data_dir @ [session_id @ lit ''.chunk.'' @ pad5 index @ lit ''.enc'']"

text \<open>\<open>Path::components\<close> of the standard library on Unix: parts between slashes, empty and \<open>.\<close> parts skipped, a leading slash or a leading \<open>.\<close> counted.\<close>

fun split_slash :: "ustring \<Rightarrow> ustring list" where
  "split_slash [] = [[]]"
| "split_slash (c # cs) =
     (if c = 0x2F then [] # split_slash cs
      else case split_slash cs of [] \<Rightarrow> [[c]] | p # ps \<Rightarrow> (c # p) # ps)"

definition component_count :: "ustring \<Rightarrow> nat" where
  "component_count s =
     (if starts_with s [0x2F] \<or> hd (split_slash s) = lit ''.'' then 1 else 0) +
     length (filter (\<lambda>p. p \<noteq> [] \<and> p \<noteq> lit ''.'') (split_slash s))"

definition require_session_id_path_component :: "ustring \<Rightarrow> recording_error + unit" where
  "require_session_id_path_component session_id =
     (if session_id \<noteq> [] \<and> session_id \<noteq> lit ''.'' \<and> session_id \<noteq> lit ''..'' \<and>
         \<not> contains session_id [0x2F] \<and> \<not> contains session_id [0x5C] \<and> \<not> contains session_id [0] \<and>
         component_count session_id = 1
      then Inr () else Inl InvalidAudio)"

text \<open>Chunk names are injective in the ordinal.\<close>

lemma pad5_value [simp]: "digits_value (pad5 n) = n"
proof -
  have "foldl (\<lambda>v c. 10 * v + (c - 48)) 0 (replicate k 48) = (0 :: nat)" for k by (induction k) simp_all
  then have "digits_value (pad5 n) = digits_value (nat_str n)" unfolding pad5_def digits_value_def foldl_append by simp
  then show ?thesis by simp
qed

lemma pad5_inj [simp]: "pad5 i = pad5 j \<longleftrightarrow> i = j"
  by (metis pad5_value)

lemma chunk_path_inj [simp]: "session_audio_chunk_path d s i = session_audio_chunk_path d s j \<longleftrightarrow> i = j"
  by (simp add: session_audio_chunk_path_def)

lemma chunk_path_not_journal [simp]:
  "session_audio_chunk_path d s i \<noteq> session_capture_journal_path d s"
  "session_capture_journal_path d s \<noteq> session_audio_chunk_path d s i"
  by (auto simp: session_audio_chunk_path_def session_capture_journal_path_def lit_def)

section \<open>Chunk layout\<close>

definition chunk_byte_limit :: "nat \<Rightarrow> nat \<Rightarrow> nat" where
  "chunk_byte_limit sample_rate bpf = (let frames_per_chunk = max sample_rate 1 * 60 in max (frames_per_chunk * bpf) bpf)"

lemma chunk_byte_limit_eq: "chunk_byte_limit rate bpf = max rate 1 * 60 * bpf"
  by (simp add: chunk_byte_limit_def Let_def max_def)

lemma chunk_byte_limit_pos [simp]: "0 < bpf \<Longrightarrow> 0 < chunk_byte_limit rate bpf"
  by (simp add: chunk_byte_limit_def Let_def max_def)

definition duration_ms :: "u64 \<Rightarrow> nat \<Rightarrow> u64" where
  "duration_ms frames sample_rate = (if sample_rate > 0 then sat_mul frames 1000 div sample_rate else 0)"

record recorded_chunk =
  chunk_id :: ustring
  chunk_path :: path
  start_ms :: u64
  end_ms :: u64

definition audio_chunk_id :: "ustring \<Rightarrow> nat \<Rightarrow> ustring" where
  "audio_chunk_id session_id index = session_id @ lit '':audio:'' @ pad5 index"

section \<open>Writing files\<close>

text \<open>
  What the operating system does to one file being written: nothing wrong, the directory cannot be
  made, only some bytes reach the file, the flush fails, the rename fails.
\<close>

datatype io_fault = NoFault | DirFault | FileFault nat | SyncFault | RenameFault

record draw =
  uuid :: ustring
  nonces :: nonces
  fault :: io_fault

definition encrypt_to_file :: "cipher \<Rightarrow> session_key \<Rightarrow> draw \<Rightarrow> path \<Rightarrow> bytes \<Rightarrow> disk \<Rightarrow> (crypto_error + unit) \<times> disk" where
  "encrypt_to_file c key d p data disk =
     (case encrypted_file c key (nonces d) data of
        Inl e \<Rightarrow> (Inl e, disk)
      | Inr content \<Rightarrow>
          (case fault d of
             FileFault n \<Rightarrow> (Inl EncryptionFailed, disk(p \<mapsto> take n content))
           | _ \<Rightarrow> (Inr (), disk(p \<mapsto> content))))"

definition create_session_audio_dir :: "draw \<Rightarrow> path \<Rightarrow> ustring \<Rightarrow> recording_error + path" where
  "create_session_audio_dir d data_dir session_id =
     (case require_session_id_path_component session_id of
        Inl e \<Rightarrow> Inl e
      | Inr _ \<Rightarrow> if fault d = DirFault then Inl WriteFailed else Inr (session_audio_dir data_dir session_id))"

record chunk_writer =
  cw_data_dir :: path
  cw_session_id :: ustring
  cw_key :: session_key
  cw_sample_rate :: nat
  cw_bytes_per_frame :: nat

definition temporary_path :: "path \<Rightarrow> nat \<Rightarrow> ustring \<Rightarrow> path" where
  "temporary_path session_dir index u = session_dir @ [lit ''.chunk.'' @ pad5 index @ lit ''.'' @ u @ lit ''.recovering'']"

definition written_chunk :: "chunk_writer \<Rightarrow> nat \<Rightarrow> u64 \<Rightarrow> nat \<Rightarrow> recorded_chunk" where
  "written_chunk w bytes start_frame index =
     (let frame_count = bytes div cw_bytes_per_frame w;
          end_frame = sat_add start_frame frame_count
      in \<lparr>chunk_id = audio_chunk_id (cw_session_id w) index,
          chunk_path = session_audio_chunk_path (cw_data_dir w) (cw_session_id w) index,
          start_ms = (if cw_sample_rate w > 0 then sat_mul start_frame 1000 div cw_sample_rate w else 0),
          end_ms = (if cw_sample_rate w > 0 then sat_mul end_frame 1000 div cw_sample_rate w else 0)\<rparr>)"

text \<open>\<open>RecoveredCaptureChunkWriter::write\<close>.\<close>

definition chunk_write ::
  "cipher \<Rightarrow> draw \<Rightarrow> chunk_writer \<Rightarrow> bytes \<Rightarrow> u64 \<Rightarrow> nat \<Rightarrow> disk \<Rightarrow> (recording_error + recorded_chunk) \<times> disk" where
  "chunk_write c d w plaintext start_frame index disk =
     (case create_session_audio_dir d (cw_data_dir w) (cw_session_id w) of
        Inl e \<Rightarrow> (Inl e, disk)
      | Inr session_dir \<Rightarrow>
          let p = session_audio_chunk_path (cw_data_dir w) (cw_session_id w) index;
              temporary = temporary_path session_dir index (uuid d)
          in case encrypt_to_file c (cw_key w) d temporary plaintext disk of
               (Inl e, disk) \<Rightarrow> (Inl WriteFailed, disk(temporary := None))
             | (Inr _, disk) \<Rightarrow>
                 if fault d = SyncFault then (Inl WriteFailed, disk)
                 else if fault d = RenameFault then (Inl WriteFailed, disk(temporary := None))
                 else (Inr (written_chunk w (length plaintext) start_frame index),
                       disk(p := disk temporary, temporary := None)))"

text \<open>\<open>remove_chunks_from\<close>: removing a file that is there succeeds. Whether the loop ends depends on the disk.\<close>

partial_function (option) remove_chunks_from :: "path \<Rightarrow> ustring \<Rightarrow> nat \<Rightarrow> disk \<Rightarrow> disk option" where
  "remove_chunks_from data_dir session_id index disk =
     (let p = session_audio_chunk_path data_dir session_id index
      in if disk p = None then Some disk
         else remove_chunks_from data_dir session_id (index + 1) (disk(p := None)))"

definition seal_chunks :: "io_fault \<Rightarrow> disk \<Rightarrow> recorded_chunk list \<Rightarrow> recording_error + unit" where
  "seal_chunks f disk chunks =
     (case chunks of
        [] \<Rightarrow> Inr ()
      | _ \<Rightarrow> if f = SyncFault \<or> disk (chunk_path (last chunks)) = None then Inl WriteFailed else Inr ())"

section \<open>Reading files back\<close>

text \<open>\<open>DecryptReader::new(path)\<close> and \<open>read_to_end\<close>; \<open>sizes\<close> are the spare capacities of the vector.\<close>

definition read_file :: "cipher \<Rightarrow> session_key \<Rightarrow> (nat \<Rightarrow> nat) \<Rightarrow> disk \<Rightarrow> path \<Rightarrow> bytes \<Rightarrow> crypto_error + bytes" where
  "read_file c key sizes disk p acc =
     (case disk p of None \<Rightarrow> Inl DecryptionFailed | Some bs \<Rightarrow> read_to_end c key sizes 0 (new_reader bs) acc)"

text \<open>The audio of a session, as the transcription of a stored recording reads it (\<open>transcribe_api.rs\<close>).\<close>

fun read_chunk_paths :: "cipher \<Rightarrow> session_key \<Rightarrow> (nat \<Rightarrow> nat) \<Rightarrow> disk \<Rightarrow> path list \<Rightarrow> bytes \<Rightarrow> crypto_error + bytes" where
  "read_chunk_paths c key sizes disk [] acc = Inr acc"
| "read_chunk_paths c key sizes disk (p # ps) acc =
     (case read_file c key sizes disk p acc of
        Inl e \<Rightarrow> Inl e
      | Inr stored \<Rightarrow> read_chunk_paths c key sizes disk ps stored)"

definition reads_as :: "cipher \<Rightarrow> session_key \<Rightarrow> disk \<Rightarrow> path \<Rightarrow> bytes \<Rightarrow> bool" where
  "reads_as c key disk p body \<longleftrightarrow> (\<forall>sizes acc. read_file c key sizes disk p acc = Inr (acc @ body))"

lemma reads_as_cong: "disk' p = disk p \<Longrightarrow> reads_as c key disk' p body = reads_as c key disk p body"
  by (simp add: reads_as_def read_file_def)

lemma reads_as_exists: "reads_as c key disk p body \<Longrightarrow> disk p \<noteq> None"
  by (cases "disk p") (auto simp: reads_as_def read_file_def)

lemma encrypted_file_reads:
  assumes "aead_ok c" and "nonces_ok nonce" and "encrypted_file c key nonce body = Inr bs" and "disk p = Some bs"
  shows "reads_as c key disk p body"
  using stored_audio_read [OF assms(1,2), of key body] assms(3,4) by (simp add: reads_as_def read_file_def)

lemma encrypted_file_total: "aead_ok c \<Longrightarrow> nonces_ok nonce \<Longrightarrow> \<exists>bs. encrypted_file c key nonce body = Inr bs"
  using stored_audio_read by blast

section \<open>One chunk written\<close>

definition is_temporary :: "path \<Rightarrow> bool" where
  "is_temporary p \<longleftrightarrow> starts_with (last p) (lit ''.chunk.'')"

lemma temporary_path_temporary [simp]: "is_temporary (temporary_path d i u)"
  by (simp add: is_temporary_def temporary_path_def starts_with_def)

lemma chunk_path_permanent [simp]: "\<not> is_temporary (session_audio_chunk_path d s i)"
  by (simp add: is_temporary_def session_audio_chunk_path_def starts_with_def lit_def)

lemma journal_path_permanent [simp]: "\<not> is_temporary (session_capture_journal_path d s)"
  by (simp add: is_temporary_def session_capture_journal_path_def starts_with_def lit_def)

lemma permanent_neq_temporary [simp]: "\<not> is_temporary p \<Longrightarrow> p \<noteq> temporary_path d i u"
  by auto

definition cw_path :: "chunk_writer \<Rightarrow> nat \<Rightarrow> path" where
  "cw_path w i = session_audio_chunk_path (cw_data_dir w) (cw_session_id w) i"

definition cw_journal :: "chunk_writer \<Rightarrow> path" where
  "cw_journal w = session_capture_journal_path (cw_data_dir w) (cw_session_id w)"

lemma cw_paths [simp]:
  "cw_path w i = cw_path w j \<longleftrightarrow> i = j" "cw_path w i \<noteq> cw_journal w" "cw_journal w \<noteq> cw_path w i"
  "\<not> is_temporary (cw_path w i)" "\<not> is_temporary (cw_journal w)"
  by (simp_all add: cw_path_def cw_journal_def)

lemma written_chunk_path [simp]: "chunk_path (written_chunk w n start i) = cw_path w i"
  by (simp add: written_chunk_def cw_path_def Let_def)

definition cw_ok :: "chunk_writer \<Rightarrow> bool" where
  "cw_ok w \<longleftrightarrow> require_session_id_path_component (cw_session_id w) = Inr () \<and> 0 < cw_bytes_per_frame w"

lemma chunk_write_frame:
  "chunk_write c d w body start i disk = (x, disk') \<Longrightarrow> p \<noteq> cw_path w i \<Longrightarrow> \<not> is_temporary p \<Longrightarrow> disk' p = disk p"
  by (auto simp: chunk_write_def encrypt_to_file_def cw_path_def Let_def fun_upd_def split: sum.splits io_fault.splits if_splits)

lemma chunk_write_finite:
  "chunk_write c d w body start i disk = (x, disk') \<Longrightarrow> finite (dom disk) \<Longrightarrow> finite (dom disk')"
  by (auto simp: chunk_write_def encrypt_to_file_def Let_def split: sum.splits io_fault.splits if_splits)

lemma chunk_write_Inr:
  assumes "aead_ok c" and "nonces_ok (nonces d)" and "chunk_write c d w body start i disk = (Inr ch, disk')"
  shows "ch = written_chunk w (length body) start i" and "reads_as c (cw_key w) disk' (cw_path w i) body"
proof -
  show "ch = written_chunk w (length body) start i"
    using assms(3) by (auto simp: chunk_write_def Let_def split: sum.splits if_splits prod.splits)
  obtain bs where bs: "encrypted_file c (cw_key w) (nonces d) body = Inr bs" using encrypted_file_total assms by blast
  have "disk' (cw_path w i) = Some bs"
    using assms(3) bs by (auto simp: chunk_write_def encrypt_to_file_def cw_path_def Let_def split: sum.splits if_splits io_fault.splits)
  then show "reads_as c (cw_key w) disk' (cw_path w i) body" by (rule encrypted_file_reads [OF assms(1,2) bs])
qed

lemma chunk_write_error_harmless:
  "chunk_write c d w body start i disk = (Inl e, disk') \<Longrightarrow> \<not> is_temporary p \<Longrightarrow> disk' p = disk p"
  by (auto simp: chunk_write_def encrypt_to_file_def Let_def fun_upd_def split: sum.splits io_fault.splits if_splits)

lemma chunk_write_succeeds:
  assumes "aead_ok c" and "nonces_ok (nonces d)" and "cw_ok w" and "fault d = NoFault"
  shows "\<exists>disk'. chunk_write c d w body start i disk = (Inr (written_chunk w (length body) start i), disk')"
proof -
  obtain bs where "encrypted_file c (cw_key w) (nonces d) body = Inr bs" using encrypted_file_total assms by blast
  with assms(3,4) show ?thesis
    by (simp add: chunk_write_def encrypt_to_file_def create_session_audio_dir_def cw_ok_def Let_def)
qed

section \<open>The chunks of a recording\<close>

text \<open>The minutes a recording is cut into; an empty recording still has one chunk.\<close>

definition minutes :: "nat \<Rightarrow> bytes \<Rightarrow> bytes list" where
  "minutes limit pcm = (if pcm = [] then [[]] else slices limit pcm)"

definition cw_limit :: "chunk_writer \<Rightarrow> nat" where
  "cw_limit w = chunk_byte_limit (cw_sample_rate w) (cw_bytes_per_frame w)"

definition nth_start :: "chunk_writer \<Rightarrow> nat \<Rightarrow> u64" where
  "nth_start w i = min (i * (cw_limit w div cw_bytes_per_frame w)) u64_max"

lemma nth_start_Suc: "nth_start w (Suc i) = sat_add (nth_start w i) (cw_limit w div cw_bytes_per_frame w)"
  by (auto simp: nth_start_def sat_add_def)

lemma nth_start_0 [simp]: "nth_start w 0 = 0"
  by (simp add: nth_start_def)

lemma cw_limit_pos [simp]: "cw_ok w \<Longrightarrow> 0 < cw_limit w"
  by (simp add: cw_limit_def cw_ok_def)

text \<open>The chunk files of \<open>bodies\<close> lie on the disk, and \<open>chunks\<close> describes them.\<close>

definition chunk_list :: "chunk_writer \<Rightarrow> bytes list \<Rightarrow> recorded_chunk list" where
  "chunk_list w bodies = map (\<lambda>i. written_chunk w (length (bodies ! i)) (nth_start w i) i) [0..<length bodies]"

definition laid_out :: "cipher \<Rightarrow> chunk_writer \<Rightarrow> disk \<Rightarrow> bytes list \<Rightarrow> bool" where
  "laid_out c w disk bodies \<longleftrightarrow> (\<forall>i < length bodies. reads_as c (cw_key w) disk (cw_path w i) (bodies ! i))"

lemma length_chunk_list [simp]: "length (chunk_list w bodies) = length bodies"
  by (simp add: chunk_list_def)

lemma chunk_list_snoc:
  "chunk_list w (bodies @ [b]) = chunk_list w bodies @ [written_chunk w (length b) (nth_start w (length bodies)) (length bodies)]"
  by (simp add: chunk_list_def nth_append)

lemma chunk_list_paths: "map chunk_path (chunk_list w bodies) = map (cw_path w) [0..<length bodies]"
  by (simp add: chunk_list_def)

lemma laid_out_Nil [simp]: "laid_out c w disk []"
  by (simp add: laid_out_def)

lemma laid_out_cong:
  "laid_out c w disk bodies \<Longrightarrow> (\<And>i. i < length bodies \<Longrightarrow> disk' (cw_path w i) = disk (cw_path w i)) \<Longrightarrow> laid_out c w disk' bodies"
  unfolding laid_out_def by (metis reads_as_cong)

lemma laid_out_snoc:
  assumes "laid_out c w disk bodies" and "\<And>i. i < length bodies \<Longrightarrow> disk' (cw_path w i) = disk (cw_path w i)"
    and "reads_as c (cw_key w) disk' (cw_path w (length bodies)) b"
  shows "laid_out c w disk' (bodies @ [b])"
  using laid_out_cong [OF assms(1,2)] assms(3) by (auto simp: laid_out_def nth_append less_Suc_eq)

lemma laid_out_reads:
  assumes "laid_out c w disk bodies"
  shows "read_chunk_paths c (cw_key w) sizes disk (map (cw_path w) [i..<length bodies]) acc = Inr (acc @ concat (drop i bodies))"
  using assms
proof (induction "length bodies - i" arbitrary: i acc)
  case (Suc n)
  then have i: "i < length bodies" by simp
  with Suc.prems have "read_file c (cw_key w) sizes disk (cw_path w i) acc = Inr (acc @ bodies ! i)"
    by (simp add: laid_out_def reads_as_def)
  with Suc i show ?case by (simp add: upt_conv_Cons Cons_nth_drop_Suc [symmetric])
qed simp

end
