(* ===== verification/Recording_Journal.thy ===== *)
theory Recording_Journal
  imports Recording_Chunks
begin

text \<open>
  Crate \<open>vt-pipeline\<close>, \<open>recording.rs\<close>: the capture journal of a running recording, the live
  chunk writer and the flushing thread beside it, the end of a recording, and the recovery of a
  journal after a crash. A loop whose end depends on its state is a \<open>partial_function\<close>: \<open>None\<close>
  is a call that does not return.
\<close>

section \<open>Cutting audio into minutes\<close>

definition MAGIC_F32 :: bytes where
  "MAGIC_F32 = [0x56, 0x54, 0x43, 0x41, 0x50, 0x4A, 0x31, 0]"

definition MAGIC_S16 :: bytes where
  "MAGIC_S16 = [0x56, 0x54, 0x43, 0x41, 0x50, 0x4A, 0x32, 0]"

definition CAPTURE_JOURNAL_SYNC_INTERVAL :: nat where
  "CAPTURE_JOURNAL_SYNC_INTERVAL = 10"

definition MAX_CAPTURE_FRAME_BYTES :: nat where
  "MAX_CAPTURE_FRAME_BYTES = 8 * 1024 * 1024"

text \<open>
  The loop that fills the current minute from a block of audio and hands on every full one. The
  recorder and the recovery have it each, with another way to hand a minute on (\<open>emit\<close>, which
  leaves the loop when it fails).
\<close>

partial_function (option) cut_minutes ::
  "nat \<Rightarrow> (bytes \<Rightarrow> 's \<Rightarrow> 'e + 's) \<Rightarrow> bytes \<Rightarrow> bytes \<Rightarrow> 's \<Rightarrow> ('e + bytes \<times> 's) option" where
  "cut_minutes limit emit frame minute s =
     (if frame = [] then Some (Inr (minute, s))
      else let n = min (limit - length minute) (length frame);
               minute = minute @ take n frame;
               frame = drop n frame
           in if length minute = limit then
                (case emit minute s of
                   Inl e \<Rightarrow> Some (Inl e)
                 | Inr s \<Rightarrow> cut_minutes limit emit frame [] s)
              else cut_minutes limit emit frame minute s)"

section \<open>Recovery\<close>

record write_env =
  draws :: "nat \<Rightarrow> draw"
  seal_fault :: io_fault

record rebuild =
  rb_start :: u64
  rb_chunks :: "recorded_chunk list"
  rb_disk :: disk

definition write_minute :: "cipher \<Rightarrow> (nat \<Rightarrow> draw) \<Rightarrow> chunk_writer \<Rightarrow> bytes \<Rightarrow> rebuild \<Rightarrow> recording_error \<times> disk + rebuild" where
  "write_minute c ds w body rb =
     (let index = length (rb_chunks rb)
      in case chunk_write c (ds index) w body (rb_start rb) index (rb_disk rb) of
           (Inl e, disk) \<Rightarrow> Inl (e, disk)
         | (Inr chunk, disk) \<Rightarrow>
             Inr \<lparr>rb_start = sat_add (rb_start rb) (length body div cw_bytes_per_frame w),
                  rb_chunks = rb_chunks rb @ [chunk], rb_disk = disk\<rparr>)"

text \<open>The record loop; \<open>rest\<close> is what of the journal is not read yet.\<close>

function recover_records ::
  "cipher \<Rightarrow> (nat \<Rightarrow> draw) \<Rightarrow> chunk_writer \<Rightarrow> bytes \<Rightarrow> u64 \<Rightarrow> bytes \<Rightarrow> rebuild \<Rightarrow>
     (recording_error \<times> disk + u64 \<times> bytes \<times> rebuild) option" where
  "recover_records c ds w rest captured minute rb =
     (if length rest < 4 then Some (Inr (captured, minute, rb))
      else
        let encrypted_len = unat (from_le_bytes (take 4 rest));
            body = drop 4 rest
        in if encrypted_len < 28 \<or> MAX_CAPTURE_FRAME_BYTES + 64 < encrypted_len then Some (Inl (JournalCorrupt, rb_disk rb))
           else if length body < encrypted_len then Some (Inr (captured, minute, rb))
           else case decrypt_chunk c (cw_key w) (take encrypted_len body) of
               Inl e \<Rightarrow> Some (Inl (JournalCorrupt, rb_disk rb))
             | Inr frame \<Rightarrow>
                 if length frame mod cw_bytes_per_frame w \<noteq> 0 then Some (Inl (JournalCorrupt, rb_disk rb))
                 else (case cut_minutes (cw_limit w) (write_minute c ds w) frame minute rb of
                     None \<Rightarrow> None
                   | Some (Inl e) \<Rightarrow> Some (Inl e)
                   | Some (Inr (minute, rb)) \<Rightarrow>
                       recover_records c ds w (drop encrypted_len body)
                         (sat_add captured (length frame div cw_bytes_per_frame w)) minute rb))"
  by pat_completeness auto
termination by (relation "measure (\<lambda>(c, ds, w, rest, captured, minute, rb). length rest)") auto

declare recover_records.simps [simp del]

record recovered =
  rr_session_id :: ustring
  rr_encrypted_path :: path
  rr_audio_chunks :: "recorded_chunk list"
  rr_duration_ms :: u64
  rr_sample_rate :: nat
  rr_channels :: nat
  rr_captured_frames :: u64
  rr_sample_format :: stored_sample_format

text \<open>The steps shared by the end of a recovery and the end of a recording: the partial minute, stale chunks, the flush.\<close>

definition close_chunks :: "cipher \<Rightarrow> write_env \<Rightarrow> chunk_writer \<Rightarrow> bytes \<Rightarrow> rebuild \<Rightarrow> ((recording_error + recorded_chunk list) \<times> disk) option" where
  "close_chunks c env w minute rb =
     (case (if minute \<noteq> [] \<or> rb_chunks rb = [] then write_minute c (draws env) w minute rb else Inr rb) of
        Inl (e, disk) \<Rightarrow> Some (Inl e, disk)
      | Inr rb \<Rightarrow>
          (case remove_chunks_from (cw_data_dir w) (cw_session_id w) (length (rb_chunks rb)) (rb_disk rb) of
             None \<Rightarrow> None
           | Some disk \<Rightarrow>
               (case seal_chunks (seal_fault env) disk (rb_chunks rb) of
                  Inl e \<Rightarrow> Some (Inl e, disk)
                | Inr _ \<Rightarrow> Some (Inr (rb_chunks rb), disk))))"

definition recover_capture_audio_journal ::
  "cipher \<Rightarrow> write_env \<Rightarrow> path \<Rightarrow> ustring \<Rightarrow> session_key \<Rightarrow> nat \<Rightarrow> nat \<Rightarrow> disk \<Rightarrow> ((recording_error + recovered) \<times> disk) option" where
  "recover_capture_audio_journal c env data_dir session_id key sample_rate channels disk =
     (case disk (session_capture_journal_path data_dir session_id) of
        None \<Rightarrow> Some (Inl WriteFailed, disk)
      | Some journal \<Rightarrow>
          if length journal < 8 then Some (Inl JournalCorrupt, disk)
          else
            let magic = take 8 journal
            in if magic \<noteq> MAGIC_S16 \<and> magic \<noteq> MAGIC_F32 then Some (Inl JournalCorrupt, disk)
               else
                 let sample_format = (if magic = MAGIC_S16 then S16 else F32);
                     w = \<lparr>cw_data_dir = data_dir, cw_session_id = session_id, cw_key = key, cw_sample_rate = sample_rate,
                          cw_bytes_per_frame = bytes_per_frame channels sample_format\<rparr>
                 in case recover_records c (draws env) w (drop 8 journal) 0 []
                        \<lparr>rb_start = 0, rb_chunks = [], rb_disk = disk\<rparr> of
                      None \<Rightarrow> None
                    | Some (Inl (e, disk)) \<Rightarrow> Some (Inl e, disk)
                    | Some (Inr (captured_frames, minute, rb)) \<Rightarrow>
                        (case close_chunks c env w minute rb of
                           None \<Rightarrow> None
                         | Some (Inl e, disk) \<Rightarrow> Some (Inl e, disk)
                         | Some (Inr chunks, disk) \<Rightarrow>
                             Some (Inr \<lparr>rr_session_id = session_id,
                               rr_encrypted_path =
                                 (case chunks of [] \<Rightarrow> session_audio_chunk_path data_dir session_id 0 | chunk # _ \<Rightarrow> chunk_path chunk),
                               rr_audio_chunks = chunks,
                               rr_duration_ms = duration_ms captured_frames sample_rate,
                               rr_sample_rate = sample_rate, rr_channels = channels,
                               rr_captured_frames = captured_frames, rr_sample_format = sample_format\<rparr>, disk)))"

section \<open>The running recording\<close>

record recording_config =
  rc_data_dir :: path
  rc_sample_rate :: nat
  rc_channels :: nat

record live_chunk =
  lc_index :: nat
  lc_start_frame :: u64
  lc_plaintext :: bytes

text \<open>
  \<open>CaptureAudioJournal\<close> with its state, its live chunk writer (queue, progress, whether the thread
  has stopped) and its flushing thread (a pending wake, failure), on the disk it writes.
  \<open>flushed\<close> is the length of the journal at the last flush.
\<close>

record recorder =
  rec_session_id :: ustring
  rec_config :: recording_config
  rec_key :: session_key
  captured_frames :: u64
  records_since_sync :: nat
  minute :: bytes
  minute_start_frame :: u64
  next_chunk_index :: nat
  live_chunks_usable :: bool
  lw_queue :: "live_chunk list"
  lw_written :: "recorded_chunk list"
  lw_failure :: "recording_error option"
  lw_gone :: bool
  sync_wake :: bool
  sync_failure :: bool
  flushed :: nat
  rec_disk :: disk

definition rec_bytes_per_frame :: "recorder \<Rightarrow> nat" where
  "rec_bytes_per_frame r = bytes_per_frame (rc_channels (rec_config r)) S16"

definition rec_writer :: "recorder \<Rightarrow> chunk_writer" where
  "rec_writer r = \<lparr>cw_data_dir = rc_data_dir (rec_config r), cw_session_id = rec_session_id r, cw_key = rec_key r,
     cw_sample_rate = rc_sample_rate (rec_config r), cw_bytes_per_frame = rec_bytes_per_frame r\<rparr>"

definition journal_path :: "recorder \<Rightarrow> path" where
  "journal_path r = session_capture_journal_path (rc_data_dir (rec_config r)) (rec_session_id r)"

definition journal_bytes :: "recorder \<Rightarrow> bytes" where
  "journal_bytes r = (case rec_disk r (journal_path r) of None \<Rightarrow> [] | Some bs \<Rightarrow> bs)"

definition create_capture_journal_file :: "draw \<Rightarrow> path \<Rightarrow> disk \<Rightarrow> (recording_error + unit) \<times> disk" where
  "create_capture_journal_file d p disk =
     (case fault d of
        RenameFault \<Rightarrow> (Inl WriteFailed, disk)
      | FileFault n \<Rightarrow> (Inl WriteFailed, disk(p := None))
      | SyncFault \<Rightarrow> (Inl WriteFailed, disk(p := None))
      | _ \<Rightarrow> (Inr (), disk(p \<mapsto> MAGIC_S16)))"

definition start_journal :: "draw \<Rightarrow> ustring \<Rightarrow> recording_config \<Rightarrow> session_key \<Rightarrow> disk \<Rightarrow> (recording_error + recorder) \<times> disk" where
  "start_journal d session_id config key disk =
     (case create_session_audio_dir d (rc_data_dir config) session_id of
        Inl e \<Rightarrow> (Inl e, disk)
      | Inr _ \<Rightarrow>
          (case create_capture_journal_file d (session_capture_journal_path (rc_data_dir config) session_id) disk of
             (Inl e, disk) \<Rightarrow> (Inl e, disk)
           | (Inr _, disk) \<Rightarrow>
               (Inr \<lparr>rec_session_id = session_id, rec_config = config, rec_key = key, captured_frames = 0,
                  records_since_sync = 0, minute = [], minute_start_frame = 0, next_chunk_index = 0,
                  live_chunks_usable = True, lw_queue = [], lw_written = [], lw_failure = None, lw_gone = False,
                  sync_wake = False, sync_failure = False, flushed = length MAGIC_S16, rec_disk = disk\<rparr>, disk)))"

text \<open>\<open>submit\<close> and the rest of a full minute in \<open>buffer_live_minute\<close>: sending fails when the thread has dropped its end.\<close>

definition submit_minute :: "nat \<Rightarrow> bytes \<Rightarrow> recorder \<Rightarrow> recorder + recorder" where
  "submit_minute limit plaintext r =
     (if lw_gone r then Inl (r\<lparr>live_chunks_usable := False, minute := []\<rparr>)
      else Inr (r\<lparr>lw_queue := lw_queue r @ [\<lparr>lc_index = next_chunk_index r, lc_start_frame = minute_start_frame r, lc_plaintext = plaintext\<rparr>],
             next_chunk_index := next_chunk_index r + 1,
             minute_start_frame := sat_add (minute_start_frame r) (limit div rec_bytes_per_frame r)\<rparr>))"

definition buffer_live_minute :: "bytes \<Rightarrow> recorder \<Rightarrow> recorder option" where
  "buffer_live_minute pcm r =
     (let limit = chunk_byte_limit (rc_sample_rate (rec_config r)) (rec_bytes_per_frame r)
      in case cut_minutes limit (submit_minute limit) pcm (minute r) r of
           None \<Rightarrow> None
         | Some (Inl r) \<Rightarrow> Some r
         | Some (Inr (rest, r)) \<Rightarrow> Some (r\<lparr>minute := rest\<rparr>))"

text \<open>
  \<open>push_stored_pcm\<close> with the nonce drawn for the record. \<open>wrote\<close> is what the operating system does to
  the append: everything is written, or only the first bytes are.
\<close>

definition push_stored_pcm :: "cipher \<Rightarrow> bytes \<Rightarrow> nat option \<Rightarrow> bytes \<Rightarrow> recorder \<Rightarrow> ((recording_error + unit) \<times> recorder) option" where
  "push_stored_pcm c nonce wrote pcm r =
     (if \<not> rec_bytes_per_frame r dvd length pcm then Some (Inl InvalidAudio, r)
      else if MAX_CAPTURE_FRAME_BYTES < length pcm then Some (Inl InvalidAudio, r)
      else case encrypt_chunk c (rec_key r) nonce pcm of
          Inl e \<Rightarrow> Some (Inl WriteFailed, r)
        | Inr encrypted \<Rightarrow>
            if 2 ^ 32 \<le> length encrypted then Some (Inl InvalidAudio, r)
            else if sync_failure r then Some (Inl WriteFailed, r)
            else
              let record_bytes = framed encrypted;
                  full = (case wrote of None \<Rightarrow> True | Some n \<Rightarrow> length record_bytes \<le> n);
                  written = (case wrote of None \<Rightarrow> record_bytes | Some n \<Rightarrow> take n record_bytes);
                  r = r\<lparr>rec_disk := (rec_disk r)(journal_path r \<mapsto> journal_bytes r @ written)\<rparr>
              in if \<not> full then Some (Inl WriteFailed, r)
                 else
                   let r = r\<lparr>captured_frames := sat_add (captured_frames r) (length pcm div rec_bytes_per_frame r),
                             records_since_sync := records_since_sync r + 1\<rparr>;
                       r = (if records_since_sync r \<ge> CAPTURE_JOURNAL_SYNC_INTERVAL
                            then r\<lparr>sync_wake := True, records_since_sync := 0\<rparr> else r)
                   in if live_chunks_usable r then map_option (Pair (Inr ())) (buffer_live_minute pcm r)
                      else Some (Inr (), r))"

definition push_s16_pcm :: "cipher \<Rightarrow> bytes \<Rightarrow> nat option \<Rightarrow> bytes \<Rightarrow> recorder \<Rightarrow> ((recording_error + unit) \<times> recorder) option" where
  "push_s16_pcm c nonce wrote pcm r =
     (if \<not> 2 dvd length pcm then Some (Inl InvalidAudio, r) else push_stored_pcm c nonce wrote pcm r)"

text \<open>One turn of the flushing thread; it stops at its first failure.\<close>

definition flush_step :: "bool \<Rightarrow> recorder \<Rightarrow> recorder" where
  "flush_step works r =
     (if \<not> sync_wake r \<or> sync_failure r then r
      else if works then r\<lparr>sync_wake := False, flushed := length (journal_bytes r)\<rparr>
      else r\<lparr>sync_wake := False, sync_failure := True\<rparr>)"

text \<open>One turn of the live chunk writer; it stops at its first failure.\<close>

definition live_step :: "cipher \<Rightarrow> draw \<Rightarrow> recorder \<Rightarrow> recorder" where
  "live_step c d r =
     (case lw_queue r of
        [] \<Rightarrow> r
      | chunk # queue \<Rightarrow>
          (case chunk_write c d (rec_writer r) (lc_plaintext chunk) (lc_start_frame chunk) (lc_index chunk) (rec_disk r) of
             (Inr written, disk) \<Rightarrow> r\<lparr>lw_queue := queue, lw_written := lw_written r @ [written], rec_disk := disk\<rparr>
           | (Inl e, disk) \<Rightarrow> r\<lparr>lw_queue := [], lw_failure := Some e, lw_gone := True, rec_disk := disk\<rparr>))"

fun live_finish :: "cipher \<Rightarrow> (nat \<Rightarrow> draw) \<Rightarrow> nat \<Rightarrow> recorder \<Rightarrow> recorder" where
  "live_finish c ds 0 r = r"
| "live_finish c ds (Suc n) r = live_finish c ds n (live_step c (ds (length (lw_written r))) r)"

definition chunks_in_order :: "recorder \<Rightarrow> bool" where
  "chunks_in_order r \<longleftrightarrow> length (lw_written r) = next_chunk_index r \<and>
     list_all (\<lambda>(index, chunk). chunk_path chunk = cw_path (rec_writer r) index \<and> rec_disk r (chunk_path chunk) \<noteq> None)
       (List.enumerate 0 (lw_written r))"

definition finish_live_chunks :: "cipher \<Rightarrow> write_env \<Rightarrow> recorder \<Rightarrow> ((recording_error + recovered) \<times> disk) option" where
  "finish_live_chunks c env r =
     (case lw_failure r of
        Some e \<Rightarrow> Some (Inl WriteFailed, rec_disk r)
      | None \<Rightarrow>
          let bpf = rec_bytes_per_frame r;
              frames_per_chunk = chunk_byte_limit (rc_sample_rate (rec_config r)) bpf div bpf;
              accounted = sat_add (sat_mul (next_chunk_index r) frames_per_chunk) (length (minute r) div bpf)
          in if \<not> chunks_in_order r \<or> accounted \<noteq> captured_frames r \<or>
                minute_start_frame r \<noteq> next_chunk_index r * frames_per_chunk mod 2 ^ 64
             then Some (Inl WriteFailed, rec_disk r)
             else case close_chunks c env (rec_writer r) (minute r)
                    \<lparr>rb_start = minute_start_frame r, rb_chunks = lw_written r, rb_disk = rec_disk r\<rparr> of
                  None \<Rightarrow> None
                | Some (Inl e, disk) \<Rightarrow> Some (Inl e, disk)
                | Some (Inr chunks, disk) \<Rightarrow>
                    Some (Inr \<lparr>rr_session_id = rec_session_id r, rr_encrypted_path = chunk_path (hd chunks),
                      rr_audio_chunks = chunks,
                      rr_duration_ms = duration_ms (captured_frames r) (rc_sample_rate (rec_config r)),
                      rr_sample_rate = rc_sample_rate (rec_config r), rr_channels = rc_channels (rec_config r),
                      rr_captured_frames = captured_frames r, rr_sample_format = S16\<rparr>, disk))"

text \<open>
  \<open>stop\<close>: both threads finish, the journal is flushed (\<open>sync_ok\<close>), the live chunks are completed,
  and the journal is recovered when they cannot be.
\<close>

definition stop_recording ::
  "cipher \<Rightarrow> (nat \<Rightarrow> draw) \<Rightarrow> bool \<Rightarrow> write_env \<Rightarrow> write_env \<Rightarrow> recorder \<Rightarrow> ((recording_error + recovered) \<times> disk) option" where
  "stop_recording c ds sync_ok live_env env r =
     (let r = live_finish c ds (length (lw_queue r)) r;
          config = rec_config r;
          recover = recover_capture_audio_journal c env (rc_data_dir config) (rec_session_id r) (rec_key r)
            (rc_sample_rate config) (rc_channels config)
      in if \<not> sync_ok then Some (Inl WriteFailed, rec_disk r)
         else if live_chunks_usable r then
           (case finish_live_chunks c live_env r of
              None \<Rightarrow> None
            | Some (Inr res, disk) \<Rightarrow> Some (Inr res, disk)
            | Some (Inl e, disk) \<Rightarrow> recover disk)
         else recover (rec_disk r))"

end
