(* ===== verification/Recording_Laws.thy ===== *)
theory Recording_Laws
  imports Recording_Journal
begin

text \<open>
  What the loops of \<open>Recording_Journal\<close> compute: the minute loop cuts the audio at the multiples of
  the chunk size, whoever takes the minutes; the recovery loop writes the chunks of the records it
  reads; every loop returns.
\<close>

section \<open>Full slices and the rest\<close>

function full_slices :: "nat \<Rightarrow> 'a list \<Rightarrow> 'a list list" where
  "full_slices n xs = (if n = 0 \<or> length xs < n then [] else take n xs # full_slices n (drop n xs))"
  by pat_completeness auto
termination by (relation "measure (\<lambda>(n, xs). length xs)") auto

function slice_rest :: "nat \<Rightarrow> 'a list \<Rightarrow> 'a list" where
  "slice_rest n xs = (if n = 0 \<or> length xs < n then xs else slice_rest n (drop n xs))"
  by pat_completeness auto
termination by (relation "measure (\<lambda>(n, xs). length xs)") auto

declare full_slices.simps [simp del] slice_rest.simps [simp del]

lemma full_slices_short [simp]: "length xs < n \<Longrightarrow> full_slices n xs = []" "length xs < n \<Longrightarrow> slice_rest n xs = xs"
  by (simp_all add: full_slices.simps slice_rest.simps)

lemma full_slices_block:
  "length b = n \<Longrightarrow> 0 < n \<Longrightarrow> full_slices n (b @ xs) = b # full_slices n xs"
  "length b = n \<Longrightarrow> 0 < n \<Longrightarrow> slice_rest n (b @ xs) = slice_rest n xs"
  by (simp_all add: full_slices.simps [of n "b @ xs"] slice_rest.simps [of n "b @ xs"])

lemma slice_rest_length: "0 < n \<Longrightarrow> length (slice_rest n xs) < n"
  by (induction n xs rule: slice_rest.induct) (subst slice_rest.simps, simp)

lemma full_slices_length: "b \<in> set (full_slices n xs) \<Longrightarrow> length b = n"
  by (induction n xs rule: full_slices.induct) (subst (asm) (2) full_slices.simps, auto split: if_splits)

lemma concat_full_slices: "concat (full_slices n xs) @ slice_rest n xs = xs"
  by (induction n xs rule: full_slices.induct) (simp add: full_slices.simps slice_rest.simps)

lemma slices_full: "0 < n \<Longrightarrow> slices n xs = full_slices n xs @ (if slice_rest n xs = [] then [] else [slice_rest n xs])"
proof (induction n xs rule: slices.induct)
  case (1 n xs)
  show ?case
  proof (cases "length xs < n")
    case True
    then show ?thesis using "1.prems" by (cases "xs = []") (simp_all add: slices_short)
  next
    case False
    with 1 have "xs \<noteq> []" by auto
    with 1 False show ?thesis by (simp add: slices.simps [of n xs] full_slices.simps [of n xs] slice_rest.simps [of n xs])
  qed
qed

lemma full_slices_append:
  "0 < n \<Longrightarrow> full_slices n (xs @ ys) = full_slices n xs @ full_slices n (slice_rest n xs @ ys)"
  "0 < n \<Longrightarrow> slice_rest n (xs @ ys) = slice_rest n (slice_rest n xs @ ys)"
proof (induction n xs rule: full_slices.induct)
  case (1 n xs)
  {
    case 1
    with "1.IH" show ?case
      by (cases "length xs < n") (simp_all add: full_slices.simps [of n "xs @ ys"] full_slices.simps [of n xs] slice_rest.simps [of n xs])
  next
    case 2
    with "1.IH" show ?case
      by (cases "length xs < n") (simp_all add: slice_rest.simps [of n "xs @ ys"] slice_rest.simps [of n xs])
  }
qed

section \<open>The minute loop\<close>

fun emit_all :: "(bytes \<Rightarrow> 's \<Rightarrow> 'e + 's) \<Rightarrow> bytes list \<Rightarrow> 's \<Rightarrow> 'e + 's" where
  "emit_all emit [] s = Inr s"
| "emit_all emit (b # bs) s = (case emit b s of Inl e \<Rightarrow> Inl e | Inr s \<Rightarrow> emit_all emit bs s)"

lemma emit_all_append:
  "emit_all emit (bs @ cs) s = (case emit_all emit bs s of Inl e \<Rightarrow> Inl e | Inr s \<Rightarrow> emit_all emit cs s)"
  by (induction bs arbitrary: s) (auto split: sum.splits)

text \<open>
  Who takes the minutes: \<open>holds bodies s\<close> says that \<open>s\<close> has taken the minutes \<open>bodies\<close>, and a full
  minute that is taken is added to them.
\<close>

locale minute_sink =
  fixes emit :: "bytes \<Rightarrow> 's \<Rightarrow> 'e + 's"
    and holds :: "bytes list \<Rightarrow> 's \<Rightarrow> bool"
    and limit :: nat
  assumes taken: "holds bodies s \<Longrightarrow> length b = limit \<Longrightarrow> emit b s = Inr s' \<Longrightarrow> holds (bodies @ [b]) s'"
begin

lemma all_taken:
  assumes "holds bodies s" and "emit_all emit bs s = Inr s'" and "\<And>b. b \<in> set bs \<Longrightarrow> length b = limit"
  shows "holds (bodies @ bs) s'"
  using assms
proof (induction bs arbitrary: bodies s)
  case (Cons b bs)
  then obtain s1 where "emit b s = Inr s1" and "emit_all emit bs s1 = Inr s'" by (auto split: sum.splits)
  with Cons.IH [of "bodies @ [b]" s1] Cons.prems taken show ?case by simp
qed simp

end

text \<open>The loop returns, and it hands on exactly the full minutes.\<close>

lemma cut_minutes_spec:
  assumes "length cur < limit"
  shows "cut_minutes limit emit frame cur s =
    Some (map_sum id (Pair (slice_rest limit (cur @ frame))) (emit_all emit (full_slices limit (cur @ frame)) s))"
  using assms
proof (induction frame arbitrary: cur s rule: length_induct)
  case (1 frame)
  let ?n = "min (limit - length cur) (length frame)"
  show ?case
  proof (cases "frame = []")
    case True
    with "1.prems" show ?thesis by (subst cut_minutes.simps) simp
  next
    case False
    then have shorter: "length (drop ?n frame) < length frame" using "1.prems" by simp
    show ?thesis
    proof (cases "length frame < limit - length cur")
      case True
      with False "1.prems" have "cut_minutes limit emit frame cur s = cut_minutes limit emit [] (cur @ frame) s"
        by (subst cut_minutes.simps) (auto simp: Let_def)
      moreover have "\<dots> = Some (Inr (cur @ frame, s))" by (subst cut_minutes.simps) simp
      ultimately show ?thesis using True by simp
    next
      case full: False
      define b where "b = cur @ take (limit - length cur) frame"
      have b: "length b = limit" "b @ drop (limit - length cur) frame = cur @ frame"
        using full "1.prems" by (simp_all add: b_def)
      have n: "?n = limit - length cur" using full by simp
      have "cut_minutes limit emit frame cur s =
          (case emit b s of Inl e \<Rightarrow> Some (Inl e) | Inr s \<Rightarrow> cut_minutes limit emit (drop (limit - length cur) frame) [] s)"
        using False b(1) n by (subst cut_minutes.simps) (simp add: Let_def b_def)
      also have "\<dots> = Some (map_sum id (Pair (slice_rest limit (b @ drop (limit - length cur) frame)))
          (emit_all emit (full_slices limit (b @ drop (limit - length cur) frame)) s))"
        using "1.IH" shorter [unfolded n] "1.prems" b(1) by (auto simp: full_slices_block id_def split: sum.split)
      finally show ?thesis by (simp only: b(2))
    qed
  qed
qed

section \<open>Chunks written in order\<close>

definition draws_ok :: "(nat \<Rightarrow> draw) \<Rightarrow> bool" where
  "draws_ok ds \<longleftrightarrow> (\<forall>i. nonces_ok (nonces (ds i)))"

definition faultless :: "(nat \<Rightarrow> draw) \<Rightarrow> bool" where
  "faultless ds \<longleftrightarrow> (\<forall>i. fault (ds i) = NoFault)"

definition rb_ok :: "cipher \<Rightarrow> chunk_writer \<Rightarrow> bytes list \<Rightarrow> rebuild \<Rightarrow> bool" where
  "rb_ok c w bodies rb \<longleftrightarrow> rb_chunks rb = chunk_list w bodies \<and> rb_start rb = nth_start w (length bodies) \<and>
     laid_out c w (rb_disk rb) bodies"

text \<open>What writing chunks leaves as it was: every file but chunks and temporary files.\<close>

definition chunks_only :: "chunk_writer \<Rightarrow> disk \<Rightarrow> disk \<Rightarrow> bool" where
  "chunks_only w disk disk' \<longleftrightarrow> (finite (dom disk) \<longrightarrow> finite (dom disk')) \<and>
     (\<forall>p. \<not> is_temporary p \<longrightarrow> p \<notin> range (cw_path w) \<longrightarrow> disk' p = disk p)"

lemma chunks_only_refl [simp]: "chunks_only w disk disk"
  by (simp add: chunks_only_def)

lemma chunks_only_trans: "chunks_only w d1 d2 \<Longrightarrow> chunks_only w d2 d3 \<Longrightarrow> chunks_only w d1 d3"
  by (simp add: chunks_only_def)

lemma chunks_only_journal: "chunks_only w disk disk' \<Longrightarrow> disk' (cw_journal w) = disk (cw_journal w)"
  by (auto simp: chunks_only_def image_iff)

lemma chunk_write_chunks_only: "chunk_write c d w body start i disk = (x, disk') \<Longrightarrow> chunks_only w disk disk'"
  unfolding chunks_only_def by (auto dest: chunk_write_finite intro: chunk_write_frame)

fun rebuilt_disk :: "recording_error \<times> disk + rebuild \<Rightarrow> disk" where
  "rebuilt_disk (Inl (e, disk)) = disk"
| "rebuilt_disk (Inr rb) = rb_disk rb"

lemma write_minute_chunks_only: "chunks_only w (rb_disk rb) (rebuilt_disk (write_minute c ds w body rb))"
proof -
  let ?i = "length (rb_chunks rb)"
  obtain x disk where "chunk_write c (ds ?i) w body (rb_start rb) ?i (rb_disk rb) = (x, disk)" by fastforce
  with chunk_write_chunks_only [OF this] show ?thesis by (cases x) (simp_all add: write_minute_def Let_def)
qed

lemma write_minute_Inr:
  assumes "aead_ok c" and "draws_ok ds" and ok: "rb_ok c w bodies rb" and wr: "write_minute c ds w body rb = Inr rb'"
  shows "rb_chunks rb' = chunk_list w (bodies @ [body])" and "laid_out c w (rb_disk rb') (bodies @ [body])"
    and "rb_start rb' = sat_add (rb_start rb) (length body div cw_bytes_per_frame w)"
proof -
  let ?n = "length bodies"
  have n: "length (rb_chunks rb) = ?n" using ok by (simp add: rb_ok_def)
  obtain ch disk where cw: "chunk_write c (ds ?n) w body (rb_start rb) ?n (rb_disk rb) = (Inr ch, disk)"
    and rb': "rb' = \<lparr>rb_start = sat_add (rb_start rb) (length body div cw_bytes_per_frame w), rb_chunks = rb_chunks rb @ [ch], rb_disk = disk\<rparr>"
    using wr n by (auto simp: write_minute_def Let_def split: prod.splits sum.splits)
  have no: "nonces_ok (nonces (ds ?n))" using assms(2) by (simp add: draws_ok_def)
  note written = chunk_write_Inr [OF assms(1) no cw]
  show "rb_chunks rb' = chunk_list w (bodies @ [body])"
    using ok by (simp add: rb' rb_ok_def chunk_list_snoc written(1))
  show "laid_out c w (rb_disk rb') (bodies @ [body])"
    unfolding rb' rebuild.simps
    by (rule laid_out_snoc [OF _ _ written(2)]) (use ok chunk_write_frame [OF cw] in \<open>auto simp: rb_ok_def\<close>)
  show "rb_start rb' = sat_add (rb_start rb) (length body div cw_bytes_per_frame w)" by (simp add: rb')
qed

lemma write_minute_full:
  assumes "aead_ok c" and "draws_ok ds" and "rb_ok c w bodies rb" and "write_minute c ds w body rb = Inr rb'" and "length body = cw_limit w"
  shows "rb_ok c w (bodies @ [body]) rb'"
  using write_minute_Inr [OF assms(1-4)] assms(3,5) by (simp add: rb_ok_def nth_start_Suc)

lemma write_minute_faultless:
  assumes "aead_ok c" and "draws_ok ds" and "cw_ok w" and "faultless ds"
  shows "\<exists>rb'. write_minute c ds w body rb = Inr rb'"
proof -
  let ?n = "length (rb_chunks rb)"
  have "nonces_ok (nonces (ds ?n))" "fault (ds ?n) = NoFault" using assms by (simp_all add: draws_ok_def faultless_def)
  from chunk_write_succeeds [OF assms(1) this(1) assms(3) this(2)] show ?thesis
    by (auto simp: write_minute_def Let_def split: prod.split sum.split) (metis Inl_Inr_False prod.inject)
qed

lemma emit_minutes_chunks_only: "chunks_only w (rb_disk rb) (rebuilt_disk (emit_all (write_minute c ds w) bs rb))"
proof (induction bs arbitrary: rb)
  case (Cons b bs)
  from write_minute_chunks_only [of w rb c ds b] Cons show ?case
    by (auto split: sum.split intro: chunks_only_trans)
qed simp

interpretation rebuilding: minute_sink "write_minute c ds w" "\<lambda>bodies rb. aead_ok c \<and> draws_ok ds \<and> rb_ok c w bodies rb" "cw_limit w" for c ds w
  by unfold_locales (auto intro: write_minute_full)

lemmas emit_minutes_ok = rebuilding.all_taken

lemma emit_minutes_faultless:
  assumes "aead_ok c" and "draws_ok ds" and "cw_ok w" and "faultless ds"
  shows "\<exists>rb'. emit_all (write_minute c ds w) bs rb = Inr rb'"
proof (induction bs arbitrary: rb)
  case (Cons b bs)
  with write_minute_faultless [OF assms, of b rb] show ?case by auto
qed simp

lemma remove_chunks_returns:
  "finite (dom disk) \<Longrightarrow> \<exists>disk'. remove_chunks_from (cw_data_dir w) (cw_session_id w) i disk = Some disk' \<and>
     (\<forall>p. (\<forall>j \<ge> i. p \<noteq> cw_path w j) \<longrightarrow> disk' p = disk p) \<and> finite (dom disk')"
proof (induction "card (dom disk)" arbitrary: i disk rule: less_induct)
  case less
  show ?case
  proof (cases "disk (cw_path w i)")
    case None
    with less.prems show ?thesis by (subst remove_chunks_from.simps) (simp add: cw_path_def)
  next
    case (Some bs)
    let ?d = "disk(cw_path w i := None)"
    have "card (dom ?d) < card (dom disk)"
      using card_Diff1_less [of "dom disk" "cw_path w i"] less.prems Some by (simp add: domI)
    with less.prems less.hyps [of ?d "Suc i"] obtain disk' where
      *: "remove_chunks_from (cw_data_dir w) (cw_session_id w) (Suc i) ?d = Some disk'" "finite (dom disk')"
        "\<And>p. (\<forall>j \<ge> Suc i. p \<noteq> cw_path w j) \<Longrightarrow> disk' p = ?d p" by auto
    then have "remove_chunks_from (cw_data_dir w) (cw_session_id w) i disk = Some disk'"
      using Some by (subst remove_chunks_from.simps) (simp add: cw_path_def)
    with *(2,3) show ?thesis by (auto simp: Suc_le_eq)
  qed
qed

end
