(* ===== verification/Recording_Recovery.thy ===== *)
theory Recording_Recovery
  imports Recording_Laws
begin

text \<open>
  The recovery of a capture journal, from any prefix a crash may leave, and the closing of a chunk
  list that the end of a recording shares with it.
\<close>

section \<open>Minutes\<close>

lemma full_slices_concat:
  assumes "\<And>b. b \<in> set bodies \<Longrightarrow> length b = n" and "length m < n"
  shows "full_slices n (concat bodies @ m) = bodies" and "slice_rest n (concat bodies @ m) = m"
  using assms by (induction bodies) (simp_all add: full_slices_block)

lemma minutes_concat:
  assumes "\<And>b. b \<in> set bodies \<Longrightarrow> length b = n" and "length m < n"
  shows "minutes n (concat bodies @ m) = bodies @ (if m \<noteq> [] \<or> bodies = [] then [m] else [])"
proof (cases "bodies = [] \<and> m = []")
  case False
  have "concat bodies @ m \<noteq> []"
  proof (cases bodies)
    case (Cons b bs)
    with assms(1) [of b] assms(2) have "b \<noteq> []" by auto
    with Cons show ?thesis by simp
  qed (use False in simp)
  with False full_slices_concat [of bodies n m, OF assms] assms(2) show ?thesis by (auto simp: minutes_def slices_full)
qed (simp add: minutes_def)

lemma concat_minutes: "0 < n \<Longrightarrow> concat (minutes n pcm) = pcm"
  by (simp add: minutes_def concat_slices)

section \<open>Closing a chunk list\<close>

lemma close_chunks_spec:
  assumes "aead_ok c" and "draws_ok (draws env)" and rb: "rb_ok c w bodies rb"
    and full: "\<And>b. b \<in> set bodies \<Longrightarrow> length b = cw_limit w" and m: "length m < cw_limit w" and fin: "finite (dom (rb_disk rb))"
  obtains x disk where "close_chunks c env w m rb = Some (x, disk)" and "chunks_only w (rb_disk rb) disk"
    and "\<And>chunks. x = Inr chunks \<Longrightarrow> chunks = chunk_list w (minutes (cw_limit w) (concat bodies @ m)) \<and>
           laid_out c w disk (minutes (cw_limit w) (concat bodies @ m))"
    and "cw_ok w \<Longrightarrow> faultless (draws env) \<Longrightarrow> seal_fault env \<noteq> SyncFault \<Longrightarrow> \<exists>chunks. x = Inr chunks"
proof -
  define all where "all = minutes (cw_limit w) (concat bodies @ m)"
  have all: "all = bodies @ (if m \<noteq> [] \<or> bodies = [] then [m] else [])"
    unfolding all_def by (rule minutes_concat [OF full m])
  define y where "y = (if m \<noteq> [] \<or> rb_chunks rb = [] then write_minute c (draws env) w m rb else Inr rb)"
  have empty: "rb_chunks rb = [] \<longleftrightarrow> bodies = []" using rb by (simp add: rb_ok_def chunk_list_def)
  have kept: "chunks_only w (rb_disk rb) (rebuilt_disk y)" by (simp add: y_def write_minute_chunks_only)
  show thesis
  proof (cases y)
    case (Inl ed)
    obtain e disk where ed: "ed = (e, disk)" by fastforce
    have "\<not> (cw_ok w \<and> faultless (draws env))"
      using Inl write_minute_faultless [OF assms(1,2), of w m rb] by (auto simp: y_def split: if_splits)
    moreover have "close_chunks c env w m rb = Some (Inl e, disk)"
      unfolding close_chunks_def y_def [symmetric] by (simp add: Inl ed)
    ultimately show thesis using that [of "Inl e" disk] kept Inl ed by simp
  next
    case (Inr rb')
    have rb': "rb_chunks rb' = chunk_list w all" "laid_out c w (rb_disk rb') all"
      using Inr write_minute_Inr [OF assms(1,2) rb, of m rb'] rb empty
      by (auto simp: y_def all rb_ok_def split: if_splits)
    have "finite (dom (rb_disk rb'))" using kept fin Inr by (simp add: chunks_only_def)
    then obtain disk where rm: "remove_chunks_from (cw_data_dir w) (cw_session_id w) (length all) (rb_disk rb') = Some disk"
      and same: "\<And>p. (\<And>j. j \<ge> length all \<Longrightarrow> p \<noteq> cw_path w j) \<Longrightarrow> disk p = rb_disk rb' p" and fin': "finite (dom disk)"
      using remove_chunks_returns [of "rb_disk rb'" w "length all"] by auto
    have only: "chunks_only w (rb_disk rb) disk"
      using kept same fin' Inr by (auto simp: chunks_only_def image_iff)
    have laid: "laid_out c w disk all" by (rule laid_out_cong [OF rb'(2)]) (rule same, auto)
    have "all \<noteq> []" by (auto simp: all)
    then have "reads_as c (cw_key w) disk (cw_path w (length all - 1)) (all ! (length all - 1))"
      using laid by (simp add: laid_out_def)
    then have "disk (cw_path w (length all - 1)) \<noteq> None" by (rule reads_as_exists)
    moreover have last: "chunk_path (last (chunk_list w all)) = cw_path w (length all - 1)"
      using \<open>all \<noteq> []\<close> by (simp add: chunk_list_def last_map)
    ultimately have sealed: "seal_chunks (seal_fault env) disk (chunk_list w all) = (if seal_fault env = SyncFault then Inl WriteFailed else Inr ())"
      using \<open>all \<noteq> []\<close> by (auto simp: seal_chunks_def chunk_list_def split: list.split)
    have "close_chunks c env w m rb = Some (if seal_fault env = SyncFault then Inl WriteFailed else Inr (chunk_list w all), disk)"
      unfolding close_chunks_def y_def [symmetric] by (simp add: Inr rm rb'(1) sealed)
    with that only laid show thesis unfolding all_def by fastforce
  qed
qed

section \<open>Records\<close>

definition journal_of :: "bytes list \<Rightarrow> bytes" where
  "journal_of sealed = concat (map framed sealed)"

definition sealed_as :: "cipher \<Rightarrow> session_key \<Rightarrow> bytes list \<Rightarrow> bytes list \<Rightarrow> bool" where
  "sealed_as c key sealed ps \<longleftrightarrow> list_all2 (\<lambda>s p. decrypt_chunk c key s = Inr p \<and> length s = length p + 28) sealed ps"

definition pushable :: "nat \<Rightarrow> bytes \<Rightarrow> bool" where
  "pushable bpf p \<longleftrightarrow> bpf dvd length p \<and> length p \<le> MAX_CAPTURE_FRAME_BYTES"

text \<open>What a write cut short leaves of a record.\<close>

definition incomplete :: "bytes \<Rightarrow> bool" where
  "incomplete t \<longleftrightarrow> (\<exists>s n. 28 \<le> length s \<and> length s \<le> MAX_CAPTURE_FRAME_BYTES + 64 \<and> n < length (framed s) \<and> t = take n (framed s))"

lemma framed_length [simp]: "length (framed s) = length s + 4"
  by (simp add: framed_def)

lemma framed_header:
  assumes "length s \<le> MAX_CAPTURE_FRAME_BYTES + 64"
  shows "unat (from_le_bytes (take 4 (framed s @ rest))) = length s" and "drop 4 (framed s @ rest) = s @ rest"
proof -
  have "length s < 2 ^ 32" using assms by (simp add: MAX_CAPTURE_FRAME_BYTES_def)
  then show "unat (from_le_bytes (take 4 (framed s @ rest))) = length s" by (simp add: framed_def word_length)
qed (simp add: framed_def)

lemma incomplete_stops:
  assumes "incomplete t"
  shows "recover_records c ds w t captured m rb = Some (Inr (captured, m, rb))"
proof -
  obtain s n where s: "28 \<le> length s" "length s \<le> MAX_CAPTURE_FRAME_BYTES + 64" and n: "n < length s + 4" "t = take n (framed s)"
    using assms by (auto simp: incomplete_def)
  show ?thesis
  proof (cases "n < 4")
    case True
    with n show ?thesis by (subst recover_records.simps) simp
  next
    case False
    then have "take 4 t = take 4 (framed s @ [])" using n by simp
    then have "unat (from_le_bytes (take 4 t)) = length s" using framed_header(1) [OF s(2)] by metis
    moreover have "length t - 4 < length s" using False n by simp
    ultimately show ?thesis using False n(1) s by (subst recover_records.simps) (simp add: Let_def n(2))
  qed
qed

lemma incomplete_Nil [simp]: "incomplete []"
  unfolding incomplete_def by (rule exI [of _ "replicate 28 0"]) (auto simp: MAX_CAPTURE_FRAME_BYTES_def intro: exI [of _ 0])

lemma incomplete_take: "incomplete t \<Longrightarrow> incomplete (take m t)"
  unfolding incomplete_def by (metis take_take min.strict_coboundedI2)

definition count_frames :: "nat \<Rightarrow> u64 \<Rightarrow> bytes list \<Rightarrow> u64" where
  "count_frames bpf = foldl (\<lambda>n p. sat_add n (length p div bpf))"

lemma recover_records_spec:
  assumes "sealed_as c (cw_key w) sealed ps" and "\<And>p. p \<in> set ps \<Longrightarrow> pushable (cw_bytes_per_frame w) p"
    and "incomplete t" and "length m < cw_limit w"
  shows "recover_records c ds w (journal_of sealed @ t) captured m rb =
    Some (map_sum id (\<lambda>rb. (count_frames (cw_bytes_per_frame w) captured ps, slice_rest (cw_limit w) (m @ concat ps), rb))
      (emit_all (write_minute c ds w) (full_slices (cw_limit w) (m @ concat ps)) rb))"
  using assms
proof (induction sealed ps arbitrary: captured m rb rule: list_induct2')
  case 1
  then show ?case by (simp add: journal_of_def incomplete_stops count_frames_def)
next
  case (4 s sealed p ps)
  let ?lim = "cw_limit w" and ?bpf = "cw_bytes_per_frame w"
  have s: "decrypt_chunk c (cw_key w) s = Inr p" "length s = length p + 28" and rest: "sealed_as c (cw_key w) sealed ps"
    using "4.prems"(1) by (simp_all add: sealed_as_def)
  have p: "pushable ?bpf p" using "4.prems"(2) by simp
  then have len: "length s \<le> MAX_CAPTURE_FRAME_BYTES + 64" using s(2) by (simp add: pushable_def)
  have j: "journal_of (s # sealed) @ t = framed s @ journal_of sealed @ t" by (simp add: journal_of_def)
  have pos: "0 < ?lim" using "4.prems"(4) by simp
  have "recover_records c ds w (journal_of (s # sealed) @ t) captured m rb =
      (case cut_minutes ?lim (write_minute c ds w) p m rb of
         None \<Rightarrow> None | Some (Inl e) \<Rightarrow> Some (Inl e)
       | Some (Inr (m, rb)) \<Rightarrow> recover_records c ds w (journal_of sealed @ t) (sat_add captured (length p div ?bpf)) m rb)"
    unfolding j using framed_header [OF len, of "journal_of sealed @ t"] s p len
    by (subst recover_records.simps) (simp add: Let_def pushable_def dvd_eq_mod_eq_0 split: option.split sum.split)
  also have "\<dots> = (case emit_all (write_minute c ds w) (full_slices ?lim (m @ p)) rb of
      Inl e \<Rightarrow> Some (Inl e)
    | Inr rb \<Rightarrow> recover_records c ds w (journal_of sealed @ t) (sat_add captured (length p div ?bpf)) (slice_rest ?lim (m @ p)) rb)"
    by (simp add: cut_minutes_spec [OF "4.prems"(4)] split: sum.split)
  also have "\<dots> = Some (map_sum id (\<lambda>rb. (count_frames ?bpf captured (p # ps), slice_rest ?lim (m @ concat (p # ps)), rb))
      (emit_all (write_minute c ds w) (full_slices ?lim (m @ concat (p # ps))) rb))"
    using "4.IH" [OF rest _ "4.prems"(3) slice_rest_length [OF pos, of "m @ p"]] "4.prems"(2)
      full_slices_append [OF pos, of "m @ p" "concat ps"]
    by (auto simp: emit_all_append count_frames_def id_def split: sum.split)
  finally show ?case .
qed (simp_all add: sealed_as_def)

section \<open>The recovery\<close>

definition recovery_writer :: "path \<Rightarrow> ustring \<Rightarrow> session_key \<Rightarrow> nat \<Rightarrow> nat \<Rightarrow> chunk_writer" where
  "recovery_writer data_dir session_id key rate channels =
     \<lparr>cw_data_dir = data_dir, cw_session_id = session_id, cw_key = key, cw_sample_rate = rate,
      cw_bytes_per_frame = bytes_per_frame channels S16\<rparr>"

text \<open>The audio \<open>pcm\<close> of a recording is on the disk as chunks, and \<open>res\<close> describes them.\<close>

definition recovered_as :: "cipher \<Rightarrow> chunk_writer \<Rightarrow> nat \<Rightarrow> bytes list \<Rightarrow> disk \<Rightarrow> recovered \<Rightarrow> bool" where
  "recovered_as c w channels ps disk res \<longleftrightarrow>
     (let frames = count_frames (cw_bytes_per_frame w) 0 ps; bodies = minutes (cw_limit w) (concat ps)
      in laid_out c w disk bodies \<and>
         res = \<lparr>rr_session_id = cw_session_id w, rr_encrypted_path = cw_path w 0, rr_audio_chunks = chunk_list w bodies,
           rr_duration_ms = duration_ms frames (cw_sample_rate w), rr_sample_rate = cw_sample_rate w,
           rr_channels = channels, rr_captured_frames = frames, rr_sample_format = S16\<rparr>)"

lemma minutes_not_Nil: "0 < n \<Longrightarrow> minutes n pcm \<noteq> []"
  by (cases pcm) (auto simp: minutes_def slices.simps)

lemma chunk_list_first: "bodies \<noteq> [] \<Longrightarrow> chunk_path (hd (chunk_list w bodies)) = cw_path w 0"
  by (simp add: chunk_list_def hd_map)

lemma recover_journal_spec:
  fixes data_dir session_id key rate channels
  defines "w \<equiv> recovery_writer data_dir session_id key rate channels"
  assumes "aead_ok c" and "draws_ok (draws env)" and "finite (dom disk)"
    and journal: "disk (session_capture_journal_path data_dir session_id) = Some (MAGIC_S16 @ journal_of sealed @ t)"
    and sealed: "sealed_as c key sealed ps" and ps: "\<And>p. p \<in> set ps \<Longrightarrow> pushable (bytes_per_frame channels S16) p"
    and t: "incomplete t"
  obtains x disk' where "recover_capture_audio_journal c env data_dir session_id key rate channels disk = Some (x, disk')"
    and "chunks_only w disk disk'" and "\<And>res. x = Inr res \<Longrightarrow> recovered_as c w channels ps disk' res"
    and "require_session_id_path_component session_id = Inr () \<Longrightarrow> faultless (draws env) \<Longrightarrow> seal_fault env \<noteq> SyncFault \<Longrightarrow> \<exists>res. x = Inr res"
proof -
  let ?lim = "cw_limit w" and ?rb = "\<lparr>rb_start = 0, rb_chunks = [], rb_disk = disk\<rparr>" and ?frames = "count_frames (cw_bytes_per_frame w) 0 ps"
  have w: "w = \<lparr>cw_data_dir = data_dir, cw_session_id = session_id, cw_key = key, cw_sample_rate = rate, cw_bytes_per_frame = bytes_per_frame channels S16\<rparr>"
    by (simp add: w_def recovery_writer_def)
  have pos: "0 < ?lim" by (simp add: cw_limit_def w)
  have rec: "recover_records c (draws env) w (journal_of sealed @ t) 0 [] ?rb =
      Some (map_sum id (\<lambda>rb. (?frames, slice_rest ?lim (concat ps), rb)) (emit_all (write_minute c (draws env) w) (full_slices ?lim (concat ps)) ?rb))"
    using recover_records_spec [of c w sealed ps t "[]"] sealed ps t pos by (simp add: w)
  have magic: "length MAGIC_S16 = 8" by (simp add: MAGIC_S16_def)
  have ok: "cw_ok w" if "require_session_id_path_component session_id = Inr ()" using that by (simp add: cw_ok_def w)
  show thesis
  proof (cases "emit_all (write_minute c (draws env) w) (full_slices ?lim (concat ps)) ?rb")
    case (Inl ed)
    obtain e disk' where ed: "ed = (e, disk')" by fastforce
    have "recover_capture_audio_journal c env data_dir session_id key rate channels disk = Some (Inl e, disk')"
      using journal magic rec [unfolded Inl ed] by (simp add: recover_capture_audio_journal_def Let_def w [symmetric])
    moreover have "chunks_only w disk disk'"
      using emit_minutes_chunks_only [of w ?rb c "draws env" "full_slices ?lim (concat ps)"] Inl ed by simp
    moreover have "\<not> (cw_ok w \<and> faultless (draws env))"
      using Inl emit_minutes_faultless [OF assms(2,3), of w "full_slices ?lim (concat ps)" ?rb] by auto
    ultimately show thesis using that [of "Inl e" disk'] ok by auto
  next
    case (Inr rb)
    have rb: "rb_ok c w (full_slices ?lim (concat ps)) rb"
      using emit_minutes_ok [OF _ Inr, of "[]"] assms(2,3) full_slices_length by (auto simp: rb_ok_def chunk_list_def)
    have only: "chunks_only w disk (rb_disk rb)"
      using emit_minutes_chunks_only [of w ?rb c "draws env" "full_slices ?lim (concat ps)"] Inr by simp
    then have fin: "finite (dom (rb_disk rb))" using assms(4) by (simp add: chunks_only_def)
    obtain x disk' where close: "close_chunks c env w (slice_rest ?lim (concat ps)) rb = Some (x, disk')"
      and only': "chunks_only w (rb_disk rb) disk'"
      and x: "\<And>chunks. x = Inr chunks \<Longrightarrow> chunks = chunk_list w (minutes ?lim (concat ps)) \<and> laid_out c w disk' (minutes ?lim (concat ps))"
      and good: "cw_ok w \<Longrightarrow> faultless (draws env) \<Longrightarrow> seal_fault env \<noteq> SyncFault \<Longrightarrow> \<exists>chunks. x = Inr chunks"
      by (rule close_chunks_spec [OF assms(2,3) rb, of "slice_rest ?lim (concat ps)"])
        (auto simp: concat_full_slices pos fin intro: full_slices_length slice_rest_length)
    let ?res = "\<lparr>rr_session_id = session_id, rr_encrypted_path = cw_path w 0, rr_audio_chunks = chunk_list w (minutes ?lim (concat ps)),
       rr_duration_ms = duration_ms ?frames rate, rr_sample_rate = rate, rr_channels = channels,
       rr_captured_frames = ?frames, rr_sample_format = S16\<rparr>"
    have first: "(case chunk_list w (minutes ?lim (concat ps)) of [] \<Rightarrow> session_audio_chunk_path data_dir session_id 0 | ch # _ \<Rightarrow> chunk_path ch) = cw_path w 0"
      using chunk_list_first [of "minutes ?lim (concat ps)" w] minutes_not_Nil [OF pos, of "concat ps"]
      by (auto simp: cw_path_def w split: list.split)
    have result: "recover_capture_audio_journal c env data_dir session_id key rate channels disk =
        Some (map_sum id (\<lambda>_. ?res) x, disk')"
      using journal magic rec [unfolded Inr] close x first
      by (cases x) (simp_all add: recover_capture_audio_journal_def Let_def w [symmetric])
    have succeeds: "\<exists>res. map_sum id (\<lambda>_. ?res) x = Inr res"
      if "require_session_id_path_component session_id = Inr ()" "faultless (draws env)" "seal_fault env \<noteq> SyncFault"
      using good [OF ok] that by fastforce
    show thesis
      by (rule that [OF result chunks_only_trans [OF only only'] _ succeeds])
        (use x good ok in \<open>cases x; auto simp: recovered_as_def Let_def w\<close>)
  qed
qed

section \<open>Concrete parameters\<close>

text \<open>A cipher that satisfies \<open>aead_ok\<close> (it does not hide anything); a disk that takes everything.\<close>

definition plain_cipher :: cipher where
  "plain_cipher = \<lparr>aead_encrypt = (\<lambda>key nonce p. Some (p @ replicate 16 0)),
     aead_decrypt = (\<lambda>key nonce ct. Some (take (length ct - 16) ct))\<rparr>"

definition plain_draw :: draw where
  "plain_draw = \<lparr>uuid = lit ''u'', nonces = (\<lambda>i. replicate 12 0), fault = NoFault\<rparr>"

definition plain_env :: write_env where
  "plain_env = \<lparr>draws = (\<lambda>i. plain_draw), seal_fault = NoFault\<rparr>"

lemma plain_cipher_ok: "aead_ok plain_cipher"
  by (simp add: aead_ok_def plain_cipher_def)

lemma plain_env_ok: "draws_ok (draws plain_env)" "faultless (draws plain_env)" "seal_fault plain_env = NoFault"
  by (simp_all add: plain_env_def plain_draw_def draws_ok_def nonces_ok_def faultless_def)

lemma demo_id_ok: "require_session_id_path_component (lit ''s'') = Inr ()"
  by (simp add: require_session_id_path_component_def component_count_def lit_def starts_with_def)

end
