(* ===== verification/Recording_Run.thy ===== *)
theory Recording_Run
  imports Recording_Recovery
begin

text \<open>
  A recording from its start on: blocks pushed by the audio callback, turns of the flushing thread
  and of the live chunk writer in any order, with any failures; what the journal, the counters and
  the live chunks hold at every moment, and what the end of the recording and a crash leave.
\<close>

section \<open>The recordings\<close>

text \<open>
  \<open>recording c alive ps r\<close>: the recorder \<open>r\<close> has accepted the blocks \<open>ps\<close>. A failed push ends the
  recording (\<open>push_notebook_capture_session\<close> takes the capture out), so no push follows it.
\<close>

inductive recording :: "cipher \<Rightarrow> bool \<Rightarrow> bytes list \<Rightarrow> recorder \<Rightarrow> bool" for c :: cipher where
  Start: "finite (dom disk) \<Longrightarrow> start_journal d session_id config key disk = (Inr r, disk') \<Longrightarrow> recording c True [] r"
| Push: "recording c True ps r \<Longrightarrow> length nonce = 12 \<Longrightarrow> push_s16_pcm c nonce wrote pcm r = Some (Inr (), r') \<Longrightarrow>
    recording c True (ps @ [pcm]) r'"
| Push_fails: "recording c True ps r \<Longrightarrow> length nonce = 12 \<Longrightarrow> push_s16_pcm c nonce wrote pcm r = Some (Inl e, r') \<Longrightarrow>
    recording c False ps r'"
| Flush: "recording c alive ps r \<Longrightarrow> recording c alive ps (flush_step works r)"
| Live: "recording c alive ps r \<Longrightarrow> nonces_ok (nonces d) \<Longrightarrow> recording c alive ps (live_step c d r)"

section \<open>What a recorder holds\<close>

abbreviation rec_limit :: "recorder \<Rightarrow> nat" where
  "rec_limit r \<equiv> cw_limit (rec_writer r)"

definition journal_ok :: "cipher \<Rightarrow> bool \<Rightarrow> bytes list \<Rightarrow> recorder \<Rightarrow> bool" where
  "journal_ok c alive ps r \<longleftrightarrow> (\<exists>sealed t. rec_disk r (journal_path r) = Some (MAGIC_S16 @ journal_of sealed @ t) \<and>
     sealed_as c (rec_key r) sealed ps \<and> incomplete t \<and> (alive \<longrightarrow> t = []))"

definition counted :: "bytes list \<Rightarrow> recorder \<Rightarrow> bool" where
  "counted ps r \<longleftrightarrow> (\<forall>p \<in> set ps. pushable (rec_bytes_per_frame r) p) \<and>
     captured_frames r = count_frames (rec_bytes_per_frame r) 0 ps"

definition base_ok :: "recorder \<Rightarrow> bool" where
  "base_ok r \<longleftrightarrow> finite (dom (rec_disk r)) \<and> require_session_id_path_component (rec_session_id r) = Inr ()"

definition nth_live :: "chunk_writer \<Rightarrow> bytes list \<Rightarrow> nat \<Rightarrow> live_chunk" where
  "nth_live w bodies i = \<lparr>lc_index = i, lc_start_frame = nth_start w i, lc_plaintext = bodies ! i\<rparr>"

definition queue_ok :: "cipher \<Rightarrow> bytes list \<Rightarrow> recorder \<Rightarrow> bool" where
  "queue_ok c bodies r \<longleftrightarrow> (let k = length (lw_written r); w = rec_writer r
     in k \<le> length bodies \<and> lw_written r = chunk_list w (take k bodies) \<and> laid_out c w (rec_disk r) (take k bodies) \<and>
        lw_queue r = map (nth_live w bodies) [k..<length bodies])"

definition live_ok :: "cipher \<Rightarrow> bytes list \<Rightarrow> recorder \<Rightarrow> bool" where
  "live_ok c ps r \<longleftrightarrow> (let bodies = full_slices (rec_limit r) (concat ps)
     in (lw_gone r \<longrightarrow> lw_failure r \<noteq> None) \<and> (\<not> lw_gone r \<longrightarrow> live_chunks_usable r \<and> lw_failure r = None \<and> queue_ok c bodies r) \<and>
        (live_chunks_usable r \<longrightarrow> minute r = slice_rest (rec_limit r) (concat ps) \<and> next_chunk_index r = length bodies \<and>
           minute_start_frame r = nth_start (rec_writer r) (length bodies)))"

definition recorder_ok :: "cipher \<Rightarrow> bool \<Rightarrow> bytes list \<Rightarrow> recorder \<Rightarrow> bool" where
  "recorder_ok c alive ps r \<longleftrightarrow> base_ok r \<and> journal_ok c alive ps r \<and> counted ps r \<and> live_ok c ps r"

lemma rec_writer_fields [simp]:
  "cw_key (rec_writer r) = rec_key r" "cw_bytes_per_frame (rec_writer r) = rec_bytes_per_frame r"
  "cw_session_id (rec_writer r) = rec_session_id r" "cw_journal (rec_writer r) = journal_path r"
  by (simp_all add: rec_writer_def cw_journal_def journal_path_def)

lemma rec_parts_update [simp]:
  "rec_writer (r\<lparr>captured_frames := x0\<rparr>) = rec_writer r" "rec_bytes_per_frame (r\<lparr>captured_frames := x0\<rparr>) = rec_bytes_per_frame r" "journal_path (r\<lparr>captured_frames := x0\<rparr>) = journal_path r"
  "rec_writer (r\<lparr>records_since_sync := x1\<rparr>) = rec_writer r" "rec_bytes_per_frame (r\<lparr>records_since_sync := x1\<rparr>) = rec_bytes_per_frame r" "journal_path (r\<lparr>records_since_sync := x1\<rparr>) = journal_path r"
  "rec_writer (r\<lparr>minute := x2\<rparr>) = rec_writer r" "rec_bytes_per_frame (r\<lparr>minute := x2\<rparr>) = rec_bytes_per_frame r" "journal_path (r\<lparr>minute := x2\<rparr>) = journal_path r"
  "rec_writer (r\<lparr>minute_start_frame := x3\<rparr>) = rec_writer r" "rec_bytes_per_frame (r\<lparr>minute_start_frame := x3\<rparr>) = rec_bytes_per_frame r" "journal_path (r\<lparr>minute_start_frame := x3\<rparr>) = journal_path r"
  "rec_writer (r\<lparr>next_chunk_index := x4\<rparr>) = rec_writer r" "rec_bytes_per_frame (r\<lparr>next_chunk_index := x4\<rparr>) = rec_bytes_per_frame r" "journal_path (r\<lparr>next_chunk_index := x4\<rparr>) = journal_path r"
  "rec_writer (r\<lparr>live_chunks_usable := x5\<rparr>) = rec_writer r" "rec_bytes_per_frame (r\<lparr>live_chunks_usable := x5\<rparr>) = rec_bytes_per_frame r" "journal_path (r\<lparr>live_chunks_usable := x5\<rparr>) = journal_path r"
  "rec_writer (r\<lparr>lw_queue := x6\<rparr>) = rec_writer r" "rec_bytes_per_frame (r\<lparr>lw_queue := x6\<rparr>) = rec_bytes_per_frame r" "journal_path (r\<lparr>lw_queue := x6\<rparr>) = journal_path r"
  "rec_writer (r\<lparr>lw_written := x7\<rparr>) = rec_writer r" "rec_bytes_per_frame (r\<lparr>lw_written := x7\<rparr>) = rec_bytes_per_frame r" "journal_path (r\<lparr>lw_written := x7\<rparr>) = journal_path r"
  "rec_writer (r\<lparr>lw_failure := x8\<rparr>) = rec_writer r" "rec_bytes_per_frame (r\<lparr>lw_failure := x8\<rparr>) = rec_bytes_per_frame r" "journal_path (r\<lparr>lw_failure := x8\<rparr>) = journal_path r"
  "rec_writer (r\<lparr>lw_gone := x9\<rparr>) = rec_writer r" "rec_bytes_per_frame (r\<lparr>lw_gone := x9\<rparr>) = rec_bytes_per_frame r" "journal_path (r\<lparr>lw_gone := x9\<rparr>) = journal_path r"
  "rec_writer (r\<lparr>sync_wake := x10\<rparr>) = rec_writer r" "rec_bytes_per_frame (r\<lparr>sync_wake := x10\<rparr>) = rec_bytes_per_frame r" "journal_path (r\<lparr>sync_wake := x10\<rparr>) = journal_path r"
  "rec_writer (r\<lparr>sync_failure := x11\<rparr>) = rec_writer r" "rec_bytes_per_frame (r\<lparr>sync_failure := x11\<rparr>) = rec_bytes_per_frame r" "journal_path (r\<lparr>sync_failure := x11\<rparr>) = journal_path r"
  "rec_writer (r\<lparr>flushed := x12\<rparr>) = rec_writer r" "rec_bytes_per_frame (r\<lparr>flushed := x12\<rparr>) = rec_bytes_per_frame r" "journal_path (r\<lparr>flushed := x12\<rparr>) = journal_path r"
  "rec_writer (r\<lparr>rec_disk := x13\<rparr>) = rec_writer r" "rec_bytes_per_frame (r\<lparr>rec_disk := x13\<rparr>) = rec_bytes_per_frame r" "journal_path (r\<lparr>rec_disk := x13\<rparr>) = journal_path r"
  by (simp_all add: rec_writer_def rec_bytes_per_frame_def journal_path_def)

lemma rec_bytes_per_frame_pos [simp]: "0 < rec_bytes_per_frame r"
  by (simp add: rec_bytes_per_frame_def)

lemma rec_limit_pos [simp]: "0 < rec_limit r"
  by (simp add: cw_limit_def)

lemma rec_limit_eq: "chunk_byte_limit (rc_sample_rate (rec_config r)) (rec_bytes_per_frame r) = rec_limit r"
  by (simp add: cw_limit_def rec_writer_def)

section \<open>Start\<close>

lemma start_journal_ok: "finite (dom disk) \<Longrightarrow> start_journal d session_id config key disk = (Inr r, disk') \<Longrightarrow> recorder_ok c True [] r"
  by (auto simp: start_journal_def create_session_audio_dir_def create_capture_journal_file_def recorder_ok_def base_ok_def
      journal_ok_def journal_path_def journal_of_def sealed_as_def counted_def count_frames_def live_ok_def queue_ok_def
      chunk_list_def Let_def split: sum.splits if_splits io_fault.splits)

section \<open>The threads\<close>

lemma flush_step_simps [simp]:
  "rec_disk (flush_step works r) = rec_disk r" "rec_writer (flush_step works r) = rec_writer r"
  "journal_path (flush_step works r) = journal_path r" "rec_key (flush_step works r) = rec_key r"
  "rec_session_id (flush_step works r) = rec_session_id r" "captured_frames (flush_step works r) = captured_frames r"
  "rec_bytes_per_frame (flush_step works r) = rec_bytes_per_frame r" "lw_written (flush_step works r) = lw_written r"
  "lw_queue (flush_step works r) = lw_queue r" "lw_gone (flush_step works r) = lw_gone r" "lw_failure (flush_step works r) = lw_failure r"
  "live_chunks_usable (flush_step works r) = live_chunks_usable r" "minute (flush_step works r) = minute r"
  "next_chunk_index (flush_step works r) = next_chunk_index r" "minute_start_frame (flush_step works r) = minute_start_frame r"
  by (simp_all add: flush_step_def rec_writer_def journal_path_def rec_bytes_per_frame_def)

lemma flush_step_ok: "recorder_ok c alive ps r \<Longrightarrow> recorder_ok c alive ps (flush_step works r)"
  by (simp add: recorder_ok_def base_ok_def journal_ok_def counted_def live_ok_def queue_ok_def Let_def)

text \<open>The live chunk writer writes chunks and nothing else.\<close>

lemma live_step_only: "chunks_only (rec_writer r) (rec_disk r) (rec_disk (live_step c d r))"
  by (auto simp: live_step_def split: list.split prod.split sum.split dest: chunk_write_chunks_only)

lemma live_step_simps [simp]:
  "rec_writer (live_step c d r) = rec_writer r" "journal_path (live_step c d r) = journal_path r"
  "rec_key (live_step c d r) = rec_key r" "rec_session_id (live_step c d r) = rec_session_id r"
  "rec_config (live_step c d r) = rec_config r"
  "captured_frames (live_step c d r) = captured_frames r" "rec_bytes_per_frame (live_step c d r) = rec_bytes_per_frame r"
  "live_chunks_usable (live_step c d r) = live_chunks_usable r" "minute (live_step c d r) = minute r"
  "next_chunk_index (live_step c d r) = next_chunk_index r" "minute_start_frame (live_step c d r) = minute_start_frame r"
  "sync_wake (live_step c d r) = sync_wake r" "sync_failure (live_step c d r) = sync_failure r"
  "records_since_sync (live_step c d r) = records_since_sync r" "flushed (live_step c d r) = flushed r"
  by (auto simp: live_step_def rec_writer_def journal_path_def rec_bytes_per_frame_def split: list.split prod.split sum.split)

lemma live_step_journal: "rec_disk (live_step c d r) (journal_path r) = rec_disk r (journal_path r)"
  using live_step_only [of r c d, THEN chunks_only_journal] by simp

lemma live_step_queue:
  assumes "aead_ok c" and "nonces_ok (nonces d)" and q: "queue_ok c bodies r" and ne: "lw_queue r \<noteq> []"
    and alive: "\<not> lw_gone (live_step c d r)"
  shows "queue_ok c bodies (live_step c d r)" and "lw_failure (live_step c d r) = lw_failure r"
proof -
  let ?w = "rec_writer r" and ?k = "length (lw_written r)"
  have k: "?k < length bodies" and queue: "lw_queue r = nth_live ?w bodies ?k # map (nth_live ?w bodies) [Suc ?k..<length bodies]"
    and written: "lw_written r = chunk_list ?w (take ?k bodies)" and laid: "laid_out c ?w (rec_disk r) (take ?k bodies)"
    using q ne by (auto simp: queue_ok_def Let_def upt_conv_Cons dest: le_neq_implies_less)
  obtain x disk where cw: "chunk_write c d ?w (bodies ! ?k) (nth_start ?w ?k) ?k (rec_disk r) = (x, disk)" by fastforce
  then obtain ch where x: "x = Inr ch"
    using alive queue by (cases x) (auto simp: live_step_def nth_live_def)
  have step: "live_step c d r = r\<lparr>lw_queue := map (nth_live ?w bodies) [Suc ?k..<length bodies], lw_written := lw_written r @ [ch], rec_disk := disk\<rparr>"
    using cw x queue by (simp add: live_step_def nth_live_def)
  note chunk = chunk_write_Inr [OF assms(1,2) cw [unfolded x]]
  have "lw_written r @ [ch] = chunk_list ?w (take (Suc ?k) bodies)"
    using k chunk(1) written by (subst take_Suc_conv_app_nth) (simp_all add: chunk_list_snoc min_def)
  moreover have "laid_out c ?w disk (take (Suc ?k) bodies)"
    unfolding take_Suc_conv_app_nth [OF k]
    by (rule laid_out_snoc [OF laid]) (use k chunk(2) chunk_write_frame [OF cw] in \<open>auto simp: min_def\<close>)
  ultimately show "queue_ok c bodies (live_step c d r)" "lw_failure (live_step c d r) = lw_failure r"
    using k by (auto simp: step queue_ok_def Let_def rec_writer_def rec_bytes_per_frame_def)
qed

lemma live_step_gone:
  "lw_gone (live_step c d r) \<Longrightarrow> \<not> lw_gone r \<Longrightarrow> lw_failure (live_step c d r) \<noteq> None"
  by (auto simp: live_step_def split: list.splits prod.splits sum.splits)

lemma live_step_stays_gone: "lw_gone r \<Longrightarrow> lw_gone (live_step c d r)"
  by (auto simp: live_step_def split: list.splits prod.splits sum.splits)

lemma live_step_failure_kept: "lw_failure r \<noteq> None \<Longrightarrow> lw_failure (live_step c d r) \<noteq> None"
  by (auto simp: live_step_def split: list.splits prod.splits sum.splits)

lemma live_step_idle: "lw_queue r = [] \<Longrightarrow> live_step c d r = r"
  by (simp add: live_step_def)

lemma live_step_ok:
  assumes "aead_ok c" and "nonces_ok (nonces d)" and ok: "recorder_ok c alive ps r"
  shows "recorder_ok c alive ps (live_step c d r)"
proof (cases "lw_queue r = []")
  case False
  let ?r = "live_step c d r"
  have "finite (dom (rec_disk ?r))"
    using live_step_only [of r c d] ok by (simp add: chunks_only_def recorder_ok_def base_ok_def)
  moreover have "live_ok c ps ?r"
  proof (cases "lw_gone ?r")
    case True
    then show ?thesis
      using ok live_step_gone live_step_failure_kept by (fastforce simp: recorder_ok_def live_ok_def Let_def)
  next
    case alive: False
    then have "\<not> lw_gone r" using live_step_stays_gone by blast
    with ok have "queue_ok c (full_slices (rec_limit r) (concat ps)) r" "live_chunks_usable r" "lw_failure r = None"
      by (simp_all add: recorder_ok_def live_ok_def Let_def)
    with live_step_queue [OF assms(1,2) this(1) False alive] alive ok show ?thesis
      by (simp add: recorder_ok_def live_ok_def Let_def)
  qed
  ultimately show ?thesis
    using ok live_step_journal [of c d r] by (simp add: recorder_ok_def base_ok_def journal_ok_def counted_def)
qed (use ok live_step_idle in simp)

section \<open>A push\<close>

definition submitted :: "recorder \<Rightarrow> bytes list \<Rightarrow> recorder \<Rightarrow> bool" where
  "submitted r0 bodies r \<longleftrightarrow> (\<exists>q. r = r0\<lparr>lw_queue := q, next_chunk_index := length bodies,
       minute_start_frame := nth_start (rec_writer r0) (length bodies)\<rparr> \<and>
     length (lw_written r0) \<le> length bodies \<and> q = map (nth_live (rec_writer r0) bodies) [length (lw_written r0)..<length bodies])"

lemma submit_minute_submitted:
  assumes "submitted r0 bodies r" and "submit_minute (rec_limit r0) b r = Inr r'"
  shows "submitted r0 (bodies @ [b]) r'"
proof -
  let ?k = "length (lw_written r0)" and ?w = "rec_writer r0"
  have k: "?k \<le> length bodies" using assms(1) by (auto simp: submitted_def)
  have "map (nth_live ?w (bodies @ [b])) [?k..<length (bodies @ [b])] = map (nth_live ?w bodies) [?k..<length bodies] @ [nth_live ?w (bodies @ [b]) (length bodies)]"
    using k by (auto simp: nth_live_def nth_append)
  with assms k show ?thesis
    by (auto simp: submitted_def submit_minute_def nth_live_def nth_start_Suc split: if_splits)
qed

interpretation live_minutes: minute_sink "submit_minute (rec_limit r0)" "submitted r0" "rec_limit r0" for r0
  by unfold_locales (rule submit_minute_submitted)

lemma emit_submit_works: "\<not> lw_gone r \<Longrightarrow> \<exists>r'. emit_all (submit_minute limit) bs r = Inr r'"
  by (induction bs arbitrary: r) (auto simp: submit_minute_def)

lemma emit_submit_gone:
  "lw_gone r \<Longrightarrow> emit_all (submit_minute limit) bs r =
     (if bs = [] then Inr r else Inl (r\<lparr>live_chunks_usable := False, minute := []\<rparr>))"
  by (cases bs) (simp_all add: submit_minute_def)

lemma buffer_live_minute_spec:
  "length (minute r) < rec_limit r \<Longrightarrow> buffer_live_minute pcm r =
    (case emit_all (submit_minute (rec_limit r)) (full_slices (rec_limit r) (minute r @ pcm)) r of
       Inl r \<Rightarrow> Some r | Inr r' \<Rightarrow> Some (r'\<lparr>minute := slice_rest (rec_limit r) (minute r @ pcm)\<rparr>))"
  by (simp add: buffer_live_minute_def rec_limit_eq Let_def cut_minutes_spec split: sum.split)

lemma buffer_live_minute_ok:
  assumes ok: "live_ok c ps r" and usable: "live_chunks_usable r"
  obtains q n f m u where
    "buffer_live_minute pcm r = Some (r\<lparr>lw_queue := q, next_chunk_index := n, minute_start_frame := f, minute := m, live_chunks_usable := u\<rparr>)"
    and "live_ok c (ps @ [pcm]) (r\<lparr>lw_queue := q, next_chunk_index := n, minute_start_frame := f, minute := m, live_chunks_usable := u\<rparr>)"
proof -
  let ?lim = "rec_limit r" and ?w = "rec_writer r"
  define old where "old = full_slices ?lim (concat ps)"
  define bs where "bs = full_slices ?lim (minute r @ pcm)"
  define m where "m = slice_rest ?lim (minute r @ pcm)"
  have r: "minute r = slice_rest ?lim (concat ps)" "next_chunk_index r = length old" "minute_start_frame r = nth_start ?w (length old)"
    using ok usable by (simp_all add: live_ok_def Let_def old_def)
  have short: "length (minute r) < ?lim" using r(1) slice_rest_length [of ?lim] by simp
  have more: "full_slices ?lim (concat (ps @ [pcm])) = old @ bs" "slice_rest ?lim (concat (ps @ [pcm])) = m"
    using full_slices_append [of ?lim "concat ps" pcm] by (simp_all add: old_def bs_def m_def r(1))
  show thesis
  proof (cases "lw_gone r")
    case True
    then have "lw_failure r \<noteq> None" using ok by (simp add: live_ok_def Let_def)
    show thesis
    proof (cases "bs = []")
      case True
      show thesis
        by (rule that [where q = "lw_queue r" and n = "next_chunk_index r" and f = "minute_start_frame r" and m = m and u = True])
          (use r(2,3) more True \<open>lw_gone r\<close> \<open>lw_failure r \<noteq> None\<close> usable in
            \<open>simp_all add: buffer_live_minute_spec [OF short] emit_submit_gone bs_def [symmetric] m_def [symmetric] live_ok_def Let_def\<close>)
    next
      case False
      show thesis
        by (rule that [where q = "lw_queue r" and n = "next_chunk_index r" and f = "minute_start_frame r" and m = "[]" and u = False])
          (use False \<open>lw_gone r\<close> \<open>lw_failure r \<noteq> None\<close> in
            \<open>simp_all add: buffer_live_minute_spec [OF short] emit_submit_gone bs_def [symmetric] live_ok_def Let_def\<close>)
    qed
  next
    case False
    have q: "queue_ok c old r" "lw_failure r = None" using ok False by (simp_all add: live_ok_def Let_def old_def)
    then have "submitted r old r" using r(2,3) by (auto simp: submitted_def queue_ok_def Let_def)
    moreover obtain r' where emit: "emit_all (submit_minute ?lim) bs r = Inr r'" using emit_submit_works [OF False] by blast
    ultimately have "submitted r (old @ bs) r'"
      by (rule live_minutes.all_taken) (simp add: bs_def full_slices_length)
    then obtain q where r': "r' = r\<lparr>lw_queue := q, next_chunk_index := length (old @ bs), minute_start_frame := nth_start ?w (length (old @ bs))\<rparr>"
      and queue: "q = map (nth_live ?w (old @ bs)) [length (lw_written r)..<length (old @ bs)]" by (auto simp: submitted_def)
    let ?r = "r\<lparr>lw_queue := q, next_chunk_index := length (old @ bs), minute_start_frame := nth_start ?w (length (old @ bs)), minute := m, live_chunks_usable := True\<rparr>"
    have "queue_ok c (old @ bs) ?r"
      using q(1) queue by (simp add: queue_ok_def Let_def)
    then have "live_ok c (ps @ [pcm]) ?r"
      using False q(2) more by (simp add: live_ok_def Let_def)
    moreover have "buffer_live_minute pcm r = Some ?r"
      using usable emit r' by (simp add: buffer_live_minute_spec [OF short] bs_def [symmetric] m_def [symmetric])
    ultimately show thesis
      by (intro that [where q = q and n = "length (old @ bs)" and f = "nth_start ?w (length (old @ bs))" and m = m and u = True])
  qed
qed

lemma count_frames_snoc: "count_frames bpf n (ps @ [p]) = sat_add (count_frames bpf n ps) (length p div bpf)"
  by (simp add: count_frames_def)

lemma journal_bytes_ok:
  "rec_disk r (journal_path r) = Some bs \<Longrightarrow> journal_bytes r = bs"
  by (simp add: journal_bytes_def)

lemma journal_path_not_chunk [simp]: "cw_path (rec_writer r) i \<noteq> journal_path r" "journal_path r \<noteq> cw_path (rec_writer r) i"
  using cw_paths(2,3) [of "rec_writer r"] by simp_all

definition sync_state :: "recorder \<Rightarrow> nat \<times> bool \<times> nat \<times> bool" where
  "sync_state r = (records_since_sync r, sync_wake r, flushed r, sync_failure r)"

definition synced_push :: "recorder \<Rightarrow> nat \<times> bool \<times> nat \<times> bool" where
  "synced_push r = (if CAPTURE_JOURNAL_SYNC_INTERVAL \<le> records_since_sync r + 1 then (0, True, flushed r, sync_failure r)
     else (records_since_sync r + 1, sync_wake r, flushed r, sync_failure r))"

text \<open>What a push does to a recorder in good order: nothing, part of a record, or the whole block.\<close>

lemma push_cases:
  assumes "aead_ok c" and "length nonce = 12" and ok: "recorder_ok c True ps r"
  obtains (refused) e where "push_s16_pcm c nonce wrote pcm r = Some (Inl e, r)"
      and "\<not> (2 dvd length pcm \<and> pushable (rec_bytes_per_frame r) pcm \<and> \<not> sync_failure r)"
  | (torn) e r' where "push_s16_pcm c nonce wrote pcm r = Some (Inl e, r')" and "recorder_ok c False ps r'" and "sync_state r' = sync_state r"
      and "wrote \<noteq> None"
  | (accepted) r' where "push_s16_pcm c nonce wrote pcm r = Some (Inr (), r')" and "recorder_ok c True (ps @ [pcm]) r'"
      and "sync_state r' = synced_push r"
proof (cases "2 dvd length pcm \<and> pushable (rec_bytes_per_frame r) pcm \<and> \<not> sync_failure r")
  case False
  have "\<exists>e. push_s16_pcm c nonce wrote pcm r = Some (Inl e, r)"
    using False by (auto simp: push_s16_pcm_def push_stored_pcm_def pushable_def split: sum.split)
  with refused False show thesis by blast
next
  case good: True
  have "length pcm \<le> aead_limit" using good by (simp add: pushable_def MAX_CAPTURE_FRAME_BYTES_def aead_limit_def)
  then obtain enc where enc: "encrypt_chunk c (rec_key r) nonce pcm = Inr enc" "length enc = length pcm + 28"
    "decrypt_chunk c (rec_key r) enc = Inr pcm" using encrypt_chunk_ok [OF assms(1,2)] by blast
  have small: "length enc < 2 ^ 32" using good enc(2) by (simp add: pushable_def MAX_CAPTURE_FRAME_BYTES_def)
  obtain sealed where j: "rec_disk r (journal_path r) = Some (MAGIC_S16 @ journal_of sealed)" and sealed: "sealed_as c (rec_key r) sealed ps"
    using ok by (auto simp: recorder_ok_def journal_ok_def)
  define put where "put bs = r\<lparr>rec_disk := (rec_disk r)(journal_path r \<mapsto> MAGIC_S16 @ journal_of sealed @ bs)\<rparr>" for bs
  have put [simp]: "rec_writer (put bs) = rec_writer r" "journal_path (put bs) = journal_path r" "rec_key (put bs) = rec_key r"
    "rec_bytes_per_frame (put bs) = rec_bytes_per_frame r" "rec_session_id (put bs) = rec_session_id r" for bs
    by (simp_all add: put_def)
  have put_live: "live_ok c ps (put bs)" for bs
  proof -
    have "queue_ok c bodies (put bs)" if "queue_ok c bodies r" for bodies
      using that by (auto simp: queue_ok_def Let_def put_def
          elim!: laid_out_cong)
    with ok show ?thesis unfolding recorder_ok_def live_ok_def Let_def by (simp add: put_def)
  qed
  have put_base: "base_ok (put bs)" for bs using ok by (simp add: recorder_ok_def base_ok_def put_def)
  have journal: "journal_bytes r = MAGIC_S16 @ journal_of sealed" using j by (simp add: journal_bytes_def)
  have put_again: "r\<lparr>rec_disk := (rec_disk r)(journal_path r \<mapsto> journal_bytes r @ bs)\<rparr> = put bs" for bs
    by (simp add: put_def journal)
  have put_disk: "rec_disk (put bs) (journal_path r) = Some (MAGIC_S16 @ journal_of sealed @ bs)" for bs by (simp add: put_def)
  have put_frames: "captured_frames (put bs) = captured_frames r" for bs by (simp add: put_def)
  show thesis
  proof (cases "\<exists>n. wrote = Some n \<and> n < length (framed enc)")
    case True
    then obtain n where n: "wrote = Some n" "n < length (framed enc)" by blast
    have "push_s16_pcm c nonce wrote pcm r = Some (Inl WriteFailed, put (take n (framed enc)))"
      using good enc(1) small n by (simp add: push_s16_pcm_def push_stored_pcm_def pushable_def Let_def put_again)
    moreover have "incomplete (take n (framed enc))"
      using n(2) enc(2) good by (auto simp: incomplete_def pushable_def intro!: exI [of _ enc] exI [of _ n])
    then have "recorder_ok c False ps (put (take n (framed enc)))"
      using ok put_live put_base sealed put_disk by (auto simp: recorder_ok_def journal_ok_def counted_def put_frames)
    ultimately show thesis by (rule torn) (simp_all add: sync_state_def put_def n(1))
  next
    case full: False
    define r1 where "r1 = (put (framed enc))\<lparr>captured_frames := sat_add (captured_frames r) (length pcm div rec_bytes_per_frame r),
      records_since_sync := records_since_sync r + 1\<rparr>"
    define r2 where "r2 = (if records_since_sync r1 \<ge> CAPTURE_JOURNAL_SYNC_INTERVAL
      then r1\<lparr>sync_wake := True, records_since_sync := 0\<rparr> else r1)"
    have parts [simp]: "rec_writer r2 = rec_writer r" "rec_bytes_per_frame r2 = rec_bytes_per_frame r" "journal_path r2 = journal_path r"
      "rec_key r2 = rec_key r" "rec_session_id r2 = rec_session_id r" "rec_disk r2 = rec_disk (put (framed enc))"
      "captured_frames r2 = sat_add (captured_frames r) (length pcm div rec_bytes_per_frame r)"
      "live_chunks_usable r2 = live_chunks_usable r"
      by (simp_all add: r2_def r1_def put_def)
    have sync: "sync_state r2 = synced_push r" by (simp add: sync_state_def synced_push_def r2_def r1_def put_def)
    have live: "live_ok c ps r2"
      using put_live [of "framed enc"] unfolding live_ok_def Let_def queue_ok_def by (simp add: r2_def r1_def)
    have push: "push_s16_pcm c nonce wrote pcm r =
        (if live_chunks_usable r2 then map_option (Pair (Inr ())) (buffer_live_minute pcm r2) else Some (Inr (), r2))"
      using good enc(1) small full unfolding push_s16_pcm_def push_stored_pcm_def Let_def
      by (auto simp: pushable_def put_again put_frames r2_def r1_def not_less split: option.split) (simp_all add: put_def)
    have sealed': "sealed_as c (rec_key r) (sealed @ [enc]) (ps @ [pcm])"
      using sealed enc by (simp add: sealed_as_def list_all2_appendI)
    have whole: "recorder_ok c True (ps @ [pcm]) r'" if "live_ok c (ps @ [pcm]) r'" "rec_disk r' = rec_disk r2" "rec_key r' = rec_key r"
      "captured_frames r' = captured_frames r2" "journal_path r' = journal_path r" "rec_bytes_per_frame r' = rec_bytes_per_frame r"
      "rec_session_id r' = rec_session_id r" for r'
      using that ok good put_base [of "framed enc"] sealed' put_disk [of "framed enc"]
      by (auto simp: recorder_ok_def journal_ok_def base_ok_def counted_def count_frames_snoc journal_of_def intro!: exI [of _ "sealed @ [enc]"])
    show thesis
    proof (cases "live_chunks_usable r2")
      case True
      from buffer_live_minute_ok [OF live True, of pcm] obtain q n f m u where
        "buffer_live_minute pcm r2 = Some (r2\<lparr>lw_queue := q, next_chunk_index := n, minute_start_frame := f, minute := m, live_chunks_usable := u\<rparr>)"
        and live': "live_ok c (ps @ [pcm]) (r2\<lparr>lw_queue := q, next_chunk_index := n, minute_start_frame := f, minute := m, live_chunks_usable := u\<rparr>)"
        by metis
      with push True whole [OF live'] accepted sync show thesis by (simp add: sync_state_def)
    next
      case False
      with live have "live_ok c (ps @ [pcm]) r2" by (simp add: live_ok_def Let_def)
      with push False whole [OF this] accepted sync show thesis by simp
    qed
  qed
qed

text \<open>A block of whole frames is accepted as long as the disk takes it and no flush has failed.\<close>

lemma push_accepted:
  assumes "recorder_ok c True ps r" and "aead_ok c" and "length nonce = 12"
    and "2 dvd length pcm" and "pushable (rec_bytes_per_frame r) pcm" and "\<not> sync_failure r"
  shows "\<exists>r'. push_s16_pcm c nonce None pcm r = Some (Inr (), r')"
  by (rule push_cases [OF assms(2,3,1), of None pcm]) (use assms in auto)

end
