(* ===== verification/Recording_Crash.thy ===== *)
theory Recording_Crash
  imports Recording_Run
begin

text \<open>
  What is left of a recording: after a stop, after a crash at any byte of the journal, and after a
  power loss that keeps no more than what was flushed.
\<close>

lemma recorder_reachable_ok: "recording c alive ps r \<Longrightarrow> aead_ok c \<Longrightarrow> recorder_ok c alive ps r"
proof (induction rule: recording.induct)
  case (Push ps r nonce wrote pcm r')
  then show ?case using push_cases [of c nonce ps r wrote pcm] by fastforce
next
  case (Push_fails ps r nonce wrote pcm e r')
  have weaker: "recorder_ok c False ps r" using Push_fails
    by (auto simp: recorder_ok_def journal_ok_def) (metis append_Nil2 incomplete_Nil)
  from Push_fails have "recorder_ok c True ps r" by simp
  with Push_fails weaker show ?case using push_cases [of c nonce ps r wrote pcm] by fastforce
qed (auto intro: start_journal_ok flush_step_ok live_step_ok)

section \<open>Stopping\<close>

lemma live_finish_ok:
  assumes "aead_ok c" and "draws_ok ds"
  shows "recorder_ok c alive ps r \<Longrightarrow> recorder_ok c alive ps (live_finish c ds n r)"
  using assms(2) by (induction n arbitrary: r) (auto simp: draws_ok_def intro: live_step_ok [OF assms(1)])

lemma live_finish_simps [simp]:
  "rec_writer (live_finish c ds n r) = rec_writer r" "journal_path (live_finish c ds n r) = journal_path r"
  "rec_key (live_finish c ds n r) = rec_key r" "rec_session_id (live_finish c ds n r) = rec_session_id r"
  "rec_config (live_finish c ds n r) = rec_config r"
  by (induction n arbitrary: r) simp_all

lemma live_finish_journal: "rec_disk (live_finish c ds n r) (journal_path r) = rec_disk r (journal_path r)"
proof (induction n arbitrary: r)
  case (Suc n)
  from Suc [of "live_step c (ds (length (lw_written r))) r"] live_step_journal show ?case by simp
qed simp

lemma live_finish_drains: "length (lw_queue r) \<le> n \<Longrightarrow> lw_queue (live_finish c ds n r) = []"
proof (induction n arbitrary: r)
  case (Suc n)
  have "length (lw_queue (live_step c d r)) \<le> n" for d
    using Suc.prems by (auto simp: live_step_def split: list.splits prod.splits sum.splits)
  with Suc.IH show ?case by simp
qed simp

lemma recovery_writer_rec_writer:
  "recovery_writer (rc_data_dir (rec_config r)) (rec_session_id r) (rec_key r) (rc_sample_rate (rec_config r)) (rc_channels (rec_config r)) = rec_writer r"
  by (simp add: recovery_writer_def rec_writer_def rec_bytes_per_frame_def)

definition recover_of :: "cipher \<Rightarrow> write_env \<Rightarrow> recorder \<Rightarrow> disk \<Rightarrow> ((recording_error + recovered) \<times> disk) option" where
  "recover_of c env r = recover_capture_audio_journal c env (rc_data_dir (rec_config r)) (rec_session_id r) (rec_key r)
     (rc_sample_rate (rec_config r)) (rc_channels (rec_config r))"

lemma recover_of_spec:
  assumes "aead_ok c" and "draws_ok (draws env)" and "finite (dom disk)" and "require_session_id_path_component (rec_session_id r) = Inr ()"
    and "disk (journal_path r) = Some (MAGIC_S16 @ journal_of sealed @ t)" and "sealed_as c (rec_key r) sealed ps"
    and "\<And>p. p \<in> set ps \<Longrightarrow> pushable (rec_bytes_per_frame r) p" and "incomplete t"
  obtains x disk' where "recover_of c env r disk = Some (x, disk')" and "chunks_only (rec_writer r) disk disk'"
    and "\<And>res. x = Inr res \<Longrightarrow> recovered_as c (rec_writer r) (rc_channels (rec_config r)) ps disk' res"
    and "faultless (draws env) \<Longrightarrow> seal_fault env \<noteq> SyncFault \<Longrightarrow> \<exists>res. x = Inr res"
  using recover_journal_spec [OF assms(1-3) assms(5) [unfolded journal_path_def] assms(6) assms(7) [unfolded rec_bytes_per_frame_def] assms(8),
      of "rc_sample_rate (rec_config r)"] assms(4)
  unfolding recover_of_def recovery_writer_rec_writer by metis

lemma finish_live_chunks_spec:
  assumes "aead_ok c" and "draws_ok (draws env)" and ok: "recorder_ok c alive ps r" and usable: "live_chunks_usable r" and "lw_queue r = []"
  obtains x disk where "finish_live_chunks c env r = Some (x, disk)" and "chunks_only (rec_writer r) (rec_disk r) disk"
    and "\<And>res. x = Inr res \<Longrightarrow> recovered_as c (rec_writer r) (rc_channels (rec_config r)) ps disk res"
proof (cases "lw_failure r")
  case (Some e)
  then show thesis using that [of "Inl WriteFailed" "rec_disk r"] by (simp add: finish_live_chunks_def)
next
  case None
  let ?w = "rec_writer r" and ?rb = "\<lparr>rb_start = minute_start_frame r, rb_chunks = lw_written r, rb_disk = rec_disk r\<rparr>"
  define bodies where "bodies = full_slices (rec_limit r) (concat ps)"
  have live: "live_ok c ps r" using ok by (simp add: recorder_ok_def)
  then have "\<not> lw_gone r" using None by (auto simp: live_ok_def Let_def)
  with live have q: "queue_ok c bodies r" and m: "minute r = slice_rest (rec_limit r) (concat ps)"
    and start: "minute_start_frame r = nth_start ?w (length bodies)"
    using usable by (simp_all add: live_ok_def Let_def bodies_def)
  then have "length (lw_written r) = length bodies" using \<open>lw_queue r = []\<close> by (auto simp: queue_ok_def Let_def)
  with q have rb: "rb_ok c ?w bodies ?rb" by (simp add: queue_ok_def Let_def rb_ok_def start)
  have fin: "finite (dom (rb_disk ?rb))" using ok by (simp add: recorder_ok_def base_ok_def)
  obtain y disk where close: "close_chunks c env ?w (minute r) ?rb = Some (y, disk)" and only: "chunks_only ?w (rb_disk ?rb) disk"
    and y: "\<And>chunks. y = Inr chunks \<Longrightarrow> chunks = chunk_list ?w (minutes (rec_limit r) (concat ps)) \<and> laid_out c ?w disk (minutes (rec_limit r) (concat ps))"
    by (rule close_chunks_spec [OF assms(1,2) rb, of "minute r"])
      (use fin in \<open>auto simp: bodies_def m concat_full_slices intro: full_slices_length slice_rest_length\<close>)
  show thesis
  proof (cases "finish_live_chunks c env r = Some (Inl WriteFailed, rec_disk r)")
    case True
    then show thesis by (rule that) simp_all
  next
    case False
    let ?res = "\<lambda>chunks. \<lparr>rr_session_id = rec_session_id r, rr_encrypted_path = chunk_path (hd chunks), rr_audio_chunks = chunks,
      rr_duration_ms = duration_ms (captured_frames r) (rc_sample_rate (rec_config r)), rr_sample_rate = rc_sample_rate (rec_config r),
      rr_channels = rc_channels (rec_config r), rr_captured_frames = captured_frames r, rr_sample_format = S16\<rparr>"
    have fl: "finish_live_chunks c env r = Some (map_sum id ?res y, disk)"
      using False None close by (cases y) (auto simp: finish_live_chunks_def Let_def split: if_splits)
    have "captured_frames r = count_frames (rec_bytes_per_frame r) 0 ps" using ok by (simp add: recorder_ok_def counted_def)
    moreover have "cw_sample_rate ?w = rc_sample_rate (rec_config r)" by (simp add: rec_writer_def)
    ultimately have "recovered_as c ?w (rc_channels (rec_config r)) ps disk res" if "map_sum id ?res y = Inr res" for res
      using that y minutes_not_Nil [of "rec_limit r" "concat ps"] by (cases y) (auto simp: recovered_as_def Let_def chunk_list_first)
    with that [OF fl] only show thesis by simp
  qed
qed

lemma stop_spec:
  assumes "recording c alive ps r" and "aead_ok c" and "draws_ok ds" and "draws_ok (draws live_env)" and "draws_ok (draws env)"
  obtains x disk where "stop_recording c ds sync_ok live_env env r = Some (x, disk)" and "disk (journal_path r) = rec_disk r (journal_path r)"
    and "\<And>res. x = Inr res \<Longrightarrow> recovered_as c (rec_writer r) (rc_channels (rec_config r)) ps disk res"
    and "sync_ok \<Longrightarrow> faultless (draws env) \<Longrightarrow> seal_fault env \<noteq> SyncFault \<Longrightarrow> \<exists>res. x = Inr res"
proof -
  note result = that
  define q where "q = live_finish c ds (length (lw_queue r)) r"
  have ok: "recorder_ok c alive ps q" unfolding q_def by (rule live_finish_ok [OF assms(2,3) recorder_reachable_ok [OF assms(1,2)]])
  have [simp]: "rec_writer q = rec_writer r" "journal_path q = journal_path r" "rec_key q = rec_key r" "rec_config q = rec_config r"
    "rec_session_id q = rec_session_id r" by (simp_all add: q_def)
  have idle: "lw_queue q = []" by (simp add: q_def live_finish_drains)
  have journal: "rec_disk q (journal_path r) = rec_disk r (journal_path r)" by (simp add: q_def live_finish_journal)
  have kept: "disk (journal_path r) = rec_disk r (journal_path r)" if "chunks_only (rec_writer r) (rec_disk q) disk" for disk
    using chunks_only_journal [OF that] journal by simp
  obtain sealed t where j: "rec_disk r (journal_path r) = Some (MAGIC_S16 @ journal_of sealed @ t)"
    and s: "sealed_as c (rec_key r) sealed ps" "incomplete t"
    using ok journal by (auto simp: recorder_ok_def journal_ok_def)
  have p: "pushable (rec_bytes_per_frame r) p" if "p \<in> set ps" for p
    using ok that by (simp add: recorder_ok_def counted_def q_def rec_bytes_per_frame_def)
  have id: "require_session_id_path_component (rec_session_id r) = Inr ()" using ok by (simp add: recorder_ok_def base_ok_def)
  have recovers: thesis if only: "chunks_only (rec_writer r) (rec_disk q) disk" and "sync_ok"
    and "stop_recording c ds sync_ok live_env env r = recover_of c env r disk" for disk
  proof -
    have "finite (dom disk)" using only ok by (simp add: chunks_only_def recorder_ok_def base_ok_def)
    with recover_of_spec [OF assms(2,5) _ id _ s(1) p s(2), of disk] kept [OF only] j obtain x disk' where
      x: "recover_of c env r disk = Some (x, disk')" "chunks_only (rec_writer r) disk disk'"
        "\<And>res. x = Inr res \<Longrightarrow> recovered_as c (rec_writer r) (rc_channels (rec_config r)) ps disk' res"
        "faultless (draws env) \<Longrightarrow> seal_fault env \<noteq> SyncFault \<Longrightarrow> \<exists>res. x = Inr res" by metis
    show thesis
      by (rule result [of x disk']) (use that(3) kept [OF chunks_only_trans [OF only x(2)]] x in simp_all)
  qed
  have stop: "stop_recording c ds sync_ok live_env env r = (if \<not> sync_ok then Some (Inl WriteFailed, rec_disk q)
      else if live_chunks_usable q then
        (case finish_live_chunks c live_env q of None \<Rightarrow> None | Some (Inr res, disk) \<Rightarrow> Some (Inr res, disk) | Some (Inl e, disk) \<Rightarrow> recover_of c env r disk)
      else recover_of c env r (rec_disk q))"
    unfolding stop_recording_def q_def [symmetric] Let_def recover_of_def by (simp split: option.split prod.split sum.split)
  consider "\<not> sync_ok" | (slow) "sync_ok" "\<not> live_chunks_usable q" | (fast) "sync_ok" "live_chunks_usable q" by blast
  then show thesis
  proof cases
    case 1
    with result [of "Inl WriteFailed" "rec_disk q"] stop journal show thesis by simp
  next
    case slow
    with recovers [of "rec_disk q"] stop show thesis by simp
  next
    case fast
    obtain y disk where y: "finish_live_chunks c live_env q = Some (y, disk)" "chunks_only (rec_writer q) (rec_disk q) disk"
      "\<And>res. y = Inr res \<Longrightarrow> recovered_as c (rec_writer q) (rc_channels (rec_config q)) ps disk res"
      using finish_live_chunks_spec [OF assms(2,4) ok fast(2) idle] by blast
    show thesis
    proof (cases y)
      case (Inl e)
      with recovers [of disk] y stop fast show thesis by simp
    next
      case (Inr res)
      with result [of y disk] y stop fast kept [of disk] show thesis by simp
    qed
  qed
qed

section \<open>Crashes\<close>

text \<open>The blocks whose records lie completely in the first \<open>m\<close> bytes after the magic.\<close>

fun complete_records :: "nat \<Rightarrow> bytes list \<Rightarrow> bytes list" where
  "complete_records m [] = []"
| "complete_records m (p # ps) = (if m < length p + 32 then [] else p # complete_records (m - (length p + 32)) ps)"

lemma truncated_journal:
  assumes "sealed_as c key sealed ps" and "\<And>p. p \<in> set ps \<Longrightarrow> pushable bpf p" and "incomplete t"
  shows "\<exists>k t'. take m (journal_of sealed @ t) = journal_of (take k sealed) @ t' \<and> incomplete t' \<and>
    complete_records m ps = take k ps"
  using assms
proof (induction sealed ps arbitrary: m rule: list_induct2')
  case (4 s sealed p ps)
  have s: "length s = length p + 28" "sealed_as c key sealed ps" and p: "length p \<le> MAX_CAPTURE_FRAME_BYTES"
    using "4.prems" by (simp_all add: sealed_as_def pushable_def)
  show ?case
  proof (cases "m < length p + 32")
    case True
    then have "incomplete (take m (framed s))"
      using s p by (auto simp: incomplete_def intro!: exI [of _ s] exI [of _ m])
    with True s show ?thesis by (intro exI [of _ 0] exI [of _ "take m (framed s)"]) (simp add: journal_of_def)
  next
    case False
    let ?m = "m - (length p + 32)"
    obtain k t' where "take ?m (journal_of sealed @ t) = journal_of (take k sealed) @ t'" "incomplete t'" "complete_records ?m ps = take k ps"
      using "4.IH" [OF s(2) _ "4.prems"(3)] "4.prems"(2) by (metis list.set_intros(2))
    moreover have "take m (framed s @ journal_of sealed @ t) = framed s @ take ?m (journal_of sealed @ t)"
      using False s by (simp add: add.commute)
    ultimately show ?thesis using False
      by (intro exI [of _ "Suc k"] exI [of _ t']) (simp add: journal_of_def del: take_append)
  qed
qed (auto simp: sealed_as_def journal_of_def intro!: exI [of _ 0] incomplete_take)

lemma sealed_as_take: "sealed_as c key sealed ps \<Longrightarrow> sealed_as c key (take k sealed) (take k ps)"
  by (simp add: sealed_as_def list_all2_takeI)

lemma crash_spec:
  assumes "recording c alive ps r" and "aead_ok c" and "draws_ok (draws env)" and m: "8 \<le> m"
  obtains x disk where "recover_of c env r ((rec_disk r)(journal_path r \<mapsto> take m (journal_bytes r))) = Some (x, disk)"
    and "\<And>res. x = Inr res \<Longrightarrow> recovered_as c (rec_writer r) (rc_channels (rec_config r)) (complete_records (m - 8) ps) disk res"
    and "faultless (draws env) \<Longrightarrow> seal_fault env \<noteq> SyncFault \<Longrightarrow> \<exists>res. x = Inr res"
proof -
  have ok: "recorder_ok c alive ps r" by (rule recorder_reachable_ok [OF assms(1,2)])
  obtain sealed t where j: "rec_disk r (journal_path r) = Some (MAGIC_S16 @ journal_of sealed @ t)"
    and s: "sealed_as c (rec_key r) sealed ps" "incomplete t" using ok by (auto simp: recorder_ok_def journal_ok_def)
  have p: "pushable (rec_bytes_per_frame r) p" if "p \<in> set ps" for p using ok that by (simp add: recorder_ok_def counted_def)
  obtain k t' where cut: "take (m - 8) (journal_of sealed @ t) = journal_of (take k sealed) @ t'" "incomplete t'"
    and ps: "complete_records (m - 8) ps = take k ps" using truncated_journal [OF s(1) p s(2)] by blast
  let ?d = "(rec_disk r)(journal_path r \<mapsto> take m (journal_bytes r))"
  have "take m (journal_bytes r) = MAGIC_S16 @ journal_of (take k sealed) @ t'"
    using j m cut(1) by (simp add: journal_bytes_def MAGIC_S16_def take_Cons' numeral_eq_Suc)
  then have d: "?d (journal_path r) = Some (MAGIC_S16 @ journal_of (take k sealed) @ t')" by simp
  have fin: "finite (dom ?d)" and id: "require_session_id_path_component (rec_session_id r) = Inr ()"
    using ok by (simp_all add: recorder_ok_def base_ok_def)
  have "pushable (rec_bytes_per_frame r) p" if "p \<in> set (take k ps)" for p using p that by (auto dest: in_set_takeD)
  from recover_of_spec [OF assms(2,3) fin id d sealed_as_take [OF s(1)] this cut(2)] that show thesis unfolding ps by metis
qed




lemma recovery_spec:
  assumes "recording c alive ps r" and "aead_ok c" and "draws_ok (draws env)"
  obtains x disk where "recover_of c env r (rec_disk r) = Some (x, disk)"
    and "\<And>res. x = Inr res \<Longrightarrow> recovered_as c (rec_writer r) (rc_channels (rec_config r)) ps disk res"
    and "faultless (draws env) \<Longrightarrow> seal_fault env \<noteq> SyncFault \<Longrightarrow> \<exists>res. x = Inr res"
proof -
  have ok: "recorder_ok c alive ps r" by (rule recorder_reachable_ok [OF assms(1,2)])
  obtain sealed t where j: "rec_disk r (journal_path r) = Some (MAGIC_S16 @ journal_of sealed @ t)"
    and s: "sealed_as c (rec_key r) sealed ps" "incomplete t" using ok by (auto simp: recorder_ok_def journal_ok_def)
  have base: "finite (dom (rec_disk r))" "require_session_id_path_component (rec_session_id r) = Inr ()"
    using ok by (simp_all add: recorder_ok_def base_ok_def)
  have p: "pushable (rec_bytes_per_frame r) p" if "p \<in> set ps" for p using ok that by (simp add: recorder_ok_def counted_def)
  from recover_of_spec [OF assms(2,3) base j s(1) p s(2)] that show thesis by metis
qed

section \<open>Power loss\<close>

text \<open>The flushing thread is behind by fewer than ten records whenever no flush is asked for.\<close>

definition flushed_ok :: "bytes list \<Rightarrow> recorder \<Rightarrow> bool" where
  "flushed_ok ps r \<longleftrightarrow> 8 \<le> flushed r \<and> records_since_sync r < CAPTURE_JOURNAL_SYNC_INTERVAL \<and>
     (sync_wake r \<or> sync_failure r \<or> length ps \<le> length (complete_records (flushed r - 8) ps) + records_since_sync r)"

lemma complete_records_snoc: "length (complete_records m ps) \<le> length (complete_records m (ps @ [p]))"
  by (induction ps arbitrary: m) simp_all

lemma complete_records_mono: "m \<le> n \<Longrightarrow> length (complete_records m ps) \<le> length (complete_records n ps)"
  by (induction ps arbitrary: m n) auto

lemma complete_records_prefix: "complete_records m ps = take (length (complete_records m ps)) ps"
  by (induction ps arbitrary: m) auto

lemma complete_records_all:
  assumes "sealed_as c key sealed ps"
  shows "complete_records (length (journal_of sealed @ t)) ps = ps"
  using assms
  by (induction sealed ps rule: list_induct2') (auto simp: sealed_as_def journal_of_def add.assoc)

lemma recording_flushed: "recording c alive ps r \<Longrightarrow> aead_ok c \<Longrightarrow> flushed_ok ps r"
proof (induction rule: recording.induct)
  case (Start disk d session_id config key r disk')
  then show ?case
    by (auto simp: start_journal_def flushed_ok_def CAPTURE_JOURNAL_SYNC_INTERVAL_def MAGIC_S16_def split: sum.splits prod.splits)
next
  case (Push ps r nonce wrote pcm r')
  then have "sync_state r' = synced_push r"
    using push_cases [of c nonce ps r wrote pcm] recorder_reachable_ok [OF Push.hyps(1)] by fastforce
  with Push complete_records_snoc [of "flushed r - 8" ps pcm] show ?case
    by (auto simp: flushed_ok_def sync_state_def synced_push_def CAPTURE_JOURNAL_SYNC_INTERVAL_def split: if_splits)
next
  case (Push_fails ps r nonce wrote pcm e r')
  then have "sync_state r' = sync_state r"
    using push_cases [of c nonce ps r wrote pcm] recorder_reachable_ok [OF Push_fails.hyps(1)] by fastforce
  with Push_fails show ?case by (simp add: flushed_ok_def sync_state_def)
next
  case (Flush alive ps r works)
  obtain sealed t where j: "rec_disk r (journal_path r) = Some (MAGIC_S16 @ journal_of sealed @ t)" and s: "sealed_as c (rec_key r) sealed ps"
    using recorder_reachable_ok [OF Flush.hyps(1) Flush.prems] by (auto simp: recorder_ok_def journal_ok_def)
  then have "journal_bytes r = MAGIC_S16 @ journal_of sealed @ t" by (simp add: journal_bytes_def)
  then have "length (journal_bytes r) = 8 + length (journal_of sealed @ t)" by (simp add: MAGIC_S16_def)
  with Flush complete_records_all [OF s, of t] show ?case by (auto simp: flush_step_def flushed_ok_def)
qed (simp add: flushed_ok_def)


section \<open>A concrete recording\<close>

text \<open>A recording of one frame at 1 Hz.\<close>

definition demo_config :: recording_config where
  "demo_config = \<lparr>rc_data_dir = [], rc_sample_rate = 1, rc_channels = 1\<rparr>"

definition demo_start :: recorder where
  "demo_start = projr (fst (start_journal plain_draw (lit ''s'') demo_config [] Map.empty))"

definition demo_recorder :: recorder where
  "demo_recorder = snd (the (push_s16_pcm plain_cipher (replicate 12 0) None [1, 2] demo_start))"

lemma demo_starts: "\<exists>disk. start_journal plain_draw (lit ''s'') demo_config [] Map.empty = (Inr demo_start, disk)"
  by (simp add: demo_start_def start_journal_def create_session_audio_dir_def demo_id_ok plain_draw_def create_capture_journal_file_def)

lemma demo_started: "recording plain_cipher True [] demo_start"
  using demo_starts recording.Start [of Map.empty plain_draw "lit ''s''" demo_config "[]" demo_start _ plain_cipher] by fastforce

lemma demo_pushed: "recording plain_cipher True [[1, 2]] demo_recorder"
proof -
  have ok: "recorder_ok plain_cipher True [] demo_start" by (rule recorder_reachable_ok [OF demo_started plain_cipher_ok])
  have parts: "rec_bytes_per_frame demo_start = 2" "\<not> sync_failure demo_start"
    by (simp_all add: demo_start_def start_journal_def create_session_audio_dir_def demo_id_ok plain_draw_def
        create_capture_journal_file_def rec_bytes_per_frame_def bytes_per_frame_def demo_config_def)
  obtain r where "push_s16_pcm plain_cipher (replicate 12 0) None [1, 2] demo_start = Some (Inr (), r)"
    using push_accepted [OF ok plain_cipher_ok, of "replicate 12 0" "[1, 2]"] parts
    by (auto simp: pushable_def MAX_CAPTURE_FRAME_BYTES_def)
  with recording.Push [OF demo_started _ this] show ?thesis by (simp add: demo_recorder_def)
qed

section \<open>The theorems\<close>

lemma recovered_audio:
  assumes "recovered_as c (rec_writer r) channels ps disk res"
  shows "read_chunk_paths c (rec_key r) sizes disk (map chunk_path (rr_audio_chunks res)) [] = Inr (concat ps)"
  using assms laid_out_reads [of c "rec_writer r" disk "minutes (rec_limit r) (concat ps)" sizes 0 "[]"]
  by (simp add: recovered_as_def Let_def chunk_list_paths concat_minutes)

text \<open>C18. Every record that is completely in the journal survives a crash: whatever prefix of the
  journal is on the disk, the recovery returns, and if the disk takes its files the chunks hold
  exactly the blocks whose records are complete, in order.\<close>

theorem crash_keeps_every_written_block:
  assumes "recording c alive ps r" and "aead_ok c" and "draws_ok (draws env)" and "8 \<le> m"
  shows "\<exists>x disk. recover_capture_audio_journal c env (rc_data_dir (rec_config r)) (rec_session_id r) (rec_key r)
        (rc_sample_rate (rec_config r)) (rc_channels (rec_config r)) ((rec_disk r)(journal_path r \<mapsto> take m (journal_bytes r))) = Some (x, disk) \<and>
     (faultless (draws env) \<and> seal_fault env \<noteq> SyncFault \<longrightarrow> (\<exists>res. x = Inr res)) \<and>
     (\<forall>res. x = Inr res \<longrightarrow> read_chunk_paths c (rec_key r) sizes disk (map chunk_path (rr_audio_chunks res)) [] =
        Inr (concat (complete_records (m - 8) ps)))"
proof -
  obtain x disk where x: "recover_of c env r ((rec_disk r)(journal_path r \<mapsto> take m (journal_bytes r))) = Some (x, disk)"
    "\<And>res. x = Inr res \<Longrightarrow> recovered_as c (rec_writer r) (rc_channels (rec_config r)) (complete_records (m - 8) ps) disk res"
    "faultless (draws env) \<Longrightarrow> seal_fault env \<noteq> SyncFault \<Longrightarrow> \<exists>res. x = Inr res"
    using crash_spec [OF assms] by blast
  show ?thesis
    by (rule exI [of _ x], rule exI [of _ disk]) (use x recovered_audio in \<open>auto simp: recover_of_def\<close>)
qed

theorem crash_keeps_every_written_block_witness:
  "\<exists>res disk. recover_capture_audio_journal plain_cipher plain_env (rc_data_dir (rec_config demo_recorder)) (rec_session_id demo_recorder)
        (rec_key demo_recorder) (rc_sample_rate (rec_config demo_recorder)) (rc_channels (rec_config demo_recorder))
        ((rec_disk demo_recorder)(journal_path demo_recorder \<mapsto> take 42 (journal_bytes demo_recorder))) = Some (Inr res, disk) \<and>
     read_chunk_paths plain_cipher (rec_key demo_recorder) (\<lambda>k. 0) disk (map chunk_path (rr_audio_chunks res)) [] = Inr [1, 2]"
  using crash_keeps_every_written_block [OF demo_pushed plain_cipher_ok plain_env_ok(1), of 42 "\<lambda>k. 0"] plain_env_ok(2,3)
  by auto

text \<open>C19. However the live chunk writer fares, the end of a recording reports what the recovery of its
  journal would: the same chunks, times and counts; and the chunk files hold every accepted block.\<close>

theorem stop_equals_recovery:
  assumes "recording c alive ps r" and "aead_ok c" and "draws_ok ds" and "draws_ok (draws live_env)"
    and "draws_ok (draws env)" and "faultless (draws env)" and "seal_fault env \<noteq> SyncFault"
  shows "\<exists>res stopped recovered. stop_recording c ds True live_env env r = Some (Inr res, stopped) \<and>
     recover_capture_audio_journal c env (rc_data_dir (rec_config r)) (rec_session_id r) (rec_key r)
       (rc_sample_rate (rec_config r)) (rc_channels (rec_config r)) (rec_disk r) = Some (Inr res, recovered) \<and>
     read_chunk_paths c (rec_key r) sizes stopped (map chunk_path (rr_audio_chunks res)) [] = Inr (concat ps) \<and>
     read_chunk_paths c (rec_key r) sizes recovered (map chunk_path (rr_audio_chunks res)) [] = Inr (concat ps)"
proof -
  obtain x stopped where x: "stop_recording c ds True live_env env r = Some (x, stopped)"
    "\<And>res. x = Inr res \<Longrightarrow> recovered_as c (rec_writer r) (rc_channels (rec_config r)) ps stopped res" "\<exists>res. x = Inr res"
    by (rule stop_spec [OF assms(1-5), of True]) (use assms(6,7) in auto)
  obtain y recovered where y: "recover_of c env r (rec_disk r) = Some (y, recovered)"
    "\<And>res. y = Inr res \<Longrightarrow> recovered_as c (rec_writer r) (rc_channels (rec_config r)) ps recovered res" "\<exists>res. y = Inr res"
    by (rule recovery_spec [OF assms(1,2,5)]) (use assms(6,7) in auto)
  obtain res res' where r: "x = Inr res" "y = Inr res'" using x(3) y(3) by blast
  with x(2) y(2) have "res' = res" by (simp add: recovered_as_def Let_def)
  with r x(1) y(1) recovered_audio [OF x(2)] recovered_audio [OF y(2)] show ?thesis by (auto simp: recover_of_def)
qed

theorem stop_equals_recovery_witness:
  "\<exists>res stopped. stop_recording plain_cipher (\<lambda>i. plain_draw) True plain_env plain_env demo_recorder = Some (Inr res, stopped) \<and>
     read_chunk_paths plain_cipher (rec_key demo_recorder) (\<lambda>k. 0) stopped (map chunk_path (rr_audio_chunks res)) [] = Inr [1, 2]"
  using stop_equals_recovery [OF demo_pushed plain_cipher_ok, of "draws plain_env" plain_env plain_env "\<lambda>k. 0"] plain_env_ok
  by (auto simp: plain_env_def)



text \<open>C21. A power loss costs fewer than ten blocks: when no flush is asked for and none has failed, a
  recovery of what was flushed brings back all but the last nine blocks, or more.\<close>

theorem power_loss_costs_under_ten_blocks:
  assumes "recording c alive ps r" and "aead_ok c" and "draws_ok (draws env)" and "\<not> sync_wake r" and "\<not> sync_failure r"
    and "flushed r \<le> m"
    and "recover_capture_audio_journal c env (rc_data_dir (rec_config r)) (rec_session_id r) (rec_key r)
        (rc_sample_rate (rec_config r)) (rc_channels (rec_config r)) ((rec_disk r)(journal_path r \<mapsto> take m (journal_bytes r))) = Some (Inr res, disk)"
  shows "\<exists>k. length ps < k + 10 \<and> read_chunk_paths c (rec_key r) sizes disk (map chunk_path (rr_audio_chunks res)) [] = Inr (concat (take k ps))"
proof -
  have f: "8 \<le> flushed r" "length ps < length (complete_records (flushed r - 8) ps) + 10"
    using recording_flushed [OF assms(1,2)] assms(4,5) by (auto simp: flushed_ok_def CAPTURE_JOURNAL_SYNC_INTERVAL_def)
  have "recovered_as c (rec_writer r) (rc_channels (rec_config r)) (complete_records (m - 8) ps) disk res"
    by (rule crash_spec [OF assms(1-3), of m]) (use f assms(6,7) in \<open>auto simp: recover_of_def\<close>)
  from recovered_audio [OF this, of sizes] have
    "read_chunk_paths c (rec_key r) sizes disk (map chunk_path (rr_audio_chunks res)) [] = Inr (concat (take (length (complete_records (m - 8) ps)) ps))"
    by (simp add: complete_records_prefix [symmetric])
  moreover have "length (complete_records (flushed r - 8) ps) \<le> length (complete_records (m - 8) ps)"
    using assms(6) by (intro complete_records_mono) simp
  ultimately show ?thesis using f(2) by (intro exI [of _ "length (complete_records (m - 8) ps)"]) simp
qed

lemma demo_sync: "sync_state demo_recorder = (1, False, 8, False)"
proof -
  have ok: "recorder_ok plain_cipher True [] demo_start" by (rule recorder_reachable_ok [OF demo_started plain_cipher_ok])
  have start: "sync_state demo_start = (0, False, 8, False)" "rec_bytes_per_frame demo_start = 2"
    by (simp_all add: sync_state_def demo_start_def start_journal_def create_session_audio_dir_def demo_id_ok plain_draw_def
        create_capture_journal_file_def rec_bytes_per_frame_def bytes_per_frame_def demo_config_def MAGIC_S16_def)
  have "sync_state demo_recorder = synced_push demo_start"
    by (rule push_cases [OF plain_cipher_ok _ ok, of "replicate 12 0" None "[1, 2]"])
      (use start in \<open>auto simp: demo_recorder_def sync_state_def pushable_def MAX_CAPTURE_FRAME_BYTES_def\<close>)
  with start show ?thesis by (simp add: synced_push_def sync_state_def CAPTURE_JOURNAL_SYNC_INTERVAL_def)
qed

theorem power_loss_costs_under_ten_blocks_witness:
  "\<exists>res disk k. recover_of plain_cipher plain_env demo_recorder
        ((rec_disk demo_recorder)(journal_path demo_recorder \<mapsto> take 8 (journal_bytes demo_recorder))) = Some (Inr res, disk) \<and>
     1 < k + 10 \<and> read_chunk_paths plain_cipher (rec_key demo_recorder) (\<lambda>i. 0) disk (map chunk_path (rr_audio_chunks res)) [] =
       Inr (concat (take k [[1, 2]]))"
proof -
  obtain res disk where rec: "recover_of plain_cipher plain_env demo_recorder
      ((rec_disk demo_recorder)(journal_path demo_recorder \<mapsto> take 8 (journal_bytes demo_recorder))) = Some (Inr res, disk)"
    using crash_spec [OF demo_pushed plain_cipher_ok plain_env_ok(1), of 8] plain_env_ok(2,3)
    by (metis io_fault.distinct(5) order_refl)
  from power_loss_costs_under_ten_blocks [OF demo_pushed plain_cipher_ok plain_env_ok(1) _ _ _ rec [unfolded recover_of_def], of "\<lambda>i. 0"]
    demo_sync rec show ?thesis by (auto simp: sync_state_def)
qed

end
