(* ===== verification/Recording_Import.thy ===== *)
theory Recording_Import
  imports Recording_Recovery
begin

text \<open>
  Crates \<open>vt-pipeline\<close> and \<open>vt-ffi\<close>: audio written as chunks without a journal
  (\<open>write_encrypted_audio_chunks\<close>), the times of chunks, and the reading of a time range out of
  them (\<open>session_audio_api.rs\<close>).
\<close>

section \<open>Import\<close>

definition remove_files :: "path list \<Rightarrow> disk \<Rightarrow> disk" where
  "remove_files ps disk = foldl (\<lambda>d p. d(p := None)) disk ps"

function import_chunks ::
  "cipher \<Rightarrow> (nat \<Rightarrow> draw) \<Rightarrow> path \<Rightarrow> ustring \<Rightarrow> session_key \<Rightarrow> bytes \<Rightarrow> nat \<Rightarrow> nat \<Rightarrow> stored_sample_format \<Rightarrow>
     nat \<Rightarrow> nat \<Rightarrow> recorded_chunk list \<Rightarrow> disk \<Rightarrow> (recording_error + recorded_chunk list) \<times> disk" where
  "import_chunks c ds data_dir session_id key pcm rate channels f offset index chunks disk =
     (let bpf = bytes_per_frame channels f;
          chunk_bytes = chunk_byte_limit rate bpf
      in if \<not> (offset < length pcm \<or> pcm = [] \<and> index = 0) then (Inr chunks, disk)
         else
           let finish = min (offset + chunk_bytes) (length pcm);
               slice = take (finish - offset) (drop offset pcm);
               start_frame = offset div bpf;
               end_frame = finish div bpf;
               from_ms = (if rate > 0 then start_frame * 1000 div rate else 0);
               to_ms = (if rate > 0 then end_frame * 1000 div rate else from_ms);
               p = session_audio_chunk_path data_dir session_id index
           in case encrypt_to_file c key (ds index) p slice disk of
                (Inl e, disk) \<Rightarrow> (Inl WriteFailed, remove_files (map chunk_path chunks) (disk(p := None)))
              | (Inr _, disk) \<Rightarrow>
                  let chunks = chunks @ [\<lparr>chunk_id = audio_chunk_id session_id index, chunk_path = p, start_ms = from_ms, end_ms = to_ms\<rparr>]
                  in if finish = length pcm then (Inr chunks, disk)
                     else import_chunks c ds data_dir session_id key pcm rate channels f finish (index + 1) chunks disk)"
  by pat_completeness auto
termination
  by (relation "measure (\<lambda>(c, ds, data_dir, session_id, key, pcm, rate, channels, f, offset, index, chunks, disk). length pcm - offset)")
    (simp, use chunk_byte_limit_pos [OF bytes_per_frame_pos] in \<open>fastforce simp: min_def not_le intro: diff_less_mono2 split: if_splits\<close>)

declare import_chunks.simps [simp del]

definition write_encrypted_audio_chunks ::
  "cipher \<Rightarrow> (nat \<Rightarrow> draw) \<Rightarrow> path \<Rightarrow> ustring \<Rightarrow> session_key \<Rightarrow> bytes \<Rightarrow> nat \<Rightarrow> nat \<Rightarrow> stored_sample_format \<Rightarrow> disk \<Rightarrow>
     (recording_error + recorded_chunk list) \<times> disk" where
  "write_encrypted_audio_chunks c ds data_dir session_id key pcm rate channels f disk =
     (case create_session_audio_dir (ds 0) data_dir session_id of
        Inl e \<Rightarrow> (Inl e, disk)
      | Inr _ \<Rightarrow> import_chunks c ds data_dir session_id key pcm rate channels f 0 0 [] disk)"

section \<open>Times\<close>

text \<open>The writer of chunks with the parameters of an import or a recovery.\<close>

definition writer_of :: "path \<Rightarrow> ustring \<Rightarrow> session_key \<Rightarrow> nat \<Rightarrow> nat \<Rightarrow> stored_sample_format \<Rightarrow> chunk_writer" where
  "writer_of data_dir session_id key rate channels f = \<lparr>cw_data_dir = data_dir, cw_session_id = session_id, cw_key = key,
     cw_sample_rate = rate, cw_bytes_per_frame = bytes_per_frame channels f\<rparr>"

lemma cw_limit_frames: "0 < cw_bytes_per_frame w \<Longrightarrow> cw_limit w div cw_bytes_per_frame w = max (cw_sample_rate w) 1 * 60"
  by (simp add: cw_limit_def chunk_byte_limit_eq)

lemma minutes_nth:
  assumes "0 < n" and "i < length (minutes n pcm)"
  shows "minutes n pcm ! i = take n (drop (i * n) pcm)" and "i * n \<le> length pcm"
    and "Suc i < length (minutes n pcm) \<Longrightarrow> Suc i * n < length pcm" and "\<not> Suc i < length (minutes n pcm) \<Longrightarrow> length pcm \<le> Suc i * n"
    and "pcm \<noteq> [] \<Longrightarrow> i * n < length pcm"
proof -
  have "minutes n pcm ! i = take n (drop (i * n) pcm) \<and> i * n \<le> length pcm \<and> (pcm \<noteq> [] \<longrightarrow> i * n < length pcm) \<and> (Suc i < length (minutes n pcm) \<longrightarrow> Suc i * n < length pcm) \<and>
      (\<not> Suc i < length (minutes n pcm) \<longrightarrow> length pcm \<le> Suc i * n)"
  proof (cases "pcm = []")
    case True
    with assms(2) show ?thesis by (simp add: minutes_def)
  next
    case False
    with assms(2) have "i < length (slices n pcm)" by (simp add: minutes_def)
    then have "slices n pcm ! i = take n (drop (i * n) pcm) \<and> i * n < length pcm \<and> (Suc i < length (slices n pcm) \<longrightarrow> Suc i * n < length pcm) \<and>
        (\<not> Suc i < length (slices n pcm) \<longrightarrow> length pcm \<le> Suc i * n)"
    proof (induction i arbitrary: pcm)
      case 0
      then have "pcm \<noteq> []" by auto
      then have "slices n pcm = take n pcm # slices n (drop n pcm)" using assms(1) by (simp add: slices.simps)
      moreover have "slices n (drop n pcm) = [] \<longleftrightarrow> length pcm \<le> n"
        using assms(1) by (simp add: slices.simps [of n "drop n pcm"])
      ultimately show ?case by (auto simp: not_le not_less)
    next
      case (Suc i)
      then have "pcm \<noteq> []" by auto
      then have "slices n pcm = take n pcm # slices n (drop n pcm)" using assms(1) by (simp add: slices.simps)
      moreover from this Suc.prems have "drop n pcm \<noteq> []" by auto
      ultimately show ?case using Suc.IH [of "drop n pcm"] Suc.prems by (auto simp: add.commute)
    qed
    with False show ?thesis by (simp add: minutes_def)
  qed
  then show "minutes n pcm ! i = take n (drop (i * n) pcm)" "i * n \<le> length pcm"
    "Suc i < length (minutes n pcm) \<Longrightarrow> Suc i * n < length pcm" "\<not> Suc i < length (minutes n pcm) \<Longrightarrow> length pcm \<le> Suc i * n"
    "pcm \<noteq> [] \<Longrightarrow> i * n < length pcm" by auto
qed

text \<open>What the counters of a chunk list come to when no product saturates.\<close>

lemma chunk_times:
  fixes w pcm
  defines "bodies \<equiv> minutes (cw_limit w) pcm" and "frames \<equiv> length pcm div cw_bytes_per_frame w"
  assumes "0 < cw_sample_rate w" and "0 < cw_bytes_per_frame w" and whole: "cw_bytes_per_frame w dvd length pcm"
    and small: "frames * 1000 \<le> u64_max" and i: "i < length bodies"
  shows "start_ms (chunk_list w bodies ! i) = 60000 * i"
    and "end_ms (chunk_list w bodies ! i) = (if Suc i < length bodies then 60000 * Suc i else duration_ms frames (cw_sample_rate w))"
proof -
  let ?rate = "cw_sample_rate w" and ?bpf = "cw_bytes_per_frame w" and ?lim = "cw_limit w"
  have lim: "?lim = ?rate * 60 * ?bpf" using assms(3) by (simp add: cw_limit_def chunk_byte_limit_eq)
  then have pos: "0 < ?lim" using assms(3,4) by simp
  note nth = minutes_nth [OF pos i [unfolded bodies_def]]
  have total: "length pcm = frames * ?bpf" using whole by (simp add: frames_def)
  then have start: "i * (?rate * 60) \<le> frames" using nth(2) assms(4) unfolding lim by (simp add: mult.assoc [symmetric])
  have exact: "sat_mul n 1000 = n * 1000" "min n u64_max = n" if "n \<le> frames" for n
    using that small by (auto simp: sat_mul_def min_def)
  have nth_start: "nth_start w i = i * (?rate * 60)"
    using start exact assms(3,4) max_absorb1 [of 1 ?rate] by (simp add: nth_start_def cw_limit_frames)
  have ch: "chunk_list w bodies ! i = written_chunk w (length (bodies ! i)) (nth_start w i) i" using i by (simp add: chunk_list_def)
  show "start_ms (chunk_list w bodies ! i) = 60000 * i"
    using exact(1) [OF start] assms(3) by (simp add: ch written_chunk_def Let_def nth_start)
  have body: "length (bodies ! i) = min ?lim (length pcm - i * ?lim)" using nth(1) by (simp add: bodies_def min.commute)
  have "nth_start w i + length (bodies ! i) div ?bpf = (if Suc i < length bodies then Suc i * (?rate * 60) else frames)"
  proof (cases "Suc i < length bodies")
    case True
    with nth(3) have "length (bodies ! i) = ?rate * 60 * ?bpf" using body lim by (simp add: bodies_def)
    with True assms(4) show ?thesis by (simp add: nth_start)
  next
    case False
    with i nth(4) have "length pcm - i * ?lim \<le> ?lim" by (simp add: bodies_def)
    then have "length (bodies ! i) = length pcm - i * ?lim" using body by simp
    also have "\<dots> = (frames - i * (?rate * 60)) * ?bpf" unfolding total lim by (simp add: diff_mult_distrib mult.assoc)
    finally have "length (bodies ! i) = (frames - i * (?rate * 60)) * ?bpf" .
    with False assms(4) start show ?thesis by (simp add: nth_start)
  qed
  moreover have "(if Suc i < length bodies then Suc i * (?rate * 60) else frames) \<le> frames"
  proof (cases "Suc i < length bodies")
    case True
    with nth(3) have "Suc i * ?lim < length pcm" by (simp add: bodies_def)
    then have "(Suc i * (?rate * 60)) * ?bpf < frames * ?bpf" unfolding total lim by (simp only: mult.assoc)
    then have "Suc i * (?rate * 60) < frames" by (simp only: mult_less_cancel2)
    with True show ?thesis by simp
  qed simp
  ultimately have "sat_add (nth_start w i) (length (bodies ! i) div ?bpf) = (if Suc i < length bodies then Suc i * (?rate * 60) else frames)"
    and le: "(if Suc i < length bodies then Suc i * (?rate * 60) else frames) \<le> frames"
    using exact(2) by (simp_all add: sat_add_def)
  then show "end_ms (chunk_list w bodies ! i) = (if Suc i < length bodies then 60000 * Suc i else duration_ms frames ?rate)"
    using exact(1) [OF le] exact(1) [of frames] assms(3) unfolding ch written_chunk_def Let_def duration_ms_def
    by (auto simp: algebra_simps)
qed

section \<open>Reading a time range\<close>

text \<open>The loop of \<open>get_session_audio_range\<close> over the chunk rows in the order of time.\<close>

primrec read_range :: "cipher \<Rightarrow> session_key \<Rightarrow> (nat \<Rightarrow> nat) \<Rightarrow> disk \<Rightarrow> nat \<Rightarrow> nat \<Rightarrow> u64 \<Rightarrow> u64 \<Rightarrow> recorded_chunk list \<Rightarrow> bytes \<Rightarrow> crypto_error + bytes" where
  "read_range c key sizes disk rate bpf from_ms to_ms [] out = Inr out"
| "read_range c key sizes disk rate bpf from_ms to_ms (chunk # chunks) out =
     (if end_ms chunk \<le> from_ms \<or> to_ms \<le> start_ms chunk then read_range c key sizes disk rate bpf from_ms to_ms chunks out
      else if disk (chunk_path chunk) = None then read_range c key sizes disk rate bpf from_ms to_ms chunks out
      else case read_file c key sizes disk (chunk_path chunk) [] of
          Inl e \<Rightarrow> Inl e
        | Inr decrypted \<Rightarrow>
            let local_start_ms = from_ms - start_ms chunk;
                local_end_ms = min to_ms (end_ms chunk) - start_ms chunk;
                start_frame = local_start_ms * rate div 1000;
                end_frame = local_end_ms * rate div 1000;
                byte_start = min (start_frame * bpf) (length decrypted);
                byte_end = min (end_frame * bpf) (length decrypted)
            in read_range c key sizes disk rate bpf from_ms to_ms chunks
                 (if byte_end > byte_start then out @ take (byte_end - byte_start) (drop byte_start decrypted) else out))"

lemma read_range_step:
  "\<not> (end_ms ch \<le> s \<or> e \<le> start_ms ch) \<Longrightarrow> disk (chunk_path ch) = Some bs \<Longrightarrow>
   read_file c key sizes disk (chunk_path ch) [] = Inr body \<Longrightarrow>
   A = (s - start_ms ch) * rate div 1000 \<Longrightarrow> B = (min e (end_ms ch) - start_ms ch) * rate div 1000 \<Longrightarrow>
   read_range c key sizes disk rate bpf s e (ch # chs) out = read_range c key sizes disk rate bpf s e chs
     (if min (B * bpf) (length body) > min (A * bpf) (length body)
      then out @ take (min (B * bpf) (length body) - min (A * bpf) (length body)) (drop (min (A * bpf) (length body)) body) else out)"
  by (simp add: Let_def)

definition segment :: "nat \<Rightarrow> nat \<Rightarrow> nat \<Rightarrow> bytes \<Rightarrow> bytes" where
  "segment bpf a b pcm = drop (a * bpf) (take (b * bpf) pcm)"

lemma segment_empty: "b \<le> a \<Longrightarrow> segment bpf a b pcm = []"
  by (simp add: segment_def min.coboundedI2)

lemma segment_join: "segment bpf (max a l) (min b m) pcm @ segment bpf (max a m) b pcm = segment bpf (max a l) b pcm" if "l \<le> m"
proof (cases "b \<le> m")
  case True
  then show ?thesis using that by (simp add: segment_empty [of b "max a m"] min_absorb1)
next
  case False
  show ?thesis
  proof (cases "a \<le> m")
    case True
    have "drop x (take y pcm) @ drop y (take z pcm) = drop x (take z pcm)" if "x \<le> y" "y \<le> z" for x y z
    proof -
      have "take z pcm = take y pcm @ drop y (take z pcm)" using that by (metis append_take_drop_id min.absorb2 take_take min.commute)
      then have "drop x (take z pcm) = drop x (take y pcm) @ drop (x - length (take y pcm)) (drop y (take z pcm))" by (metis drop_append)
      moreover have "drop (x - length (take y pcm)) (drop y (take z pcm)) = drop y (take z pcm)" using that by (cases "length pcm \<le> y") auto
      ultimately show ?thesis by simp
    qed
    moreover have "max a l * bpf \<le> m * bpf" "m * bpf \<le> b * bpf" using True False that by (auto intro: mult_le_mono1)
    ultimately show ?thesis using True False by (simp add: segment_def max_absorb2 min_absorb2)
  next
    case False
    then show ?thesis using \<open>\<not> b \<le> m\<close> that by (simp add: segment_empty max_def)
  qed
qed

lemma chunk_contribution:
  assumes body: "body = take (n * bpf) (drop (S * bpf) pcm)" and b: "b \<le> S + n"
  shows "(if min ((b - S) * bpf) (length body) > min ((a - S) * bpf) (length body)
      then out @ take (min ((b - S) * bpf) (length body) - min ((a - S) * bpf) (length body)) (drop (min ((a - S) * bpf) (length body)) body)
      else out) = out @ segment bpf (max a S) b pcm"
proof -
  let ?x = "(a - S) * bpf" and ?y = "(b - S) * bpf"
  have "(if min ?y (length body) > min ?x (length body)
      then out @ take (min ?y (length body) - min ?x (length body)) (drop (min ?x (length body)) body) else out) =
    out @ drop ?x (take ?y body)"
    by (auto simp: drop_take min_def)
  also have "take ?y body = take ?y (drop (S * bpf) pcm)"
    using b by (simp add: body min_absorb1) (metis add.commute diff_le_mono le_add_diff_inverse2 mult_le_mono1 diff_add_inverse min.absorb1)
  also have "drop ?x \<dots> = segment bpf (max a S) b pcm"
  proof (cases "S \<le> b")
    case True
    have "take ?y (drop (S * bpf) pcm) = drop (S * bpf) (take (b * bpf) pcm)"
      using True by (simp add: drop_take diff_mult_distrib)
    moreover have "?x + S * bpf = max a S * bpf" by (simp add: add_mult_distrib [symmetric] max_def)
    ultimately show ?thesis by (simp add: segment_def)
  next
    case False
    then show ?thesis by (simp add: segment_empty)
  qed
  finally show ?thesis .
qed

lemma read_range_from:
  fixes w pcm
  defines "bodies \<equiv> minutes (cw_limit w) pcm" and "frames \<equiv> length pcm div cw_bytes_per_frame w" and "rate \<equiv> cw_sample_rate w"
  assumes "0 < rate" and "0 < cw_bytes_per_frame w" and "cw_bytes_per_frame w dvd length pcm" and "frames * 1000 \<le> u64_max"
    and laid: "laid_out c w disk bodies" and "i \<le> length bodies"
  shows "read_range c (cw_key w) sizes disk rate (cw_bytes_per_frame w) s e (drop i (chunk_list w bodies)) out =
    Inr (out @ segment (cw_bytes_per_frame w) (max (s * rate div 1000) (i * (rate * 60))) (min e (duration_ms frames rate) * rate div 1000) pcm)"
proof -
  let ?bpf = "cw_bytes_per_frame w" and ?lim = "cw_limit w"
  define fe where "fe = min e (duration_ms frames rate) * rate div 1000"
  have lim: "?lim = rate * 60 * ?bpf" using assms(4) by (simp add: cw_limit_def chunk_byte_limit_eq rate_def)
  then have pos: "0 < ?lim" using assms(4,5) by simp
  have total: "length pcm = frames * ?bpf" using assms(6) by (simp add: frames_def)
  have duration: "duration_ms frames rate = frames * 1000 div rate" using assms(4,7) by (simp add: duration_ms_def sat_mul_def min_def)
  have "min e (duration_ms frames rate) * rate \<le> frames * 1000 div rate * rate" by (simp add: duration)
  also have "\<dots> \<le> frames * 1000" by simp
  finally have fe_le: "fe \<le> frames" unfolding fe_def by simp
  have le_frames: "k * ?lim \<le> length pcm \<Longrightarrow> k * (rate * 60) \<le> frames" "length pcm \<le> k * ?lim \<Longrightarrow> frames \<le> k * (rate * 60)" for k
    using assms(5) unfolding lim total by (simp_all add: mult.assoc [symmetric])
  have times: "start_ms (chunk_list w bodies ! i) = 60000 * i"
    "end_ms (chunk_list w bodies ! i) = (if Suc i < length bodies then 60000 * Suc i else duration_ms frames rate)" if "i < length bodies" for i
    using chunk_times [of w pcm i] assms(4-7) that by (simp_all add: bodies_def frames_def rate_def)
  have nth: "bodies ! i = take (rate * 60 * ?bpf) (drop (i * (rate * 60) * ?bpf) pcm)"
    "Suc i < length bodies \<Longrightarrow> Suc i * (rate * 60) \<le> frames" "\<not> Suc i < length bodies \<Longrightarrow> frames \<le> Suc i * (rate * 60)" if "i < length bodies" for i
    using minutes_nth [OF pos that [unfolded bodies_def]] le_frames [of "Suc i"] that by (auto simp: bodies_def lim mult.assoc)
  have shift: "(x - 60000 * i) * rate div 1000 = x * rate div 1000 - i * (rate * 60)" for x i
  proof -
    have "(a - 1000 * k) div 1000 = a div 1000 - k" for a k :: nat by linarith
    from this [of "x * rate" "i * (rate * 60)"] show ?thesis by (simp add: diff_mult_distrib algebra_simps)
  qed
  have "read_range c (cw_key w) sizes disk rate ?bpf s e (drop i (chunk_list w bodies)) out =
    Inr (out @ segment ?bpf (max (s * rate div 1000) (i * (rate * 60))) fe pcm)"
    using \<open>i \<le> length bodies\<close>
  proof (induction "length bodies - i" arbitrary: i out)
    case 0
    then have i: "i = length bodies" by simp
    moreover have "bodies \<noteq> []" using minutes_not_Nil [OF pos] by (simp add: bodies_def)
    then have "frames \<le> length bodies * (rate * 60)" using nth(3) [of "length bodies - 1"] by simp
    ultimately show ?case using fe_le by (simp add: segment_empty)
  next
    case (Suc n)
    then have i: "i < length bodies" by simp
    let ?S = "i * (rate * 60)" and ?ch = "chunk_list w bodies ! i"
    define g where "g = min e (end_ms ?ch) * rate div 1000"
    have g: "g = min fe (?S + rate * 60)"
    proof (cases "Suc i < length bodies")
      case True
      have "60000 * Suc i * rate = Suc i * (rate * 60) * 1000" by (simp add: algebra_simps)
      also have "\<dots> \<le> frames * 1000" using nth(2) [OF i True] by (rule mult_le_mono1)
      finally have "frames * 1000 \<ge> 60000 * Suc i * rate" .
      then have "60000 * Suc i \<le> duration_ms frames rate" using assms(4) by (simp add: duration less_eq_div_iff_mult_less_eq)
      then have "min e (end_ms ?ch) = min (min e (duration_ms frames rate)) (60000 * Suc i)" using True times(2) [OF i] by simp
      moreover have "min x (60000 * Suc i) * rate div 1000 = min (x * rate div 1000) (?S + rate * 60)" for x
      proof -
        have edge: "60000 * Suc i * rate div 1000 = ?S + rate * 60" by (simp add: algebra_simps)
        have "x * rate div 1000 \<le> y * rate div 1000" if "x \<le> y" for x y using that by (intro div_le_mono mult_le_mono1)
        note mono = this
        show ?thesis
        proof (cases "x \<le> 60000 * Suc i")
          case True
          with mono [of x "60000 * Suc i"] edge show ?thesis by (simp only: min_absorb1)
        next
          case False
          with mono [of "60000 * Suc i" x] edge show ?thesis by (simp only: min_absorb2 nat_le_linear not_le less_imp_le)
        qed
      qed
      ultimately show ?thesis by (simp add: g_def fe_def)
    next
      case False
      then have "g = fe" using times(2) [OF i] by (simp add: g_def fe_def)
      with fe_le nth(3) [OF i False] show ?thesis by simp
    qed
    have reads: "read_file c (cw_key w) sizes disk (chunk_path ?ch) [] = Inr (bodies ! i)" "disk (chunk_path ?ch) \<noteq> None"
      using laid i reads_as_exists [of c "cw_key w" disk "cw_path w i" "bodies ! i"]
      by (auto simp: laid_out_def reads_as_def chunk_list_def)
    have step: "read_range c (cw_key w) sizes disk rate ?bpf s e (?ch # drop (Suc i) (chunk_list w bodies)) out =
        read_range c (cw_key w) sizes disk rate ?bpf s e (drop (Suc i) (chunk_list w bodies)) (out @ segment ?bpf (max (s * rate div 1000) ?S) g pcm)"
    proof (cases "end_ms ?ch \<le> s \<or> e \<le> start_ms ?ch")
      case True
      have "g \<le> s * rate div 1000" if "end_ms ?ch \<le> s" using that by (auto simp: g_def intro!: div_le_mono mult_le_mono1 min.coboundedI2)
      moreover have "g \<le> ?S" if "e \<le> start_ms ?ch"
      proof -
        have "min e (end_ms ?ch) \<le> 60000 * i" using that times(1) [OF i] by simp
        then have "g \<le> 60000 * i * rate div 1000" unfolding g_def by (intro div_le_mono mult_le_mono1)
        also have "60000 * i * rate div 1000 = ?S" by (simp add: algebra_simps)
        finally show ?thesis .
      qed
      ultimately have "segment ?bpf (max (s * rate div 1000) ?S) g pcm = []" using True by (auto simp: segment_empty max_def)
      with True show ?thesis by simp
    next
      case False
      have "g \<le> ?S + rate * 60" by (simp add: g)
      note here = chunk_contribution [OF nth(1) [OF i] this, of "s * rate div 1000" out]
      have AB: "s * rate div 1000 - ?S = (s - start_ms ?ch) * rate div 1000" "g - ?S = (min e (end_ms ?ch) - start_ms ?ch) * rate div 1000"
        by (simp_all only: times(1) [OF i] shift g_def)
      obtain bs where "disk (chunk_path ?ch) = Some bs" using reads(2) by blast
      note step = read_range_step [OF False this reads(1) AB, of ?bpf "drop (Suc i) (chunk_list w bodies)" out]
      from step show ?thesis by (simp only: here)
    qed
    have "drop i (chunk_list w bodies) = ?ch # drop (Suc i) (chunk_list w bodies)" using i by (simp add: Cons_nth_drop_Suc)
    with step Suc.hyps(1) [of "Suc i"] Suc.hyps(2) i segment_join [of ?S "?S + rate * 60" ?bpf "s * rate div 1000" fe pcm] g
    show ?case by (simp add: add.commute)
  qed
  then show ?thesis by (simp add: fe_def)
qed

section \<open>An import is laid out as a recording\<close>

lemma encrypt_to_file_only: "encrypt_to_file c key d p body disk = (x, disk') \<Longrightarrow> q \<noteq> p \<Longrightarrow> disk' q = disk q"
  by (auto simp: encrypt_to_file_def split: sum.splits io_fault.splits)

lemma encrypt_to_file_Inr:
  assumes "aead_ok c" and "nonces_ok (nonces d)" and "encrypt_to_file c key d p body disk = (Inr u, disk')"
  shows "reads_as c key disk' p body"
proof -
  obtain bs where "encrypted_file c key (nonces d) body = Inr bs" using encrypted_file_total assms by blast
  moreover from this assms(3) have "disk' p = Some bs" by (auto simp: encrypt_to_file_def split: io_fault.splits)
  ultimately show ?thesis by (rule encrypted_file_reads [OF assms(1,2)])
qed

lemma remove_files_apply: "remove_files ps disk p = (if p \<in> set ps then None else disk p)"
  unfolding remove_files_def by (induction ps arbitrary: disk) auto

lemma chunk_frames:
  fixes w pcm
  defines "bodies \<equiv> minutes (cw_limit w) pcm" and "frames \<equiv> length pcm div cw_bytes_per_frame w"
  assumes pos: "0 < cw_bytes_per_frame w" and whole: "cw_bytes_per_frame w dvd length pcm" and small: "frames \<le> u64_max"
    and i: "i < length bodies"
  shows "nth_start w i = i * cw_limit w div cw_bytes_per_frame w" and "nth_start w i \<le> frames"
    and "sat_add (nth_start w i) (length (bodies ! i) div cw_bytes_per_frame w) = min (i * cw_limit w + cw_limit w) (length pcm) div cw_bytes_per_frame w"
    and "sat_add (nth_start w i) (length (bodies ! i) div cw_bytes_per_frame w) \<le> frames"
proof -
  let ?bpf = "cw_bytes_per_frame w" and ?lim = "cw_limit w"
  define R where "R = max (cw_sample_rate w) 1 * 60"
  have lim: "?lim = R * ?bpf" by (simp add: R_def cw_limit_def chunk_byte_limit_eq)
  have "0 < ?lim" using pos by (simp add: lim R_def)
  note nth = minutes_nth [OF this i [unfolded bodies_def]]
  have total: "length pcm = frames * ?bpf" using whole by (simp add: frames_def)
  have le: "i * R \<le> frames" using nth(2) pos unfolding lim total by (simp add: mult.assoc [symmetric])
  have start: "nth_start w i = i * R" using le small pos by (simp add: nth_start_def lim)
  show "nth_start w i = i * ?lim div ?bpf" using pos by (simp add: start lim mult.assoc [symmetric])
  show "nth_start w i \<le> frames" using le start by simp
  have body: "length (bodies ! i) = min (R * ?bpf) (frames * ?bpf - i * R * ?bpf)"
    using nth(1) by (simp add: bodies_def lim total min.commute mult.assoc)
  also have "\<dots> = min R (frames - i * R) * ?bpf" by (simp add: nat_mult_min_left diff_mult_distrib)
  finally have "sat_add (nth_start w i) (length (bodies ! i) div ?bpf) = min (min (i * R + R) frames) u64_max"
    using pos le by (simp add: start sat_add_def min_add_distrib_right)
  also have "\<dots> = min (i * R + R) frames" using small by simp
  finally have e: "sat_add (nth_start w i) (length (bodies ! i) div ?bpf) = min (i * R + R) frames" .
  have "min (i * ?lim + ?lim) (length pcm) = min (i * R + R) frames * ?bpf"
    by (simp add: lim total nat_mult_min_left add_mult_distrib mult.assoc)
  with e pos show "sat_add (nth_start w i) (length (bodies ! i) div ?bpf) = min (i * ?lim + ?lim) (length pcm) div ?bpf" by simp
  show "sat_add (nth_start w i) (length (bodies ! i) div ?bpf) \<le> frames" by (simp add: e)
qed

lemma import_chunks_spec:
  fixes data_dir session_id key rate channels f pcm
  defines "w \<equiv> writer_of data_dir session_id key rate channels f"
  defines "bodies \<equiv> minutes (cw_limit w) pcm"
  assumes "aead_ok c" and "draws_ok ds" and "cw_bytes_per_frame w dvd length pcm" and small: "length pcm div cw_bytes_per_frame w * 1000 \<le> u64_max"
    and "i < length bodies" and "laid_out c w disk (take i bodies)"
    and "import_chunks c ds data_dir session_id key pcm rate channels f (i * cw_limit w) i (chunk_list w (take i bodies)) disk = (x, disk')"
  shows "case x of
      Inr chunks \<Rightarrow> chunks = chunk_list w bodies \<and> laid_out c w disk' bodies \<and> (\<forall>p. p \<notin> cw_path w ` {i..<length bodies} \<longrightarrow> disk' p = disk p)
    | Inl e \<Rightarrow> \<not> faultless ds \<and> (\<exists>k. i \<le> k \<and> k < length bodies \<and> (\<forall>p. disk' p = (if p \<in> cw_path w ` {..k} then None else disk p)))"
  using assms(7-)
proof (induction "length bodies - i" arbitrary: i disk)
  case (Suc n)
  let ?bpf = "cw_bytes_per_frame w" and ?lim = "cw_limit w"
  have w: "?bpf = bytes_per_frame channels f" "?lim = chunk_byte_limit rate (bytes_per_frame channels f)" "cw_sample_rate w = rate"
    "\<And>j. session_audio_chunk_path data_dir session_id j = cw_path w j" "cw_session_id w = session_id" "cw_key w = key"
    by (simp_all add: w_def writer_of_def cw_limit_def cw_path_def)
  have pos: "0 < ?bpf" "0 < ?lim" by (simp_all add: w)
  have i: "i < length bodies" by fact
  note nth = minutes_nth [OF pos(2) i [unfolded bodies_def]]
  note frames = chunk_frames [OF pos(1) assms(5) _ i [unfolded bodies_def]]
  define finish where "finish = min (i * ?lim + ?lim) (length pcm)"
  have slice: "take (finish - i * ?lim) (drop (i * ?lim) pcm) = bodies ! i"
    using nth(1,2) by (simp add: finish_def bodies_def min_def)
  have small': "length pcm div ?bpf \<le> u64_max" using small by simp
  define ch where "ch = \<lparr>chunk_id = audio_chunk_id session_id i, chunk_path = cw_path w i,
    start_ms = (if rate > 0 then i * ?lim div ?bpf * 1000 div rate else 0),
    end_ms = (if rate > 0 then finish div ?bpf * 1000 div rate else (if rate > 0 then i * ?lim div ?bpf * 1000 div rate else 0))\<rparr>"
  have exact: "sat_mul n 1000 = n * 1000" if "n \<le> length pcm div ?bpf" for n
    using that small by (simp add: sat_mul_def min_def)
  have ch: "ch = written_chunk w (length (bodies ! i)) (nth_start w i) i"
    using frames(1) [OF small'] frames(3) [OF small'] exact [OF frames(2) [OF small']] exact [OF frames(4) [OF small']]
    by (simp add: ch_def written_chunk_def Let_def w(3,5) bodies_def finish_def cw_path_def)
  obtain y disk1 where e: "encrypt_to_file c key (ds i) (cw_path w i) (bodies ! i) disk = (y, disk1)" by fastforce
  have go: "i * ?lim < length pcm \<or> pcm = [] \<and> i = 0"
    using nth(5) i by (cases "pcm = []") (auto simp: bodies_def minutes_def)
  have unfolded: "import_chunks c ds data_dir session_id key pcm rate channels f (i * ?lim) i (chunk_list w (take i bodies)) disk =
    (case y of Inl e \<Rightarrow> (Inl WriteFailed, remove_files (map chunk_path (chunk_list w (take i bodies))) (disk1(cw_path w i := None)))
     | Inr _ \<Rightarrow> if finish = length pcm then (Inr (chunk_list w (take i bodies) @ [ch]), disk1)
         else import_chunks c ds data_dir session_id key pcm rate channels f finish (Suc i) (chunk_list w (take i bodies) @ [ch]) disk1)"
  proof -
    have limit: "chunk_byte_limit rate ?bpf = ?lim" "rate = 0 \<Longrightarrow> chunk_byte_limit 0 ?bpf = ?lim" by (simp_all add: w(1,2))
    from go show ?thesis
      by (subst import_chunks.simps) (simp add: Let_def w(1) [symmetric] limit finish_def [symmetric] slice w(4) e ch_def split: sum.split)
  qed
  have other: "disk1 q = disk q" if "q \<noteq> cw_path w i" for q using encrypt_to_file_only [OF e that] .
  show ?case
  proof (cases y)
    case (Inl e')
    then have "x = Inl WriteFailed" and "disk' = remove_files (map chunk_path (chunk_list w (take i bodies))) (disk1(cw_path w i := None))"
      using Suc.prems(3) unfolded by simp_all
    moreover have "map chunk_path (chunk_list w (take i bodies)) = map (cw_path w) [0..<i]"
      using i by (simp add: chunk_list_paths)
    ultimately have "disk' p = (if p \<in> cw_path w ` {..i} then None else disk p)" for p
      using other by (auto simp: remove_files_apply atLeast0LessThan lessThan_Suc_atMost [symmetric] lessThan_Suc)
    moreover have "\<not> faultless ds"
    proof
      assume "faultless ds"
      moreover obtain bs where "encrypted_file c key (nonces (ds i)) (bodies ! i) = Inr bs"
        using encrypted_file_total [OF assms(3), of "nonces (ds i)" key "bodies ! i"] assms(4) by (auto simp: draws_ok_def)
      ultimately show False using e Inl by (auto simp: encrypt_to_file_def faultless_def)
    qed
    ultimately show ?thesis using \<open>x = Inl WriteFailed\<close> i by auto
  next
    case (Inr u)
    have "reads_as c key disk1 (cw_path w i) (bodies ! i)"
      using encrypt_to_file_Inr [OF assms(3) _ e [unfolded Inr]] assms(4) by (simp add: draws_ok_def)
    then have laid: "laid_out c w disk1 (take (Suc i) bodies)"
      unfolding take_Suc_conv_app_nth [OF i] by (intro laid_out_snoc [OF Suc.prems(2)]) (use other i in \<open>auto simp: w(6) min_def\<close>)
    have chunks: "chunk_list w (take i bodies) @ [ch] = chunk_list w (take (Suc i) bodies)"
      unfolding take_Suc_conv_app_nth [OF i] using i by (simp add: chunk_list_snoc ch min_def)
    show ?thesis
    proof (cases "Suc i < length bodies")
      case True
      then have "finish = Suc i * ?lim" "finish \<noteq> length pcm" using nth(3) by (auto simp: finish_def bodies_def)
      then have step: "import_chunks c ds data_dir session_id key pcm rate channels f (Suc i * ?lim) (Suc i) (chunk_list w (take (Suc i) bodies)) disk1 = (x, disk')"
        using Suc.prems(3) unfolded Inr chunks by simp
      have "n = length bodies - Suc i" using Suc.hyps(2) by simp
      from Suc.hyps(1) [OF this True laid step] other i show ?thesis
        by (auto split: sum.splits simp: image_iff) (metis Suc_leD atMost_iff le_refl other)+
    next
      case False
      then have "Suc i = length bodies" "finish = length pcm" using i nth(4) by (auto simp: finish_def bodies_def)
      moreover have "p \<noteq> cw_path w i" if "p \<notin> cw_path w ` {i..<length bodies}" for p using that i by auto
      ultimately show ?thesis using Suc.prems(3) unfolded Inr chunks laid other by auto
    qed
  qed
qed simp

lemma import_spec:
  fixes data_dir session_id key rate channels f pcm
  defines "w \<equiv> writer_of data_dir session_id key rate channels f"
  defines "bodies \<equiv> minutes (cw_limit w) pcm"
  assumes "aead_ok c" and "draws_ok ds" and "bytes_per_frame channels f dvd length pcm"
    and "length pcm div bytes_per_frame channels f * 1000 \<le> u64_max"
    and "write_encrypted_audio_chunks c ds data_dir session_id key pcm rate channels f disk = (x, disk')"
  shows "case x of
      Inr chunks \<Rightarrow> chunks = chunk_list w bodies \<and> laid_out c w disk' bodies \<and> (\<forall>p. p \<notin> range (cw_path w) \<longrightarrow> disk' p = disk p)
    | Inl e \<Rightarrow> (require_session_id_path_component session_id = Inr () \<longrightarrow> \<not> faultless ds) \<and>
        (\<exists>K. \<forall>p. disk' p = (if p \<in> cw_path w ` K then None else disk p))"
proof (cases "create_session_audio_dir (ds 0) data_dir session_id")
  case (Inl e)
  then have "x = Inl e" "disk' = disk" using assms(7) by (simp_all add: write_encrypted_audio_chunks_def)
  moreover have "require_session_id_path_component session_id = Inr () \<longrightarrow> \<not> faultless ds"
    using Inl io_fault.distinct(1) by (force simp: create_session_audio_dir_def faultless_def split: if_splits)
  ultimately show ?thesis by (auto intro: exI [of _ "{}"])
next
  case (Inr d)
  have w: "cw_bytes_per_frame w = bytes_per_frame channels f" by (simp add: w_def writer_of_def)
  then have "0 < cw_limit w" by (simp add: cw_limit_def)
  then have "0 < length bodies" using minutes_not_Nil by (simp add: bodies_def)
  moreover have "import_chunks c ds data_dir session_id key pcm rate channels f (0 * cw_limit w) 0 (chunk_list w (take 0 bodies)) disk = (x, disk')"
    using assms(7) Inr by (simp add: write_encrypted_audio_chunks_def chunk_list_def)
  ultimately have "case x of
      Inr chunks \<Rightarrow> chunks = chunk_list w bodies \<and> laid_out c w disk' bodies \<and> (\<forall>p. p \<notin> cw_path w ` {0..<length bodies} \<longrightarrow> disk' p = disk p)
    | Inl e \<Rightarrow> \<not> faultless ds \<and> (\<exists>k. 0 \<le> k \<and> k < length bodies \<and> (\<forall>p. disk' p = (if p \<in> cw_path w ` {..k} then None else disk p)))"
    using import_chunks_spec [of c ds data_dir session_id key rate channels f pcm 0 disk x disk', folded w_def, folded bodies_def,
        OF assms(3,4) assms(5,6) [folded w]] by simp
  note outcome = this
  show ?thesis
  proof (cases x)
    case (Inl e)
    with outcome obtain k where "\<not> faultless ds" and "\<forall>p. disk' p = (if p \<in> cw_path w ` {..k} then None else disk p)" by auto
    with Inl show ?thesis by (simp only: sum.case) blast
  next
    case (Inr chunks)
    with outcome have "disk' p = disk p" if "p \<notin> range (cw_path w)" for p using that by auto
    with outcome Inr show ?thesis by simp
  qed
qed

section \<open>The theorems\<close>


text \<open>C38. Reading a time range of stored audio gives exactly the frames of that range: from the frame at
  its start to the frame at its end, or at the end of the recording in whole milliseconds.\<close>

theorem range_reads_exact_frames:
  fixes data_dir session_id key rate channels f pcm
  defines "bpf \<equiv> bytes_per_frame channels f"
  assumes "aead_ok c" and "draws_ok ds" and "faultless ds" and "require_session_id_path_component session_id = Inr ()"
    and "0 < rate" and "bpf dvd length pcm" and "length pcm div bpf * 1000 \<le> u64_max"
  shows "\<exists>chunks disk'. write_encrypted_audio_chunks c ds data_dir session_id key pcm rate channels f disk = (Inr chunks, disk') \<and>
     read_range c key sizes disk' rate bpf from_ms to_ms chunks [] =
       Inr (segment bpf (from_ms * rate div 1000) (min to_ms (duration_ms (length pcm div bpf) rate) * rate div 1000) pcm)"
proof -
  let ?w = "writer_of data_dir session_id key rate channels f"
  obtain x disk' where wr: "write_encrypted_audio_chunks c ds data_dir session_id key pcm rate channels f disk = (x, disk')" by fastforce
  note spec = import_spec [OF assms(2,3) assms(7,8) [unfolded bpf_def] wr]
  then obtain chunks where x: "x = Inr chunks" using assms(4,5) by (cases x) auto
  have w: "cw_sample_rate ?w = rate" "cw_bytes_per_frame ?w = bpf" "cw_key ?w = key" by (simp_all add: writer_of_def bpf_def)
  have "0 < bpf" by (simp add: bpf_def)
  then have "read_range c key sizes disk' rate bpf from_ms to_ms chunks [] =
      Inr (segment bpf (from_ms * rate div 1000) (min to_ms (duration_ms (length pcm div bpf) rate) * rate div 1000) pcm)"
    using read_range_from [of ?w pcm c disk' 0 sizes from_ms to_ms "[]"] spec x assms(6-8) by (simp add: w)
  with wr x show ?thesis by blast
qed


theorem range_reads_exact_frames_witness:
  "\<exists>chunks disk'. write_encrypted_audio_chunks plain_cipher (draws plain_env) [] (lit ''s'') [] [1, 2, 3, 4] 1 1 S16 Map.empty = (Inr chunks, disk') \<and>
     read_range plain_cipher [] (\<lambda>k. 0) disk' 1 2 1000 2000 chunks [] = Inr [3, 4]"
  using range_reads_exact_frames [OF plain_cipher_ok plain_env_ok(1,2) demo_id_ok, of 1 1 S16 "[1, 2, 3, 4]" "[]" "[]" Map.empty "\<lambda>k. 0" 1000 2000]
  by (simp add: bytes_per_frame_def u64_max_def duration_ms_def sat_mul_def segment_def)

end
