(* ===== verification/Spec2Isabelle.thy ===== *)
theory Spec2Isabelle
  imports Model_Script Stream_Lane Task_Queue Transcript_Projection Mirror_Lis Sync_Pairing Sync_Space Sync_Nearby Capture_Pipeline Recording_Crash Recording_Import
begin

text \<open>
  ZuTalk (Rust workspace \<open>src/crates\<close>): a verification development of its core.

  The program captures speech, streams it to a speech provider over one or several lanes, keeps the
  audio, the transcripts and the notes on the device, and hands post-recording work to a durable
  queue. The theories follow the crates; each models the code of its files function by function
  and proves what makes it correct.

  \<^item> \<open>Prelude\<close>: machine durations and instants, saturating 64-bit arithmetic, strings as lists of
    code points (\<open>ustring\<close>), the state-and-error monad \<open>sm\<close> of the asynchronous code with its
    invariant rules, and the two interfaces the components share as locales: \<open>state_preorder\<close> (a
    relation every operation advances) and \<open>keyed_update\<close> (a change of one keyed row of a table).
  \<^item> \<open>Model_Text\<close>, \<open>Model_Script\<close> (crate \<open>vt-model\<close>): normalization of provider text, piecewise
    and whole; scripts and languages; alignment of source texts.
  \<^item> \<open>Stream_Errors\<close>, \<open>Stream_Clock\<close>, \<open>Stream_Config\<close>, \<open>Stream_Session\<close>, \<open>Stream_Run\<close> (crate
    \<open>vt-stt\<close>, \<open>soniox_stream.rs\<close> and the error helpers of \<open>soniox_rt.rs\<close>): errors and their retry
    class, the recovery clock and its replay buffer, the configuration frame, one connection with
    every branch of its \<open>select!\<close>, and the life of a lane over its reconnects.
    \<open>Stream_Session_Laws\<close>, \<open>Stream_Protocol\<close> and \<open>Stream_Lane\<close> hold what is proved of a
    whole lane: its timeline is a run of the clock, the wire keeps the provider's protocol, what is
    sent, delivered, lost and retried.
  \<^item> \<open>Task_Queue\<close> (crate \<open>vt-pipeline\<close>): the SQL task table with its leases, over any sequence of
    operations and restarts.
  \<^item> \<open>Transcript_Projection\<close> (crate \<open>vt-store\<close>): machine and user writes of transcript blocks
    and the slices by which a session moves.
  \<^item> \<open>Mirror_Lis\<close> (crate \<open>vt-mirror\<close>): the longest increasing subsequence of the list diff.
\<close>

end
